(* ===== verification/Prelude.thy ===== *)
theory Prelude
  imports Main "HOL-Library.Word" "HOL-Library.Sublist"
begin

unbundle bit_operations_syntax

text \<open>
  Shared vocabulary of the development.

  \<^item> Names for Rust's integer types and the casts between them.
  \<^item> Strings are lists of bytes (a Rust \<open>String\<close> is UTF-8; every operation the code
    applies to paths and keys looks for ASCII separators only, so the byte view is exact).
  \<^item> Fallible stateful code: an operation takes a state and returns \<open>Inl error\<close> or
    \<open>Inr value\<close> together with the new state; \<open>andThen\<close> is Rust's \<open>?\<close>.
  \<^item> \<open>preserves\<close>, the judgement that every exit of an operation, normal or not, keeps an
    invariant, with one introduction rule per combinator.
\<close>

named_theorems op_defs
named_theorems preserves_intros

section \<open>Machine integers\<close>

type_synonym u8 = "8 word"
type_synonym u16 = "16 word"
type_synonym u32 = "32 word"
type_synonym u64 = "64 word"

text \<open>\<open>i64\<close> values (SQLite integers, Unix times) are \<open>int\<close>s; the casts wrap.\<close>

type_synonym i64 = int

type_synonym byte = "8 word"
type_synonym bytes = "byte list"

definition i64_range :: "int \<Rightarrow> bool" where
  "i64_range i \<longleftrightarrow> - (2 ^ 63) \<le> i \<and> i < 2 ^ 63"

definition u64_as_i64 :: "u64 \<Rightarrow> i64" where
  "u64_as_i64 w = sint w"

definition i64_as_u64 :: "i64 \<Rightarrow> u64" where
  "i64_as_u64 i = word_of_int i"

definition u32_as_i64 :: "u32 \<Rightarrow> i64" where
  "u32_as_i64 w = uint w"

definition i64_as_u32 :: "i64 \<Rightarrow> u32" where
  "i64_as_u32 i = word_of_int i"

definition u8_as_i64 :: "u8 \<Rightarrow> i64" where
  "u8_as_i64 w = uint w"

definition i64_as_u8 :: "i64 \<Rightarrow> u8" where
  "i64_as_u8 i = word_of_int i"

lemma i64_as_u64_u64_as_i64 [simp]: "i64_as_u64 (u64_as_i64 w) = w"
  by (simp add: i64_as_u64_def u64_as_i64_def)

lemma i64_as_u32_u32_as_i64 [simp]: "i64_as_u32 (u32_as_i64 w) = w"
  by (simp add: i64_as_u32_def u32_as_i64_def)

lemma i64_as_u8_u8_as_i64 [simp]: "i64_as_u8 (u8_as_i64 w) = w"
  by (simp add: i64_as_u8_def u8_as_i64_def)

lemma i64_range_u64_as_i64 [simp]: "i64_range (u64_as_i64 w)"
  using sint_greater_eq [of w] sint_less [of w] by (simp add: i64_range_def u64_as_i64_def)

lemma u64_as_i64_i64_as_u64: "i64_range i \<Longrightarrow> u64_as_i64 (i64_as_u64 i) = i"
  by (simp add: i64_range_def u64_as_i64_def i64_as_u64_def sint_sbintrunc' signed_take_bit_int_eq_self)

lemma u32_as_i64_nonneg [simp]: "0 \<le> u32_as_i64 w"
  by (simp add: u32_as_i64_def)

definition u64_saturating_sub :: "u64 \<Rightarrow> u64 \<Rightarrow> u64" where
  "u64_saturating_sub a b = (if a < b then 0 else a - b)"

lemma unat_u64_saturating_sub: "unat (u64_saturating_sub a b) = unat a - unat b"
  by (auto simp: u64_saturating_sub_def unat_sub word_less_nat_alt not_less word_le_nat_alt)

section \<open>Operations with state and errors\<close>

type_synonym ('s, 'e, 'a) op = "'s \<Rightarrow> ('e + 'a) \<times> 's"

definition okR :: "'a \<Rightarrow> ('s, 'e, 'a) op" where
  "okR a s = (Inr a, s)"

definition errR :: "'e \<Rightarrow> ('s, 'e, 'a) op" where
  "errR e s = (Inl e, s)"

text \<open>\<open>m?\<close> followed by the rest of the function body.\<close>

definition andThen :: "('s, 'e, 'a) op \<Rightarrow> ('a \<Rightarrow> ('s, 'e, 'b) op) \<Rightarrow> ('s, 'e, 'b) op" where
  "andThen m f s = (case m s of (Inl e, s') \<Rightarrow> (Inl e, s') | (Inr a, s') \<Rightarrow> f a s')"

text \<open>Run \<open>m\<close> and look at its \<open>Result\<close> (\<open>match m \<dots>\<close>, \<open>m.ok()\<close>, \<open>let _ = m\<close>).\<close>

definition attempt :: "('s, 'e, 'a) op \<Rightarrow> ('s, 'f, 'e + 'a) op" where
  "attempt m s = (case m s of (r, s') \<Rightarrow> (Inr r, s'))"

lemma attempt_result: "fst (m w) = r \<Longrightarrow> attempt m w = (Inr r, snd (m w))"
  by (cases "m w") (simp add: attempt_def)

definition getR :: "('s \<Rightarrow> 'a) \<Rightarrow> ('s, 'e, 'a) op" where
  "getR f s = (Inr (f s), s)"

definition modifyR :: "('s \<Rightarrow> 's) \<Rightarrow> ('s, 'e, unit) op" where
  "modifyR f s = (Inr (), f s)"

definition liftR :: "'e + 'a \<Rightarrow> ('s, 'e, 'a) op" where
  "liftR r s = (r, s)"

text \<open>\<open>m.map_err(f)\<close>.\<close>

definition map_errR :: "('e \<Rightarrow> 'f) \<Rightarrow> ('s, 'e, 'a) op \<Rightarrow> ('s, 'f, 'a) op" where
  "map_errR f m s = (case m s of (Inl e, s') \<Rightarrow> (Inl (f e), s') | (Inr a, s') \<Rightarrow> (Inr a, s'))"

text \<open>Run an operation on a component of a larger state.\<close>

definition zoom :: "('s \<Rightarrow> 'c) \<Rightarrow> ('c \<Rightarrow> 's \<Rightarrow> 's) \<Rightarrow> ('c, 'e, 'a) op \<Rightarrow> ('s, 'e, 'a) op" where
  "zoom getc putc m s = (case m (getc s) of (r, c) \<Rightarrow> (r, putc c s))"

lemmas [op_defs] = okR_def errR_def andThen_def attempt_def getR_def modifyR_def liftR_def zoom_def
  map_errR_def

lemma andThen_assoc: "andThen (andThen m f) g = andThen m (\<lambda>x. andThen (f x) g)"
  by (rule ext) (simp add: andThen_def split: prod.splits sum.splits)

lemma andThen_okR [simp]: "andThen (okR a) f = f a" "andThen m okR = m"
  by (rule ext, simp add: okR_def andThen_def split: prod.splits sum.splits)+

lemma andThen_errR [simp]: "andThen (errR e) f = errR e"
  by (rule ext) (simp add: errR_def andThen_def)

lemma andThen_Inr:
  "andThen m f s = (Inr b, t) \<longleftrightarrow> (\<exists>a u. m s = (Inr a, u) \<and> f a u = (Inr b, t))"
  by (auto simp: andThen_def split: prod.splits sum.splits)

lemma attempt_never_fails [simp]: "attempt m s \<noteq> (Inl e, t)"
  by (simp add: attempt_def split: prod.splits)

text \<open>A run whose result is known, with the state it ends in.\<close>

lemma run_result: "fst r = x \<Longrightarrow> r = (x, snd r)"
  by (cases r) simp

section \<open>Invariants\<close>

definition preserves :: "('s \<Rightarrow> bool) \<Rightarrow> ('s, 'e, 'a) op \<Rightarrow> bool" where
  "preserves I m \<longleftrightarrow> (\<forall>s. I s \<longrightarrow> I (snd (m s)))"

lemma preservesI: "(\<And>s r t. I s \<Longrightarrow> m s = (r, t) \<Longrightarrow> I t) \<Longrightarrow> preserves I m"
  by (simp add: preserves_def) (metis prod.collapse)

lemma preservesD: "preserves I m \<Longrightarrow> I s \<Longrightarrow> m s = (r, t) \<Longrightarrow> I t"
  by (metis preserves_def snd_conv)

lemma preserves_okR [preserves_intros]: "preserves I (okR a)"
  by (simp add: preserves_def okR_def)

lemma preserves_errR [preserves_intros]: "preserves I (errR e)"
  by (simp add: preserves_def errR_def)

lemma preserves_getR [preserves_intros]: "preserves I (getR f)"
  by (simp add: preserves_def getR_def)

lemma preserves_liftR [preserves_intros]: "preserves I (liftR r)"
  by (simp add: preserves_def liftR_def)

lemma map_errR_Inr: "map_errR f m s = (Inr a, t) \<longleftrightarrow> m s = (Inr a, t)"
  by (auto simp: map_errR_def split: prod.splits sum.splits)

lemma map_errR_Inl: "map_errR f m s = (Inl e, t) \<longleftrightarrow> (\<exists>e'. m s = (Inl e', t) \<and> e = f e')"
  by (auto simp: map_errR_def split: prod.splits sum.splits)

lemma preserves_map_errR [preserves_intros]: "preserves I m \<Longrightarrow> preserves I (map_errR f m)"
  by (simp add: preserves_def map_errR_def split: prod.splits sum.splits) (metis snd_conv)

lemma preserves_attempt [preserves_intros]: "preserves I m \<Longrightarrow> preserves I (attempt m)"
  by (simp add: preserves_def attempt_def split: prod.splits) (metis snd_conv)

lemma preserves_andThen [preserves_intros]:
  assumes "preserves I m" and "\<And>a. preserves I (f a)"
  shows "preserves I (andThen m f)"
proof (rule preservesI)
  fix s r t assume s: "I s" and run: "andThen m f s = (r, t)"
  obtain r1 s1 where m: "m s = (r1, s1)" by fastforce
  from preservesD [OF assms(1) s m] have "I s1" .
  with run m assms(2) show "I t"
    by (cases r1) (auto simp: andThen_def dest: preservesD)
qed

lemma preserves_if [preserves_intros]:
  "\<lbrakk>c \<Longrightarrow> preserves I m; \<not> c \<Longrightarrow> preserves I n\<rbrakk> \<Longrightarrow> preserves I (if c then m else n)"
  by simp

lemma preserves_case_option [preserves_intros]:
  "\<lbrakk>x = None \<Longrightarrow> preserves I m; \<And>a. x = Some a \<Longrightarrow> preserves I (f a)\<rbrakk>
   \<Longrightarrow> preserves I (case x of None \<Rightarrow> m | Some a \<Rightarrow> f a)"
  by (cases x) simp_all

lemma preserves_case_sum [preserves_intros]:
  "\<lbrakk>\<And>e. x = Inl e \<Longrightarrow> preserves I (f e); \<And>a. x = Inr a \<Longrightarrow> preserves I (g a)\<rbrakk>
   \<Longrightarrow> preserves I (case x of Inl e \<Rightarrow> f e | Inr a \<Rightarrow> g a)"
  by (cases x) simp_all

lemma preserves_zoom:
  assumes "\<And>c s r d. \<lbrakk>I s; m (getc s) = (r, d)\<rbrakk> \<Longrightarrow> I (putc d s)"
  shows "preserves I (zoom getc putc m)"
proof (rule preservesI)
  fix s r t assume s: "I s" and run: "zoom getc putc m s = (r, t)"
  obtain r1 d where m: "m (getc s) = (r1, d)" by fastforce
  with run have "t = putc d s" by (simp add: zoom_def)
  with assms [OF s m] show "I t" by simp
qed

end
