(* ===== verification/Rust_Std.thy ===== *)
theory Rust_Std
  imports Prelude
begin

text \<open>
  The operations of Rust's standard library on strings and slices that the sources use, with
  the laws the components need: \<open>split\<close>, \<open>join\<close>, \<open>rfind\<close>, \<open>starts_with\<close>,
  \<open>strip_prefix\<close>, \<open>trim_start_matches\<close>, \<open>trim_end_matches\<close>, \<open>replace\<close> of one
  character, and the stable \<open>sort_by\<close>.
\<close>

section \<open>Splitting and joining\<close>

text \<open>\<open>s.split(c)\<close>: the pieces between the separators, empty ones included.\<close>

fun split_on :: "char \<Rightarrow> string \<Rightarrow> string list" where
  "split_on c [] = [[]]"
| "split_on c (x # xs) =
     (if x = c then [] # split_on c xs
      else (case split_on c xs of [] \<Rightarrow> [[x]] | w # ws \<Rightarrow> (x # w) # ws))"

text \<open>\<open>v.join(sep)\<close>.\<close>

fun join_with :: "string \<Rightarrow> string list \<Rightarrow> string" where
  "join_with sep [] = []"
| "join_with sep [w] = w"
| "join_with sep (w # v # ws) = w @ sep @ join_with sep (v # ws)"

lemma split_on_nonempty [simp]: "split_on c s \<noteq> []"
  by (induction s) (auto split: list.splits)

lemma split_on_pieces: "w \<in> set (split_on c s) \<Longrightarrow> c \<notin> set w"
proof (induction s arbitrary: w)
  case (Cons x xs)
  obtain v vs where s: "split_on c xs = v # vs"
    by (cases "split_on c xs") auto
  with Cons show ?case by (auto split: if_splits)
qed simp

lemma split_on_no_sep [simp]: "c \<notin> set w \<Longrightarrow> split_on c w = [w]"
  by (induction w) auto

lemma split_on_append_sep: "c \<notin> set w \<Longrightarrow> split_on c (w @ c # s) = w # split_on c s"
  by (induction w) auto

lemma split_on_append_sep2: "split_on c (s @ c # t) = split_on c s @ split_on c t"
proof (induction s)
  case (Cons x xs)
  obtain v vs where s: "split_on c xs = v # vs"
    by (cases "split_on c xs") auto
  with Cons show ?case by auto
qed simp

lemma split_on_join:
  "\<lbrakk>ws \<noteq> []; \<forall>w\<in>set ws. c \<notin> set w\<rbrakk> \<Longrightarrow> split_on c (join_with [c] ws) = ws"
  by (induction "[c]" ws rule: join_with.induct) (auto simp: split_on_append_sep)

lemma join_split_on: "join_with [c] (split_on c s) = s"
proof (induction s)
  case (Cons x xs)
  obtain v vs where s: "split_on c xs = v # vs"
    by (cases "split_on c xs") auto
  with Cons show ?case by (cases vs) auto
qed simp

lemma join_with_snoc: "ws \<noteq> [] \<Longrightarrow> join_with sep (ws @ [w]) = join_with sep ws @ sep @ w"
  by (induction sep ws rule: join_with.induct) auto

lemma join_with_append:
  "\<lbrakk>us \<noteq> []; vs \<noteq> []\<rbrakk> \<Longrightarrow> join_with sep (us @ vs) = join_with sep us @ sep @ join_with sep vs"
proof (induction sep us rule: join_with.induct)
  case (2 sep w)
  then show ?case by (cases vs) auto
qed auto

lemma join_with_eq_Nil:
  "\<forall>w\<in>set ws. w \<noteq> [] \<Longrightarrow> join_with sep ws = [] \<longleftrightarrow> ws = []"
  by (induction sep ws rule: join_with.induct) auto

lemma hd_join_with:
  assumes "ws \<noteq> []" "hd ws \<noteq> []"
  shows "hd (join_with sep ws) = hd (hd ws)"
  using assms by (induction sep ws rule: join_with.induct) auto

section \<open>Searching and trimming\<close>

definition starts_with :: "string \<Rightarrow> string \<Rightarrow> bool" where
  "starts_with s p \<longleftrightarrow> take (length p) s = p"

lemma starts_with_iff_prefix: "starts_with s p \<longleftrightarrow> prefix p s"
  by (auto simp: starts_with_def prefix_def) (metis append_take_drop_id)

lemma prefix_or_separator:
  "prefix u v \<and> (length v = length u \<or> (length u < length v \<and> v ! length u = c))
   \<longleftrightarrow> u = v \<or> prefix (u @ [c]) v"
proof
  assume L: "prefix u v \<and> (length v = length u \<or> (length u < length v \<and> v ! length u = c))"
  then obtain t where "v = u @ t" by (auto simp: prefix_def)
  with L show "u = v \<or> prefix (u @ [c]) v" by (cases t) auto
qed (auto simp: prefix_def nth_append)

definition strip_prefix :: "string \<Rightarrow> string \<Rightarrow> string option" where
  "strip_prefix s p = (if starts_with s p then Some (drop (length p) s) else None)"

lemma strip_prefix_append [simp]: "strip_prefix (p @ s) p = Some s"
  by (simp add: strip_prefix_def starts_with_def)

definition trim_start_matches :: "char \<Rightarrow> string \<Rightarrow> string" where
  "trim_start_matches c s = dropWhile (\<lambda>x. x = c) s"

definition trim_end_matches :: "char \<Rightarrow> string \<Rightarrow> string" where
  "trim_end_matches c s = rev (dropWhile (\<lambda>x. x = c) (rev s))"

text \<open>\<open>s.rfind(c)\<close>: the index of the last occurrence.\<close>

fun rfind :: "char \<Rightarrow> string \<Rightarrow> nat option" where
  "rfind c [] = None"
| "rfind c (x # xs) =
     (case rfind c xs of Some i \<Rightarrow> Some (Suc i) | None \<Rightarrow> if x = c then Some 0 else None)"

lemma rfind_None: "rfind c s = None \<longleftrightarrow> c \<notin> set s"
  by (induction s) (auto split: option.splits)

lemma rfind_append_sep: "c \<notin> set t \<Longrightarrow> rfind c (s @ c # t) = Some (length s)"
  by (induction s) (auto simp: rfind_None split: option.splits)

lemma rfind_less: "rfind c s = Some i \<Longrightarrow> i < length s"
  by (induction s arbitrary: i) (auto split: option.splits if_splits)

text \<open>\<open>s.replace(c, t)\<close> for a single character \<open>c\<close>.\<close>

definition replace_char :: "char \<Rightarrow> string \<Rightarrow> string \<Rightarrow> string" where
  "replace_char c t s = concat (map (\<lambda>x. if x = c then t else [x]) s)"

lemma replace_char_simps [simp]:
  "replace_char c t [] = []"
  "replace_char c t (x # s) = (if x = c then t else [x]) @ replace_char c t s"
  by (simp_all add: replace_char_def)

lemma replace_char_id [simp]: "c \<notin> set s \<Longrightarrow> replace_char c t s = s"
  by (induction s) auto

section \<open>Sorting\<close>

text \<open>
  \<open>v.sort_by(cmp)\<close> is stable. The comparators of the sources compare with
  \<open>partial_cmp\<close> of a key, which never answers \<open>Greater\<close> for equal keys; \<open>gt a b\<close>
  is \<open>cmp a b = Greater\<close>. An element is inserted before the first later element that it is
  not greater than, so equal elements keep their order.
\<close>

fun insert_by :: "('a \<Rightarrow> 'a \<Rightarrow> bool) \<Rightarrow> 'a \<Rightarrow> 'a list \<Rightarrow> 'a list" where
  "insert_by gt x [] = [x]"
| "insert_by gt x (y # ys) = (if gt x y then y # insert_by gt x ys else x # y # ys)"

definition sort_by :: "('a \<Rightarrow> 'a \<Rightarrow> bool) \<Rightarrow> 'a list \<Rightarrow> 'a list" where
  "sort_by gt xs = foldr (insert_by gt) xs []"

lemma set_insert_by [simp]: "set (insert_by gt x ys) = insert x (set ys)"
  by (induction ys) auto

lemma distinct_insert_by:
  "distinct (map f (insert_by gt x ys)) \<longleftrightarrow> f x \<notin> f ` set ys \<and> distinct (map f ys)"
  by (induction ys) auto

lemma length_insert_by [simp]: "length (insert_by gt x ys) = Suc (length ys)"
  by (induction ys) auto

lemma sort_by_simps [simp]:
  "sort_by gt [] = []" "sort_by gt (x # xs) = insert_by gt x (sort_by gt xs)"
  by (simp_all add: sort_by_def)

lemma set_sort_by [simp]: "set (sort_by gt xs) = set xs"
  by (induction xs) auto

lemma length_sort_by [simp]: "length (sort_by gt xs) = length xs"
  by (induction xs) auto

lemma distinct_map_sort_by [simp]: "distinct (map f (sort_by gt xs)) = distinct (map f xs)"
  by (induction xs) (auto simp: distinct_insert_by)

lemma sum_list_insert_by:
  "sum_list (map f (insert_by gt x ys)) = (f x :: 'b :: comm_monoid_add) + sum_list (map f ys)"
  by (induction ys) (auto simp: ac_simps)

lemma sum_list_sort_by [simp]:
  "sum_list (map f (sort_by gt xs)) = sum_list (map (f :: _ \<Rightarrow> 'b :: comm_monoid_add) xs)"
  by (induction xs) (auto simp: sum_list_insert_by)

lemma sorted_insert_by:
  fixes key :: "'a \<Rightarrow> 'k :: linorder"
  assumes "sorted (map key ys)"
  shows "sorted (map key (insert_by (\<lambda>a b. key a > key b) x ys))"
  using assms by (induction ys) (auto simp: not_less)

lemma sorted_sort_by:
  fixes key :: "'a \<Rightarrow> 'k :: linorder"
  shows "sorted (map key (sort_by (\<lambda>a b. key a > key b) xs))"
  by (induction xs) (auto intro: sorted_insert_by)

end
