(* ===== verification/Fvfs_Error.thy ===== *)
theory Fvfs_Error
  imports Rust_Std
begin

text \<open>
  \<open>fvfs-core/src/error.rs\<close>: the error type every fallible operation returns, and the
  message each error displays (the WAL stores it in \<open>last_error\<close>, the HTTP API sends it).
  Errors of libraries (\<open>std::io::Error\<close>, \<open>rusqlite::Error\<close>, \<open>serde_json::Error\<close>,
  \<open>anyhow::Error\<close>) are represented by what the code looks at: the kind of an I/O error and the
  text that it displays.
\<close>

datatype io_kind = IoNotFound | IoAlreadyExists | IoNotADirectory | IoIsADirectory | IoOther

datatype io_error = IoError (io_kind_of: io_kind) (io_text: string)

datatype sql_error = ForeignKeyViolation | SqlFailure string

fun sql_text :: "sql_error \<Rightarrow> string" where
  "sql_text ForeignKeyViolation = ''FOREIGN KEY constraint failed''"
| "sql_text (SqlFailure t) = t"

datatype fvfs_error =
    NotFound string
  | AlreadyExists string
  | InvalidPath string
  | Backend string string
  | Metadata sql_error
  | Serde string
  | Io io_error
  | S3Error string
  | Wal string
  | Config string
  | PermissionDenied string
  | NotADirectory string
  | IsADirectory string
  | DirectoryNotEmpty string
  | Other string

type_synonym 'a fvfs_result = "fvfs_error + 'a"

fun display_error :: "fvfs_error \<Rightarrow> string" where
  "display_error (NotFound path) = ''file not found: '' @ path"
| "display_error (AlreadyExists path) = ''path already exists: '' @ path"
| "display_error (InvalidPath m) = ''invalid path: '' @ m"
| "display_error (Backend tier source) = ''storage backend error ('' @ tier @ ''): '' @ source"
| "display_error (Metadata e) = ''metadata store error: '' @ sql_text e"
| "display_error (Serde m) = ''serialization error: '' @ m"
| "display_error (Io e) = ''I/O error: '' @ io_text e"
| "display_error (S3Error m) = ''S3 error: '' @ m"
| "display_error (Wal m) = ''WAL error: '' @ m"
| "display_error (Config m) = ''configuration error: '' @ m"
| "display_error (PermissionDenied m) = ''permission denied: '' @ m"
| "display_error (NotADirectory path) = ''not a directory: '' @ path"
| "display_error (IsADirectory path) = ''is a directory: '' @ path"
| "display_error (DirectoryNotEmpty path) = ''directory not empty: '' @ path"
| "display_error (Other m) = m"

definition is_not_found :: "fvfs_error \<Rightarrow> bool" where
  "is_not_found e = (case e of NotFound _ \<Rightarrow> True | _ \<Rightarrow> False)"

end
