(* ===== verification/Fvfs_Path.thy ===== *)
theory Fvfs_Path
  imports Fvfs_Error "HOL-Library.List_Lexorder" "HOL-Library.Char_ord"
begin

text \<open>
  \<open>FvfsPath\<close> of \<open>fvfs-core/src/types.rs\<close>: normalised absolute paths.

  The code keeps a path as one string and works on it with string operations. The abstract view
  is a list of segments: \<open>segs\<close> reads it off a string, \<open>of_segs\<close> prints it, and
  \<open>normal_path\<close> says that a path is the printed form of proper segments (none empty, none
  \<open>.\<close> or \<open>..\<close>, no separator and no null byte inside). The lemmas show that \<open>new\<close> produces
  exactly the normal paths and that each string operation of the code computes the list operation
  it means.
\<close>

section \<open>The code\<close>

datatype fvfs_path = FvfsPath (as_str: string)

instantiation fvfs_path :: linorder
begin

definition less_eq_fvfs_path :: "fvfs_path \<Rightarrow> fvfs_path \<Rightarrow> bool" where
  "p \<le> q \<longleftrightarrow> as_str p \<le> as_str q"

definition less_fvfs_path :: "fvfs_path \<Rightarrow> fvfs_path \<Rightarrow> bool" where
  "p < q \<longleftrightarrow> as_str p < as_str q"

instance
  by standard (auto simp: less_eq_fvfs_path_def less_fvfs_path_def intro: fvfs_path.expand)

end

abbreviation slash :: char where
  "slash \<equiv> CHR ''/''"

fun normalize_loop :: "string list \<Rightarrow> string list \<Rightarrow> string list fvfs_result" where
  "normalize_loop [] components = Inr components"
| "normalize_loop (part # parts) components =
     (if part = [] \<or> part = ''.'' then normalize_loop parts components
      else if part = ''..'' then normalize_loop parts (butlast components)
      else if CHR 0x00 \<in> set part then Inl (InvalidPath ''path cannot contain null bytes'')
      else normalize_loop parts (components @ [part]))"

definition normalize :: "string \<Rightarrow> string fvfs_result" where
  "normalize s =
     (if s = [] then Inl (InvalidPath ''path cannot be empty'')
      else let s' = (if starts_with s ''/'' then s else ''/'' @ s)
           in case normalize_loop (split_on slash s') [] of
                Inl e \<Rightarrow> Inl e
              | Inr components \<Rightarrow>
                  Inr (if components = [] then ''/'' else ''/'' @ join_with ''/'' components))"

definition path_new :: "string \<Rightarrow> fvfs_path fvfs_result" where
  "path_new raw = (case normalize raw of Inl e \<Rightarrow> Inl e | Inr s \<Rightarrow> Inr (FvfsPath s))"

definition path_parent :: "fvfs_path \<Rightarrow> fvfs_path option" where
  "path_parent p =
     (if as_str p = ''/'' then None
      else case rfind slash (as_str p) of
             None \<Rightarrow> None
           | Some idx \<Rightarrow> if idx = 0 then Some (FvfsPath ''/'')
                         else Some (FvfsPath (take idx (as_str p))))"

definition path_file_name :: "fvfs_path \<Rightarrow> string" where
  "path_file_name p = (if as_str p = ''/'' then ''/'' else last (split_on slash (as_str p)))"

definition is_prefix_of :: "fvfs_path \<Rightarrow> fvfs_path \<Rightarrow> bool" where
  "is_prefix_of p q \<longleftrightarrow>
     (if as_str p = ''/'' then True
      else starts_with (as_str q) (as_str p) \<and>
           (length (as_str q) = length (as_str p) \<or>
            (length (as_str p) < length (as_str q) \<and> as_str q ! length (as_str p) = slash)))"

definition path_join :: "fvfs_path \<Rightarrow> string \<Rightarrow> fvfs_path fvfs_result" where
  "path_join p segment =
     path_new (if as_str p = ''/'' then ''/'' @ segment else as_str p @ ''/'' @ segment)"

abbreviation root_path :: fvfs_path where
  "root_path \<equiv> FvfsPath ''/''"

section \<open>Paths as lists of segments\<close>

definition segs :: "fvfs_path \<Rightarrow> string list" where
  "segs p = filter (\<lambda>w. w \<noteq> []) (split_on slash (as_str p))"

definition of_segs :: "string list \<Rightarrow> fvfs_path" where
  "of_segs ws = FvfsPath (if ws = [] then ''/'' else ''/'' @ join_with ''/'' ws)"

definition proper_seg :: "string \<Rightarrow> bool" where
  "proper_seg w \<longleftrightarrow> w \<noteq> [] \<and> w \<noteq> ''.'' \<and> w \<noteq> ''..'' \<and> slash \<notin> set w \<and> CHR 0x00 \<notin> set w"

definition normal_path :: "fvfs_path \<Rightarrow> bool" where
  "normal_path p \<longleftrightarrow> p = of_segs (segs p) \<and> list_all proper_seg (segs p)"

lemma proper_segD:
  assumes "proper_seg w"
  shows "w \<noteq> []" "w \<noteq> ''.''" "w \<noteq> ''..''" "slash \<notin> set w" "CHR 0x00 \<notin> set w"
  using assms by (simp_all add: proper_seg_def)

lemma segs_of_segs:
  assumes "list_all proper_seg ws"
  shows "segs (of_segs ws) = ws"
proof (cases "ws = []")
  case False
  have sep: "\<forall>w\<in>set ws. slash \<notin> set w" and ne: "\<forall>w\<in>set ws. w \<noteq> []"
    using assms by (auto simp: list_all_iff proper_seg_def)
  have "split_on slash (''/'' @ join_with ''/'' ws) = [] # ws"
    using split_on_join [OF False sep] by simp
  with False ne show ?thesis by (simp add: segs_def of_segs_def)
qed (simp add: segs_def of_segs_def)

lemma normal_of_segs [intro, simp]: "list_all proper_seg ws \<Longrightarrow> normal_path (of_segs ws)"
  by (simp add: normal_path_def segs_of_segs)

lemma normal_path_segs: "normal_path p \<Longrightarrow> of_segs (segs p) = p"
  by (simp add: normal_path_def)

lemma normal_path_proper: "normal_path p \<Longrightarrow> list_all proper_seg (segs p)"
  by (simp add: normal_path_def)

lemma normal_pathE:
  assumes "normal_path p"
  obtains ws where "p = of_segs ws" "list_all proper_seg ws" "segs p = ws"
  using assms by (metis normal_path_def)

lemma segs_inj: "normal_path p \<Longrightarrow> normal_path q \<Longrightarrow> segs p = segs q \<longleftrightarrow> p = q"
  by (metis normal_path_segs)

lemma normal_root [simp]: "normal_path root_path" and segs_root [simp]: "segs root_path = []"
  by (simp_all add: normal_path_def segs_def of_segs_def)

lemma of_segs_root_iff: "list_all proper_seg ws \<Longrightarrow> of_segs ws = root_path \<longleftrightarrow> ws = []"
  using segs_of_segs [of ws] segs_root by (auto simp: of_segs_def)

lemma as_str_of_segs:
  "as_str (of_segs ws) = (if ws = [] then ''/'' else slash # join_with ''/'' ws)"
  by (simp add: of_segs_def)

lemma as_str_root_iff: "normal_path p \<Longrightarrow> as_str p = ''/'' \<longleftrightarrow> segs p = []"
  by (metis fvfs_path.collapse fvfs_path.sel segs_inj normal_root segs_root)

section \<open>Normalisation\<close>

text \<open>The effect of one component, and of a sequence of them, on the segment stack.\<close>

definition apply_part :: "string list \<Rightarrow> string \<Rightarrow> string list" where
  "apply_part cs w =
     (if w = [] \<or> w = ''.'' then cs else if w = ''..'' then butlast cs else cs @ [w])"

lemma normalize_loop_resolve:
  "\<forall>w\<in>set parts. CHR 0x00 \<notin> set w \<Longrightarrow>
   normalize_loop parts cs = Inr (foldl apply_part cs parts)"
  by (induction parts arbitrary: cs) (auto simp: apply_part_def)

lemma normalize_loop_Inr_null:
  "normalize_loop parts cs = Inr ds \<Longrightarrow> \<forall>w\<in>set parts. CHR 0x00 \<notin> set w"
  by (induction parts arbitrary: cs) (auto split: if_splits)

lemma normalize_loop_proper:
  assumes "normalize_loop parts cs = Inr ds" "list_all proper_seg cs"
    and "\<forall>w\<in>set parts. slash \<notin> set w"
  shows "list_all proper_seg ds"
  using assms
proof (induction parts arbitrary: cs)
  case (Cons w ws)
  have "list_all proper_seg (butlast cs)"
    using Cons.prems(2) by (auto simp: list_all_iff dest: in_set_butlastD)
  moreover have "\<lbrakk>w \<noteq> []; w \<noteq> ''.''; w \<noteq> ''..''; CHR 0x00 \<notin> set w\<rbrakk> \<Longrightarrow> proper_seg w"
    using Cons.prems(3) by (simp add: proper_seg_def)
  ultimately show ?case using Cons by (auto split: if_splits)
qed simp

lemma normalize_loop_id:
  "list_all proper_seg ws \<Longrightarrow> normalize_loop ws cs = Inr (cs @ ws)"
  by (induction ws arbitrary: cs) (auto simp: proper_seg_def)

lemma normalize_loop_append:
  "normalize_loop (us @ vs) cs =
     (case normalize_loop us cs of Inl e \<Rightarrow> Inl e | Inr ds \<Rightarrow> normalize_loop vs ds)"
  by (induction us arbitrary: cs) auto

text \<open>\<open>new\<close> resolves the split components onto the empty stack.\<close>

lemma path_new_alt:
  assumes "s \<noteq> []"
  shows "path_new s = (case normalize_loop (split_on slash s) [] of
           Inl e \<Rightarrow> Inl e | Inr cs \<Rightarrow> Inr (of_segs cs))"
proof -
  have "normalize_loop (split_on slash (''/'' @ s)) [] = normalize_loop (split_on slash s) []"
    by simp
  with assms show ?thesis
    by (auto simp: path_new_def normalize_def Let_def of_segs_def split: sum.splits)
qed

lemma path_new_Nil: "path_new [] = Inl (InvalidPath ''path cannot be empty'')"
  by (simp add: path_new_def normalize_def)

lemma path_new_normal: "path_new raw = Inr p \<Longrightarrow> normal_path p"
  by (cases "raw = []")
    (auto simp: path_new_Nil path_new_alt split_on_pieces
          intro!: normal_of_segs elim!: normalize_loop_proper split: sum.splits)

lemma split_on_of_segs:
  assumes "list_all proper_seg ws" "ws \<noteq> []"
  shows "split_on slash (as_str (of_segs ws)) = [] # ws"
proof -
  have "\<forall>w\<in>set ws. slash \<notin> set w" using assms(1) by (auto simp: list_all_iff proper_seg_def)
  with split_on_join [OF assms(2)] show ?thesis using assms(2) by (simp add: of_segs_def)
qed

lemma path_new_as_str: "normal_path p \<Longrightarrow> path_new (as_str p) = Inr p"
proof (erule normal_pathE)
  fix ws assume p: "p = of_segs ws" and ws: "list_all proper_seg ws"
  show "path_new (as_str p) = Inr p"
  proof (cases "ws = []")
    case True
    with p show ?thesis by (simp add: of_segs_def path_new_alt)
  next
    case False
    with p have "as_str p \<noteq> []" by (simp add: of_segs_def)
    moreover have "normalize_loop (split_on slash (as_str p)) [] = Inr ws"
      using ws False p normalize_loop_id [OF ws, of "[]"] by (simp add: split_on_of_segs)
    ultimately show ?thesis using p by (simp add: path_new_alt)
  qed
qed

text \<open>When \<open>new\<close> fails, and what it says.\<close>

lemma normalize_loop_Inl:
  "normalize_loop parts cs = Inl e \<longleftrightarrow>
     e = InvalidPath ''path cannot contain null bytes'' \<and> (\<exists>w\<in>set parts. CHR 0x00 \<in> set w)"
  by (induction parts arbitrary: cs) auto

lemma in_set_split_on: "c \<noteq> d \<Longrightarrow> c \<in> set s \<longleftrightarrow> (\<exists>w\<in>set (split_on d s). c \<in> set w)"
proof (induction s)
  case (Cons x xs)
  obtain v vs where "split_on d xs = v # vs" by (cases "split_on d xs") auto
  with Cons show ?case by auto
qed simp

lemma path_new_Inl_iff:
  "(\<exists>e. path_new s = Inl e) \<longleftrightarrow> s = [] \<or> CHR 0x00 \<in> set s"
proof (cases "s = []")
  case False
  have "(\<exists>e. path_new s = Inl e) \<longleftrightarrow> (\<exists>e. normalize_loop (split_on slash s) [] = Inl e)"
    using False by (auto simp: path_new_alt split: sum.splits)
  also have "\<dots> \<longleftrightarrow> (\<exists>w\<in>set (split_on slash s). CHR 0x00 \<in> set w)"
    by (auto simp: normalize_loop_Inl)
  also have "\<dots> \<longleftrightarrow> CHR 0x00 \<in> set s"
    by (rule in_set_split_on [symmetric]) simp
  finally show ?thesis using False by simp
qed (simp add: path_new_Nil)

section \<open>The string operations compute the list operations\<close>

lemma path_parent_refines:
  assumes "normal_path p"
  shows "path_parent p = (if segs p = [] then None else Some (of_segs (butlast (segs p))))"
proof (rule normal_pathE [OF assms])
  fix ws assume p: "p = of_segs ws" and ws: "list_all proper_seg ws" and s: "segs p = ws"
  show ?thesis
  proof (cases ws rule: rev_cases)
    case Nil
    with p s show ?thesis by (simp add: path_parent_def of_segs_def)
  next
    case (snoc us w)
    from snoc ws have w: "slash \<notin> set w" "w \<noteq> []" and us: "list_all proper_seg us"
      by (auto simp: proper_seg_def)
    have notroot: "as_str p \<noteq> ''/''" using as_str_root_iff [OF assms] s snoc by simp
    show ?thesis
    proof (cases "us = []")
      case True
      with snoc p have "as_str p = [] @ slash # w" by (simp add: of_segs_def)
      then have "rfind slash (as_str p) = Some 0"
        using rfind_append_sep [OF w(1), of "[]"] by simp
      with True snoc s notroot show ?thesis by (simp add: path_parent_def of_segs_def)
    next
      case False
      with snoc p have str: "as_str p = as_str (of_segs us) @ slash # w"
        by (simp add: of_segs_def join_with_snoc)
      then have "rfind slash (as_str p) = Some (length (as_str (of_segs us)))"
        by (simp only: rfind_append_sep [OF w(1)])
      with False snoc s notroot str show ?thesis
        by (simp add: path_parent_def of_segs_def)
    qed
  qed
qed

lemma path_file_name_refines:
  assumes "normal_path p" "segs p \<noteq> []"
  shows "path_file_name p = last (segs p)"
proof (rule normal_pathE [OF assms(1)])
  fix ws assume p: "p = of_segs ws" and ws: "list_all proper_seg ws" and s: "segs p = ws"
  with assms(2) have "split_on slash (as_str p) = [] # ws" by (simp add: split_on_of_segs)
  with assms s show ?thesis by (simp add: path_file_name_def as_str_root_iff)
qed

lemma path_join_refines:
  assumes "normal_path p"
  shows "path_join p w = (case normalize_loop (split_on slash w) (segs p) of
           Inl e \<Rightarrow> Inl e | Inr cs \<Rightarrow> Inr (of_segs cs))"
proof (rule normal_pathE [OF assms])
  fix ws assume p: "p = of_segs ws" and ws: "list_all proper_seg ws" and s: "segs p = ws"
  show ?thesis
  proof (cases "ws = []")
    case True
    with p s show ?thesis by (simp add: path_join_def of_segs_def path_new_alt)
  next
    case False
    have notroot: "as_str p \<noteq> ''/''" using as_str_root_iff [OF assms] s False by simp
    have "split_on slash (as_str p @ ''/'' @ w) = split_on slash (as_str p) @ split_on slash w"
      by (simp add: split_on_append_sep2)
    also have "\<dots> = [] # ws @ split_on slash w"
      using False ws p by (simp add: split_on_of_segs)
    finally have "normalize_loop (split_on slash (as_str p @ ''/'' @ w)) [] =
                  normalize_loop (split_on slash w) ws"
      by (simp add: normalize_loop_append normalize_loop_id [OF ws])
    with notroot s show ?thesis by (simp add: path_join_def path_new_alt)
  qed
qed

corollary path_join_proper:
  assumes "normal_path p" "proper_seg w"
  shows "path_join p w = Inr (of_segs (segs p @ [w]))"
  using assms by (auto simp: path_join_refines proper_seg_def)

lemma path_join_normal: "path_join p w = Inr q \<Longrightarrow> normal_path q"
  by (simp add: path_join_def path_new_normal)

lemma prefix_join_with:
  assumes "\<forall>w\<in>set us. slash \<notin> set w" "\<forall>w\<in>set vs. slash \<notin> set w" "us \<noteq> []"
  shows "(join_with ''/'' us = join_with ''/'' vs \<or> prefix (join_with ''/'' us @ ''/'') (join_with ''/'' vs))
         \<longleftrightarrow> prefix us vs \<or> (vs = [] \<and> us = [[]])"
proof
  assume L: "join_with ''/'' us = join_with ''/'' vs \<or>
             prefix (join_with ''/'' us @ ''/'') (join_with ''/'' vs)"
  show "prefix us vs \<or> (vs = [] \<and> us = [[]])"
  proof (cases "vs = []")
    case True
    with L have "join_with ''/'' us = []" by auto
    with assms(1,3) split_on_join [OF assms(3,1)] True show ?thesis by simp
  next
    case False
    from L show ?thesis
    proof
      assume "join_with ''/'' us = join_with ''/'' vs"
      then have "us = vs"
        using split_on_join [OF assms(3,1)] split_on_join [OF False assms(2)] by metis
      then show ?thesis by simp
    next
      assume "prefix (join_with ''/'' us @ ''/'') (join_with ''/'' vs)"
      then obtain t where "join_with ''/'' vs = join_with ''/'' us @ slash # t"
        by (auto simp: prefix_def)
      then have "vs = us @ split_on slash t"
        using split_on_join [OF assms(3,1)] split_on_join [OF False assms(2)]
        by (metis split_on_append_sep2)
      then show ?thesis by simp
    qed
  qed
next
  assume "prefix us vs \<or> (vs = [] \<and> us = [[]])"
  then show "join_with ''/'' us = join_with ''/'' vs \<or>
             prefix (join_with ''/'' us @ ''/'') (join_with ''/'' vs)"
  proof
    assume "prefix us vs"
    then obtain ts where vs: "vs = us @ ts" by (auto simp: prefix_def)
    show ?thesis
    proof (cases "ts = []")
      case False
      with vs assms(3) have "join_with ''/'' vs = join_with ''/'' us @ ''/'' @ join_with ''/'' ts"
        by (simp add: join_with_append)
      then show ?thesis by (auto simp: prefix_def)
    qed (use vs in simp)
  qed auto
qed

lemma is_prefix_of_refines:
  assumes "normal_path p" "normal_path q"
  shows "is_prefix_of p q \<longleftrightarrow> prefix (segs p) (segs q)"
proof (rule normal_pathE [OF assms(1)], rule normal_pathE [OF assms(2)])
  fix us vs
  assume p: "p = of_segs us" and us: "list_all proper_seg us" and su: "segs p = us"
    and q: "q = of_segs vs" and vs: "list_all proper_seg vs" and sv: "segs q = vs"
  show ?thesis
  proof (cases "us = []")
    case True
    with su as_str_root_iff [OF assms(1)] show ?thesis by (simp add: is_prefix_of_def)
  next
    case False
    with su as_str_root_iff [OF assms(1)] have nr: "as_str p \<noteq> ''/''" by simp
    have sep: "\<forall>w\<in>set us. slash \<notin> set w" "\<forall>w\<in>set vs. slash \<notin> set w" "\<forall>w\<in>set us. w \<noteq> []"
      using us vs by (auto simp: list_all_iff proper_seg_def)
    have ne: "join_with ''/'' us \<noteq> []" using join_with_eq_Nil [OF sep(3)] False by simp
    have "is_prefix_of p q \<longleftrightarrow> as_str p = as_str q \<or> prefix (as_str p @ ''/'') (as_str q)"
      using nr by (simp add: is_prefix_of_def starts_with_iff_prefix prefix_or_separator)
    also have "\<dots> \<longleftrightarrow> join_with ''/'' us = join_with ''/'' vs \<or>
                     prefix (join_with ''/'' us @ ''/'') (join_with ''/'' vs)"
      using False ne p q by (cases "vs = []") (auto simp: of_segs_def)
    also have "\<dots> \<longleftrightarrow> prefix us vs"
      using prefix_join_with [OF sep(1,2) False] sep(3) by auto
    finally show ?thesis using su sv by simp
  qed
qed

text \<open>The parent has one segment less, so walking up ends at the root.\<close>

lemma path_parent_shorter:
  assumes "normal_path p" "path_parent p = Some q"
  shows "normal_path q" "length (segs q) < length (segs p)"
proof -
  have q: "q = of_segs (butlast (segs p))" "segs p \<noteq> []"
    using assms by (auto simp: path_parent_refines split: if_splits)
  have b: "list_all proper_seg (butlast (segs p))"
    using normal_path_proper [OF assms(1)] by (auto simp: list_all_iff dest: in_set_butlastD)
  from q b show "normal_path q" "length (segs q) < length (segs p)"
    by (auto simp: segs_of_segs)
qed

lemma join_child:
  assumes "normal_path p" "proper_seg w"
  shows "\<exists>q. path_join p w = Inr q \<and> segs q = segs p @ [w] \<and> path_parent q = Some p \<and> path_file_name q = w"
proof -
  have ws: "list_all proper_seg (segs p @ [w])" using normal_path_proper [OF assms(1)] assms(2) by simp
  have "split_on slash w = [w]" using assms(2) by (simp add: proper_seg_def)
  then have "path_join p w = Inr (of_segs (segs p @ [w]))"
    using path_join_refines [OF assms(1), of w] normalize_loop_id [of "[w]" "segs p"] assms(2) by simp
  then show ?thesis
    using path_parent_refines [OF normal_of_segs [OF ws]] path_file_name_refines [OF normal_of_segs [OF ws]]
      segs_of_segs [OF ws] normal_path_segs [OF assms(1)] by simp
qed

lemma join_back:
  assumes "normal_path p" "p \<noteq> root_path"
  shows "\<exists>par. path_parent p = Some par \<and> path_join par (path_file_name p) = Inr p"
proof (cases "segs p" rule: rev_cases)
  case Nil
  then show ?thesis using assms segs_inj [of p root_path] by simp
next
  case (snoc us w)
  then have ws: "list_all proper_seg us" "proper_seg w" using normal_path_proper [OF assms(1)] by simp_all
  obtain q where "path_join (of_segs us) w = Inr q" "segs q = us @ [w]"
    using join_child [OF normal_of_segs [OF ws(1)] ws(2)] segs_of_segs [OF ws(1)] by auto
  moreover have "q = p"
    using segs_inj [of q p] path_join_normal calculation assms(1) snoc by metis
  ultimately show ?thesis
    using path_parent_refines [OF assms(1)] path_file_name_refines [OF assms(1)] snoc by simp
qed

section \<open>Properties of the path operations\<close>

text \<open>
  C40: every path that \<open>FvfsPath::new\<close> accepts is in normal form (absolute, no empty, \<open>.\<close> or
  \<open>..\<close> segments, no NUL), and parsing its text again gives the same path.
\<close>

theorem path_new_normal_form:
  assumes "path_new raw = Inr p"
  shows "normal_path p \<and> path_new (as_str p) = Inr p"
  using path_new_normal [OF assms] path_new_as_str by simp

theorem path_new_normal_form_witness:
  "normal_path (FvfsPath ''/a/c'') \<and> path_new (as_str (FvfsPath ''/a/c'')) = Inr (FvfsPath ''/a/c'')"
proof (rule path_new_normal_form)
  show "path_new ''//a/./b/../c/'' = Inr (FvfsPath ''/a/c'')" by code_simp
qed

text \<open>\<open>FvfsPath::new\<close> rejects exactly the empty text and the texts with a NUL byte.\<close>

theorem path_new_rejects:
  "(\<exists>e. path_new s = Inl e) \<longleftrightarrow> s = [] \<or> CHR 0x00 \<in> set s"
  by (rule path_new_Inl_iff)

text \<open>
  Joining a plain name to a path gives a child of it: one segment more, with the path as its
  parent and the name as its file name; and joining the parent and the file name of any path but
  the root gives that path back.
\<close>

theorem join_parent_file_name:
  assumes "normal_path p"
  shows "(proper_seg w \<longrightarrow> (\<exists>q. path_join p w = Inr q \<and> segs q = segs p @ [w] \<and>
           path_parent q = Some p \<and> path_file_name q = w)) \<and>
    (p \<noteq> root_path \<longrightarrow> (\<exists>par. path_parent p = Some par \<and> path_join par (path_file_name p) = Inr p))"
  using join_child [OF assms] join_back [OF assms] by blast

theorem join_parent_file_name_witness:
  "(\<exists>q. path_join (FvfsPath ''/a'') ''b'' = Inr q \<and> segs q = segs (FvfsPath ''/a'') @ [''b''] \<and>
      path_parent q = Some (FvfsPath ''/a'') \<and> path_file_name q = ''b'') \<and>
   (\<exists>par. path_parent (FvfsPath ''/a'') = Some par \<and> path_join par (path_file_name (FvfsPath ''/a'')) = Inr (FvfsPath ''/a''))"
proof -
  have "normal_path (FvfsPath ''/a'')" "proper_seg ''b''" "FvfsPath ''/a'' \<noteq> root_path" by code_simp+
  then show ?thesis using join_parent_file_name [of "FvfsPath ''/a''"] by blast
qed

text \<open>
  \<open>is_prefix_of\<close>, which compares bytes, decides the prefix order on lists of segments, so
  \<open>/a\<close> is no prefix of \<open>/ab\<close>.
\<close>

theorem is_prefix_of_segments:
  assumes "normal_path p" "normal_path q"
  shows "is_prefix_of p q \<longleftrightarrow> prefix (segs p) (segs q)"
  by (rule is_prefix_of_refines [OF assms])

theorem is_prefix_of_segments_witness:
  "is_prefix_of (FvfsPath ''/a'') (FvfsPath ''/a/b'') \<longleftrightarrow> prefix (segs (FvfsPath ''/a'')) (segs (FvfsPath ''/a/b''))"
proof (rule is_prefix_of_segments)
  show "normal_path (FvfsPath ''/a'')" "normal_path (FvfsPath ''/a/b'')" by code_simp+
qed

end
