(* ===== verification/Tiers.thy ===== *)
theory Tiers
  imports Fvfs_Error
begin

text \<open>
  \<open>Tier\<close> and \<open>TierBitmask\<close> of \<open>fvfs-core/src/types.rs\<close>. The bitmask is kept at its
  width (one byte); \<open>tiers_of\<close> is the set of tiers it stands for, and the lemmas show that
  the bit operations are the set operations and touch no other bit.
\<close>

section \<open>The code\<close>

datatype tier = Local | Nas | S3

fun tier_index :: "tier \<Rightarrow> nat" where
  "tier_index Local = 0"
| "tier_index Nas = 1"
| "tier_index S3 = 2"

definition bitmask :: "tier \<Rightarrow> u8" where
  "bitmask t = push_bit (tier_index t) 1"

fun tier_label :: "tier \<Rightarrow> string" where
  "tier_label Local = ''local''"
| "tier_label Nas = ''nas''"
| "tier_label S3 = ''s3''"

datatype tier_bitmask = TierBitmask (as_u8: u8)

definition bm_NONE :: tier_bitmask where
  "bm_NONE = TierBitmask 0"

definition bm_ALL :: tier_bitmask where
  "bm_ALL = TierBitmask 0x07"

definition bm_set :: "tier \<Rightarrow> tier_bitmask \<Rightarrow> tier_bitmask" where
  "bm_set t b = TierBitmask (as_u8 b OR bitmask t)"

definition bm_clear :: "tier \<Rightarrow> tier_bitmask \<Rightarrow> tier_bitmask" where
  "bm_clear t b = TierBitmask (as_u8 b AND NOT (bitmask t))"

definition bm_has :: "tier_bitmask \<Rightarrow> tier \<Rightarrow> bool" where
  "bm_has b t \<longleftrightarrow> as_u8 b AND bitmask t \<noteq> 0"

definition is_fully_replicated :: "tier_bitmask \<Rightarrow> bool" where
  "is_fully_replicated b \<longleftrightarrow> as_u8 b AND 0x07 = 0x07"

fun safe_to_evict_from :: "tier_bitmask \<Rightarrow> tier \<Rightarrow> bool" where
  "safe_to_evict_from b Local = bm_has b S3"
| "safe_to_evict_from b Nas = bm_has b S3"
| "safe_to_evict_from b S3 = False"

definition bm_of_u8 :: "u8 \<Rightarrow> tier_bitmask" where
  "bm_of_u8 v = TierBitmask v"

definition bm_of_i64 :: "i64 \<Rightarrow> tier_bitmask" where
  "bm_of_i64 v = TierBitmask (i64_as_u8 v)"

section \<open>Bits as sets of tiers\<close>

definition tiers_of :: "tier_bitmask \<Rightarrow> tier set" where
  "tiers_of b = {t. bm_has b t}"

lemma bitmask_values [simp]: "bitmask Local = 1" "bitmask Nas = 2" "bitmask S3 = 4"
  by (simp_all add: bitmask_def)

lemma bm_has_bit: "bm_has b t \<longleftrightarrow> bit (as_u8 b) (tier_index t)"
  by (simp add: bm_has_def bitmask_def push_bit_eq_mult and_exp_eq_0_iff_not_bit)

lemma tier_index_inj [simp]: "tier_index t = tier_index u \<longleftrightarrow> t = u"
  by (cases t; cases u) simp_all

lemma tier_index_less [simp]: "tier_index t < 8"
  by (cases t) simp_all

lemma bit_bitmask: "bit (bitmask t) n \<longleftrightarrow> n = tier_index t"
  by (auto simp: bitmask_def bit_simps)

lemma bm_has_set [simp]: "bm_has (bm_set t b) u \<longleftrightarrow> u = t \<or> bm_has b u"
  by (auto simp: bm_has_bit bm_set_def bit_or_iff bit_bitmask)

lemma bm_has_clear [simp]: "bm_has (bm_clear t b) u \<longleftrightarrow> u \<noteq> t \<and> bm_has b u"
  by (auto simp: bm_has_bit bm_clear_def bit_and_iff bit_not_iff bit_bitmask)

lemma bm_has_NONE [simp]: "\<not> bm_has bm_NONE t"
  by (simp add: bm_has_def bm_NONE_def)

lemma bm_has_ALL [simp]: "bm_has bm_ALL t"
  by (cases t) (simp_all add: bm_has_def bm_ALL_def)

lemma tiers_of_set: "tiers_of (bm_set t b) = insert t (tiers_of b)"
  by (auto simp: tiers_of_def)

lemma tiers_of_clear: "tiers_of (bm_clear t b) = tiers_of b - {t}"
  by (auto simp: tiers_of_def)

lemma other_bits_kept:
  assumes "\<And>u. n \<noteq> tier_index u" and "n < 8"
  shows "bit (as_u8 (bm_set t b)) n = bit (as_u8 b) n"
    and "bit (as_u8 (bm_clear t b)) n = bit (as_u8 b) n"
  using assms by (simp_all add: bm_set_def bm_clear_def bit_or_iff bit_and_iff bit_not_iff bit_bitmask)

lemma bit_ALL: "bit (7 :: u8) n \<longleftrightarrow> (\<exists>t. n = tier_index t)"
proof -
  have "(7 :: u8) = bitmask Local OR bitmask Nas OR bitmask S3" by simp
  then have "bit (7 :: u8) n \<longleftrightarrow> n = tier_index Local \<or> n = tier_index Nas \<or> n = tier_index S3"
    by (simp only: bit_or_iff bit_bitmask)
  then show ?thesis by (metis tier.exhaust)
qed

lemma is_fully_replicated_iff: "is_fully_replicated b \<longleftrightarrow> tiers_of b = UNIV"
proof -
  have "is_fully_replicated b \<longleftrightarrow> (\<forall>n. bit (as_u8 b AND 7) n = bit (7 :: u8) n)"
    unfolding is_fully_replicated_def by (metis bit_eqI)
  also have "\<dots> \<longleftrightarrow> (\<forall>n. bit (7 :: u8) n \<longrightarrow> bit (as_u8 b) n)"
    by (auto simp only: bit_and_iff)
  also have "\<dots> \<longleftrightarrow> (\<forall>t. bm_has b t)"
    unfolding bit_ALL bm_has_bit by blast
  finally show ?thesis by (auto simp: tiers_of_def)
qed

lemma bm_of_i64_u8 [simp]: "bm_of_i64 (u8_as_i64 (as_u8 b)) = b"
  by (simp add: bm_of_i64_def)

text \<open>The test \<open>(tier_bitmask & ?1) != 0\<close> that the SQL statements apply to the column.\<close>

lemma sql_tier_test:
  "u8_as_i64 v AND u8_as_i64 (bitmask t) \<noteq> 0 \<longleftrightarrow> bm_has (TierBitmask v) t"
  by (simp only: bm_has_def u8_as_i64_def uint_and [symmetric] uint_0_iff tier_bitmask.sel)

text \<open>
  C39: a bitmask is a set of tiers: \<open>set\<close> adds a tier, \<open>clear\<close> removes one and no other,
  \<open>is_fully_replicated\<close> is the full set, and \<open>safe_to_evict_from\<close> asks for S3 and never
  allows S3 itself.
\<close>

theorem bitmask_is_tier_set:
  "tiers_of bm_NONE = {} \<and> tiers_of (bm_set t b) = insert t (tiers_of b) \<and>
   tiers_of (bm_clear t b) = tiers_of b - {t} \<and> (is_fully_replicated b \<longleftrightarrow> tiers_of b = UNIV) \<and>
   (safe_to_evict_from b t \<longleftrightarrow> t \<noteq> S3 \<and> S3 \<in> tiers_of b)"
  using tiers_of_set tiers_of_clear is_fully_replicated_iff by (cases t) (auto simp: tiers_of_def)

end
