(* ===== verification/Fvfs_Types.thy ===== *)
theory Fvfs_Types
  imports Fvfs_Path Tiers
begin

text \<open>
  The records and enums of \<open>fvfs-core/src/types.rs\<close> that travel between the components:
  file metadata, listing entries, WAL operations and entries, devices and the daemon status.
  \<open>now_unix\<close> reads the clock of the machine, so a constructor that calls it takes the reading
  as its first argument.
\<close>

datatype entry_kind = File | Directory

record file_metadata =
  fm_id :: i64
  fm_path :: fvfs_path
  fm_kind :: entry_kind
  fm_size_bytes :: u64
  fm_sha256 :: string
  fm_tier_bitmask :: tier_bitmask
  fm_created_at :: i64
  fm_modified_at :: i64
  fm_accessed_at :: i64
  fm_access_count_30d :: u32
  fm_mime_type :: "string option"

definition new_file :: "i64 \<Rightarrow> fvfs_path \<Rightarrow> u64 \<Rightarrow> string \<Rightarrow> file_metadata" where
  "new_file now path size_bytes sha256 =
     \<lparr> fm_id = 0, fm_path = path, fm_kind = File, fm_size_bytes = size_bytes, fm_sha256 = sha256,
       fm_tier_bitmask = bm_NONE, fm_created_at = now, fm_modified_at = now, fm_accessed_at = now,
       fm_access_count_30d = 0, fm_mime_type = None \<rparr>"

definition new_dir :: "i64 \<Rightarrow> fvfs_path \<Rightarrow> file_metadata" where
  "new_dir now path =
     \<lparr> fm_id = 0, fm_path = path, fm_kind = Directory, fm_size_bytes = 0, fm_sha256 = [],
       fm_tier_bitmask = bm_ALL, fm_created_at = now, fm_modified_at = now, fm_accessed_at = now,
       fm_access_count_30d = 0, fm_mime_type = Some ''inode/directory'' \<rparr>"

definition is_dir :: "file_metadata \<Rightarrow> bool" where
  "is_dir m \<longleftrightarrow> fm_kind m = Directory"

definition is_file :: "file_metadata \<Rightarrow> bool" where
  "is_file m \<longleftrightarrow> fm_kind m = File"

lemma new_file_sel [simp]:
  "fm_path (new_file now p n h) = p" "fm_kind (new_file now p n h) = File"
  "fm_size_bytes (new_file now p n h) = n" "fm_sha256 (new_file now p n h) = h"
  "fm_tier_bitmask (new_file now p n h) = bm_NONE"
  by (simp_all add: new_file_def)

lemma new_dir_sel [simp]:
  "fm_path (new_dir now p) = p" "fm_kind (new_dir now p) = Directory"
  "fm_tier_bitmask (new_dir now p) = bm_ALL" "fm_mime_type (new_dir now p) = Some ''inode/directory''"
  by (simp_all add: new_dir_def)

record file_entry =
  fe_path :: fvfs_path
  fe_kind :: entry_kind
  fe_size_bytes :: u64
  fe_modified_at :: i64
  fe_tier_bitmask :: tier_bitmask

definition entry_of_metadata :: "file_metadata \<Rightarrow> file_entry" where
  "entry_of_metadata m =
     \<lparr> fe_path = fm_path m, fe_kind = fm_kind m, fe_size_bytes = fm_size_bytes m,
       fe_modified_at = fm_modified_at m, fe_tier_bitmask = fm_tier_bitmask m \<rparr>"

datatype wal_op = ReplicateNas | UploadS3

fun wal_op_as_str :: "wal_op \<Rightarrow> string" where
  "wal_op_as_str ReplicateNas = ''replicate_nas''"
| "wal_op_as_str UploadS3 = ''upload_s3''"

definition wal_op_try_from :: "string \<Rightarrow> wal_op fvfs_result" where
  "wal_op_try_from s =
     (if s = ''replicate_nas'' then Inr ReplicateNas
      else if s = ''upload_s3'' then Inr UploadS3
      else Inl (Wal (''unknown WAL op: '' @ s)))"

lemma wal_op_roundtrip [simp]: "wal_op_try_from (wal_op_as_str op) = Inr op"
  by (cases op) (simp_all add: wal_op_try_from_def)

lemma wal_op_try_from_Inr: "wal_op_try_from s = Inr op \<longleftrightarrow> s = wal_op_as_str op"
  by (cases op) (auto simp: wal_op_try_from_def)

record wal_entry =
  we_id :: i64
  we_file_id :: i64
  we_op :: wal_op
  we_enqueued_at :: i64
  we_attempts :: u32
  we_last_error :: "string option"

record device_info =
  di_id :: i64
  di_name :: string
  di_mdns_name :: string
  di_last_seen_at :: i64
  di_ip :: string

record tier_stats =
  ts_name :: string
  ts_files :: u64
  ts_bytes :: u64

record daemon_status =
  ds_version :: string
  ds_uptime_secs :: u64
  ds_tiers :: "tier_stats list"
  ds_wal_pending :: u64

end
