(* ===== verification/Inode_Table.thy ===== *)
theory Inode_Table
  imports Fvfs_Types
begin

text \<open>
  The inode tables of the two FUSE handlers (\<open>fvfsd/src/fuse_handler.rs\<close>,
  \<open>fvfsc/src/fuse_handler.rs\<close>): two hash maps between inode numbers and paths and a counter. They
  have the same fields; the client's \<open>get_or_alloc\<close> always takes the next number, the daemon's
  takes a hint (the row id plus 10) when it has one. The locale \<open>inode_alloc\<close> is what the kernel
  relies on: a number that was handed out keeps naming the same path. The client's table satisfies
  it; the daemon's does not, because a hint may be a number the counter reaches later.
\<close>

abbreviation ROOT_INO :: u64 where "ROOT_INO \<equiv> 1"

record inode_table =
  ino_to_path :: "u64 \<Rightarrow> fvfs_path option"
  path_to_ino :: "fvfs_path \<Rightarrow> u64 option"
  next_ino :: u64

definition table_new :: inode_table where
  "table_new =
     \<lparr> ino_to_path = [ROOT_INO \<mapsto> root_path], path_to_ino = [root_path \<mapsto> ROOT_INO], next_ino = 2 \<rparr>"

definition table_insert :: "fvfs_path \<Rightarrow> u64 \<Rightarrow> inode_table \<Rightarrow> inode_table" where
  "table_insert path ino t =
     t\<lparr>ino_to_path := (ino_to_path t)(ino \<mapsto> path), path_to_ino := (path_to_ino t)(path \<mapsto> ino)\<rparr>"

text \<open>The client's \<open>get_or_alloc\<close>.\<close>

definition get_or_alloc :: "fvfs_path \<Rightarrow> inode_table \<Rightarrow> u64 \<times> inode_table" where
  "get_or_alloc path t =
     (case path_to_ino t path of
        Some ino \<Rightarrow> (ino, t)
      | None \<Rightarrow> (next_ino t, table_insert path (next_ino t) (t\<lparr>next_ino := next_ino t + 1\<rparr>)))"

text \<open>The daemon's \<open>get_or_alloc\<close>.\<close>

definition get_or_alloc_hint :: "fvfs_path \<Rightarrow> u64 option \<Rightarrow> inode_table \<Rightarrow> u64 \<times> inode_table" where
  "get_or_alloc_hint path hint_id t =
     (case path_to_ino t path of
        Some ino \<Rightarrow> (ino, t)
      | None \<Rightarrow>
          (case hint_id of
             Some ino \<Rightarrow> (ino, table_insert path ino t)
           | None \<Rightarrow> (next_ino t, table_insert path (next_ino t) (t\<lparr>next_ino := next_ino t + 1\<rparr>))))"

definition table_path :: "inode_table \<Rightarrow> u64 \<Rightarrow> fvfs_path option" where
  "table_path t ino = ino_to_path t ino"

definition table_remove :: "fvfs_path \<Rightarrow> inode_table \<Rightarrow> inode_table" where
  "table_remove path t =
     (case path_to_ino t path of
        None \<Rightarrow> t
      | Some ino \<Rightarrow> t\<lparr>path_to_ino := (path_to_ino t)(path := None),
                      ino_to_path := (ino_to_path t)(ino := None)\<rparr>)"

section \<open>The contract\<close>

locale inode_alloc =
  fixes alloc :: "fvfs_path \<Rightarrow> 't \<Rightarrow> u64 \<times> 't"
    and path_of :: "'t \<Rightarrow> u64 \<Rightarrow> fvfs_path option"
    and tinv :: "'t \<Rightarrow> bool"
    and room :: "'t \<Rightarrow> nat"
  assumes alloc_inv: "\<lbrakk>tinv t; 0 < room t; alloc p t = (i, t')\<rbrakk> \<Longrightarrow> tinv t' \<and> room t \<le> Suc (room t')"
    and alloc_names: "\<lbrakk>tinv t; 0 < room t; alloc p t = (i, t')\<rbrakk> \<Longrightarrow> path_of t' i = Some p"
    and alloc_keeps: "\<lbrakk>tinv t; 0 < room t; alloc p t = (i, t'); path_of t j = Some q\<rbrakk> \<Longrightarrow> path_of t' j = Some q"
begin

text \<open>The numbers of the entries of a directory, one after the other.\<close>

fun alloc_all :: "fvfs_path list \<Rightarrow> 't \<Rightarrow> u64 list \<times> 't" where
  "alloc_all [] t = ([], t)"
| "alloc_all (p # ps) t =
     (case alloc p t of (i, t1) \<Rightarrow> case alloc_all ps t1 of (is, t2) \<Rightarrow> (i # is, t2))"

lemma alloc_all_names:
  assumes "alloc_all ps t = (is, t')" "tinv t" "length ps \<le> room t"
  shows "map (path_of t') is = map Some ps" "\<And>j q. path_of t j = Some q \<Longrightarrow> path_of t' j = Some q"
proof -
  have "map (path_of t') is = map Some ps \<and> (\<forall>j q. path_of t j = Some q \<longrightarrow> path_of t' j = Some q)"
    using assms
  proof (induction ps arbitrary: t "is")
    case (Cons p ps)
    obtain i t1 where a: "alloc p t = (i, t1)" by fastforce
    obtain js where rest: "alloc_all ps t1 = (js, t')" "is = i # js"
      using Cons.prems(1) a by (auto split: prod.splits)
    have room: "0 < room t" using Cons.prems(3) by simp
    note t1 = alloc_inv [OF Cons.prems(2) room a] alloc_names [OF Cons.prems(2) room a]
      alloc_keeps [OF Cons.prems(2) room a]
    have "length ps \<le> room t1" using t1(1) Cons.prems(3) by simp
    with Cons.IH [OF rest(1)] t1 rest(2) show ?case by auto
  qed simp
  then show "map (path_of t') is = map Some ps" "\<And>j q. path_of t j = Some q \<Longrightarrow> path_of t' j = Some q"
    by auto
qed

lemma alloc_all_distinct:
  assumes "alloc_all ps t = (is, t')" "tinv t" "length ps \<le> room t" "distinct ps"
  shows "distinct is"
proof -
  have "distinct (map (path_of t') is)"
    using alloc_all_names(1) [OF assms(1-3)] assms(4) by (simp add: distinct_map)
  then show ?thesis by (simp add: distinct_map)
qed

end

section \<open>The client's table\<close>

definition table_ok :: "inode_table \<Rightarrow> bool" where
  "table_ok t \<longleftrightarrow>
     (\<forall>p i. path_to_ino t p = Some i \<longleftrightarrow> ino_to_path t i = Some p) \<and>
     (\<forall>i p. ino_to_path t i = Some p \<longrightarrow> i < next_ino t)"

definition inodes_left :: "inode_table \<Rightarrow> nat" where
  "inodes_left t = 2 ^ 64 - 1 - unat (next_ino t)"

lemma table_new_ok: "table_ok table_new"
  by (auto simp: table_ok_def table_new_def split: if_splits)

lemma next_ino_Suc:
  assumes "0 < inodes_left t"
  shows "next_ino t < next_ino t + 1" "unat (next_ino t + 1) = Suc (unat (next_ino t))"
proof -
  have "unat (next_ino t) + 1 < 2 ^ 64" using assms by (simp add: inodes_left_def)
  then show "unat (next_ino t + 1) = Suc (unat (next_ino t))" by (simp add: unat_word_ariths(1))
  then show "next_ino t < next_ino t + 1" by (simp add: word_less_nat_alt)
qed

lemma get_or_alloc_cases:
  assumes "get_or_alloc p t = (i, t')" "table_ok t"
  obtains (known) "t' = t" "ino_to_path t i = Some p"
  | (fresh) "i = next_ino t" "ino_to_path t i = None" "path_to_ino t p = None"
      "t' = table_insert p i (t\<lparr>next_ino := next_ino t + 1\<rparr>)"
proof (cases "path_to_ino t p")
  case None
  have "ino_to_path t (next_ino t) = None"
    using assms(2) by (metis less_irrefl not_None_eq table_ok_def)
  with None assms(1) fresh show ?thesis by (auto simp: get_or_alloc_def)
next
  case (Some j)
  with assms known show ?thesis by (auto simp: get_or_alloc_def table_ok_def)
qed

interpretation client_inodes: inode_alloc get_or_alloc table_path table_ok inodes_left
proof
  fix t p i t' j q
  assume t: "table_ok t" and left: "0 < inodes_left t" and run: "get_or_alloc p t = (i, t')"
  from run t show inv: "table_ok t' \<and> inodes_left t \<le> Suc (inodes_left t')"
  proof (cases rule: get_or_alloc_cases)
    case fresh
    have "table_ok t'"
      unfolding table_ok_def
    proof (intro conjI allI impI)
      fix p' i'
      show "path_to_ino t' p' = Some i' \<longleftrightarrow> ino_to_path t' i' = Some p'"
      proof -
        have bij: "path_to_ino t q = Some j \<longleftrightarrow> ino_to_path t j = Some q" for q j
          using t by (simp add: table_ok_def)
        have "ino_to_path t i' \<noteq> Some p" using bij [of p i'] fresh(3) by simp
        with fresh bij [of p' i'] show ?thesis
          by (cases "p' = p"; cases "i' = i") (auto simp: table_insert_def)
      qed
      assume "ino_to_path t' i' = Some p'"
      then have "i' \<le> next_ino t" using t fresh by (auto simp: table_ok_def table_insert_def split: if_splits)
      with next_ino_Suc [OF left] show "i' < next_ino t'"
        using fresh by (auto simp: table_insert_def)
    qed
    with fresh next_ino_Suc [OF left] show ?thesis by (simp add: inodes_left_def table_insert_def)
  qed (use t in simp)
  from run t show "table_path t' i = Some p"
    by (cases rule: get_or_alloc_cases) (auto simp: table_path_def table_insert_def)
  from run t show "table_path t j = Some q \<Longrightarrow> table_path t' j = Some q"
    by (cases rule: get_or_alloc_cases) (auto simp: table_path_def table_insert_def)
qed

lemma table_remove_ok: "table_ok t \<Longrightarrow> table_ok (table_remove p t)"
  by (auto simp: table_ok_def table_remove_def split: option.splits if_splits)
    (metis option.inject)+

lemma table_remove_path:
  assumes "table_ok t"
  shows "table_path (table_remove p t) i = (if table_path t i = Some p then None else table_path t i)"
proof -
  have bij: "path_to_ino t q = Some j \<longleftrightarrow> ino_to_path t j = Some q" for q j
    using assms by (simp add: table_ok_def)
  show ?thesis
    using bij [of p i] by (cases "path_to_ino t p") (auto simp: table_remove_def table_path_def)
qed

section \<open>Numbers handed to the kernel\<close>

text \<open>
  C28: the client's table gives different paths different inode numbers, and the numbers go on naming
  those paths.
\<close>

theorem client_inodes_unique:
  assumes "table_ok t" "2 \<le> inodes_left t" "get_or_alloc p t = (i, t1)" "get_or_alloc q t1 = (j, t2)"
  shows "(i = j \<longleftrightarrow> p = q) \<and> table_path t2 i = Some p \<and> table_path t2 j = Some q"
proof -
  have left: "0 < inodes_left t" using assms(2) by simp
  note t1 = client_inodes.alloc_inv [OF assms(1) left assms(3)] client_inodes.alloc_names [OF assms(1) left assms(3)]
  then have t1': "table_ok t1" "0 < inodes_left t1" using assms(2) by auto
  have "table_path t2 j = Some q" "table_path t2 i = Some p"
    using client_inodes.alloc_names [OF t1' assms(4)] client_inodes.alloc_keeps [OF t1' assms(4) t1(2)] by auto
  moreover have "i = j" if "p = q"
  proof -
    have "path_to_ino t1 p = Some i" using t1'(1) t1(2) by (simp add: table_ok_def table_path_def)
    with assms(4) that show ?thesis by (simp add: get_or_alloc_def)
  qed
  ultimately show ?thesis by auto
qed

theorem client_inodes_unique_witness:
  "let (i, t1) = get_or_alloc (FvfsPath ''/a'') table_new; (j, t2) = get_or_alloc (FvfsPath ''/b'') t1
   in i \<noteq> j \<and> table_path t2 i = Some (FvfsPath ''/a'') \<and> table_path t2 j = Some (FvfsPath ''/b'')"
proof -
  obtain i t1 where a: "get_or_alloc (FvfsPath ''/a'') table_new = (i, t1)" by fastforce
  obtain j t2 where b: "get_or_alloc (FvfsPath ''/b'') t1 = (j, t2)" by fastforce
  have "2 \<le> inodes_left table_new" by (simp add: inodes_left_def table_new_def)
  from client_inodes_unique [OF table_new_ok this a b] a b show ?thesis by simp
qed

text \<open>Creating one entry after the other, in the daemon.\<close>

definition alloc_fresh :: "fvfs_path list \<Rightarrow> inode_table \<Rightarrow> inode_table" where
  "alloc_fresh ps t = fold (\<lambda>p t. snd (get_or_alloc_hint p None t)) ps t"

lemma alloc_fresh_snoc: "alloc_fresh (ps @ [p]) t = snd (get_or_alloc_hint p None (alloc_fresh ps t))"
  by (simp add: alloc_fresh_def)

lemma alloc_fresh_run:
  assumes "distinct ps" "\<forall>p\<in>set ps. path_to_ino t p = None"
  shows "next_ino (alloc_fresh ps t) = next_ino t + of_nat (length ps) \<and>
    (\<forall>q. q \<notin> set ps \<longrightarrow> path_to_ino (alloc_fresh ps t) q = path_to_ino t q)"
  using assms
proof (induction ps rule: rev_induct)
  case (snoc p ps)
  let ?t = "alloc_fresh ps t"
  have IH: "next_ino ?t = next_ino t + of_nat (length ps)" "\<And>q. q \<notin> set ps \<Longrightarrow> path_to_ino ?t q = path_to_ino t q"
    using snoc by auto
  then have "path_to_ino ?t p = None" using snoc.prems by simp
  then have "alloc_fresh (ps @ [p]) t = table_insert p (next_ino ?t) (?t\<lparr>next_ino := next_ino ?t + 1\<rparr>)"
    by (simp add: alloc_fresh_snoc get_or_alloc_hint_def)
  with IH show ?case by (simp add: table_insert_def)
qed (simp add: alloc_fresh_def)

text \<open>
  C29: the daemon's table does not: a path whose row has the id 1 is looked up and gets the number 11
  from the hint, and after ten more entries the counter hands out 11 again, so that the kernel's 11
  names another file.
\<close>

theorem daemon_inode_reused:
  "let (ino, t) = get_or_alloc_hint (FvfsPath ''/a'') (Some (1 + 10)) table_new;
       t' = alloc_fresh (map (\<lambda>c. FvfsPath [slash, c]) (''klmnopqrs'' @ ''t'')) t
   in ino = 11 \<and> path_to_ino t' (FvfsPath ''/a'') = Some ino \<and> table_path t' ino = Some (FvfsPath ''/t'')"
proof -
  let ?ps = "map (\<lambda>c. FvfsPath [slash, c]) ''klmnopqrs''"
  obtain t where t: "get_or_alloc_hint (FvfsPath ''/a'') (Some (1 + 10)) table_new = (11, t)" "next_ino t = 2"
    "path_to_ino t (FvfsPath ''/a'') = Some 11" "\<And>q. q \<noteq> root_path \<Longrightarrow> q \<noteq> FvfsPath ''/a'' \<Longrightarrow> path_to_ino t q = None"
    by (simp add: get_or_alloc_hint_def table_new_def table_insert_def)
  let ?u = "alloc_fresh ?ps t"
  have "next_ino ?u = 11 \<and> path_to_ino ?u (FvfsPath ''/t'') = None \<and> path_to_ino ?u (FvfsPath ''/a'') = Some 11"
    using alloc_fresh_run [of ?ps t] t by simp
  then have "alloc_fresh (?ps @ [FvfsPath ''/t'']) t = table_insert (FvfsPath ''/t'') 11 (?u\<lparr>next_ino := 12\<rparr>)"
    "path_to_ino ?u (FvfsPath ''/a'') = Some 11"
    unfolding alloc_fresh_snoc by (simp_all add: get_or_alloc_hint_def)
  then show ?thesis
    unfolding t(1) Let_def prod.case map_append list.map by (simp add: table_insert_def table_path_def)
qed

end
