(* ===== verification/Fuse_Common.thy ===== *)
theory Fuse_Common
  imports Inode_Table
begin

text \<open>
  What the FUSE handlers of the daemon and of the client have in common: the replies, the attributes
  of a file, resolving a name in a directory, the part of a file a \<open>read\<close> returns, the buffer a
  \<open>write\<close> stores, and the loop of \<open>readdir\<close>. The FUSE library is represented by its replies;
  \<open>full\<close> is the answer of \<open>ReplyDirectory::add\<close>, whether an entry no longer fits into the
  buffer of the kernel after the ones already added.
\<close>

section \<open>Replies\<close>

datatype errno = ENOENT | EINVAL | EIO | EISDIR

datatype file_type = DirectoryType | RegularFile

record file_attr =
  fa_ino :: u64
  fa_size :: u64
  fa_blocks :: u64
  fa_atime :: u64
  fa_mtime :: u64
  fa_ctime :: u64
  fa_kind :: file_type
  fa_perm :: nat
  fa_nlink :: u32

record dirent =
  de_ino :: u64
  de_offset :: int
  de_kind :: file_type
  de_name :: string

datatype reply =
    ReplyError errno
  | ReplyEntry file_attr
  | ReplyAttr file_attr
  | ReplyCreated file_attr
  | ReplyData bytes
  | ReplyWritten u32
  | ReplyDirectory "dirent list"
  | ReplyOk
  | Panicked

definition kind_type :: "entry_kind \<Rightarrow> file_type" where
  "kind_type k = (case k of Directory \<Rightarrow> DirectoryType | File \<Rightarrow> RegularFile)"

text \<open>\<open>size.div_ceil(4096)\<close>.\<close>

definition blocks_of :: "u64 \<Rightarrow> u64" where
  "blocks_of n = (if n mod 4096 = 0 then n div 4096 else n div 4096 + 1)"

text \<open>
  \<open>UNIX_EPOCH + Duration::from_secs(t as u64)\<close> panics for a negative \<open>t\<close>: the sum does not fit a
  \<open>SystemTime\<close>.
\<close>

definition meta_to_attr :: "u64 \<Rightarrow> file_metadata \<Rightarrow> file_attr option" where
  "meta_to_attr ino meta =
     (if fm_created_at meta < 0 \<or> fm_modified_at meta < 0 \<or> fm_accessed_at meta < 0 then None
      else Some
     \<lparr> fa_ino = ino, fa_size = fm_size_bytes meta, fa_blocks = blocks_of (fm_size_bytes meta),
       fa_atime = i64_as_u64 (fm_accessed_at meta), fa_mtime = i64_as_u64 (fm_modified_at meta),
       fa_ctime = i64_as_u64 (fm_created_at meta),
       fa_kind = (if is_dir meta then DirectoryType else RegularFile),
       fa_perm = (if is_dir meta then 493 else 420),
       fa_nlink = (if is_dir meta then 2 else 1) \<rparr>)"

definition attr_reply :: "(file_attr \<Rightarrow> reply) \<Rightarrow> u64 \<Rightarrow> file_metadata \<Rightarrow> reply" where
  "attr_reply mk ino meta = (case meta_to_attr ino meta of None \<Rightarrow> Panicked | Some attr \<Rightarrow> mk attr)"

text \<open>The attributes of an entry that was just made, and of the root; \<open>now\<close> is a clock reading.\<close>

definition fresh_attr :: "i64 \<Rightarrow> u64 \<Rightarrow> file_type \<Rightarrow> file_attr" where
  "fresh_attr now ino kind =
     \<lparr> fa_ino = ino, fa_size = 0, fa_blocks = 0, fa_atime = i64_as_u64 now, fa_mtime = i64_as_u64 now,
       fa_ctime = i64_as_u64 now, fa_kind = kind,
       fa_perm = (if kind = DirectoryType then 493 else 420),
       fa_nlink = (if kind = DirectoryType then 2 else 1) \<rparr>"

definition root_attr :: "i64 \<Rightarrow> file_attr" where
  "root_attr now = fresh_attr now ROOT_INO DirectoryType"

section \<open>Names\<close>

text \<open>\<open>OsStr::to_str\<close>: the bytes of a name, when they are UTF-8.\<close>

definition cont_byte :: "nat \<Rightarrow> bool" where
  "cont_byte b \<longleftrightarrow> 0x80 \<le> b \<and> b \<le> 0xBF"

fun valid_utf8 :: "nat list \<Rightarrow> bool" where
  "valid_utf8 [] = True"
| "valid_utf8 (a # s) =
     (if a < 0x80 then valid_utf8 s
      else if 0xC2 \<le> a \<and> a \<le> 0xDF
      then (case s of b # s' \<Rightarrow> cont_byte b \<and> valid_utf8 s' | _ \<Rightarrow> False)
      else if 0xE0 \<le> a \<and> a \<le> 0xEF
      then (case s of b # c # s' \<Rightarrow>
              cont_byte b \<and> (a = 0xE0 \<longrightarrow> 0xA0 \<le> b) \<and> (a = 0xED \<longrightarrow> b \<le> 0x9F) \<and> cont_byte c \<and> valid_utf8 s'
            | _ \<Rightarrow> False)
      else if 0xF0 \<le> a \<and> a \<le> 0xF4
      then (case s of b # c # d # s' \<Rightarrow>
              cont_byte b \<and> (a = 0xF0 \<longrightarrow> 0x90 \<le> b) \<and> (a = 0xF4 \<longrightarrow> b \<le> 0x8F) \<and>
              cont_byte c \<and> cont_byte d \<and> valid_utf8 s'
            | _ \<Rightarrow> False)
      else False)"

definition to_str :: "string \<Rightarrow> string option" where
  "to_str name = (if valid_utf8 (map of_char name) then Some name else None)"

definition child_path :: "inode_table \<Rightarrow> u64 \<Rightarrow> string \<Rightarrow> errno + fvfs_path" where
  "child_path inodes parent name =
     (case table_path inodes parent of
        None \<Rightarrow> Inl ENOENT
      | Some parent_path \<Rightarrow>
          (case to_str name of
             None \<Rightarrow> Inl EINVAL
           | Some name_str \<Rightarrow>
               (case path_join parent_path name_str of
                  Inl e \<Rightarrow> Inl EINVAL
                | Inr p \<Rightarrow> Inr p)))"

section \<open>Bytes\<close>

definition read_slice :: "i64 \<Rightarrow> u32 \<Rightarrow> bytes \<Rightarrow> bytes" where
  "read_slice offset len data =
     (let start = min (unat (i64_as_u64 offset)) (length data);
          stop = min (start + unat len) (length data)
      in take (stop - start) (drop start data))"

text \<open>
  The buffer a \<open>write\<close> stores; \<open>None\<close> is a panic: \<open>offset + data.len()\<close> overflows, or the
  vector would be longer than \<open>isize::MAX\<close> bytes.
\<close>

definition write_splice :: "i64 \<Rightarrow> bytes \<Rightarrow> bytes \<Rightarrow> bytes option" where
  "write_splice offset data existing =
     (let off = unat (i64_as_u64 offset);
          stop = off + length data;
          buf = (if length existing < stop then existing @ replicate (stop - length existing) 0 else existing)
      in if 2 ^ 63 \<le> stop then None else Some (take off buf @ data @ drop stop buf))"

lemma read_slice_eq: "0 \<le> offset \<Longrightarrow> offset < 2 ^ 63 \<Longrightarrow>
  read_slice offset len data = take (unat len) (drop (nat offset) data)"
proof -
  assume "0 \<le> offset" "offset < 2 ^ 63"
  then have "unat (i64_as_u64 offset) = nat offset"
    by (simp add: i64_as_u64_def unsigned_of_int take_bit_int_eq_self)
  then show ?thesis by (simp add: read_slice_def Let_def min_def)
qed

text \<open>The existing bytes a \<open>write\<close> starts from: \<open>read(..).unwrap_or_default()\<close>.\<close>

definition unwrap_or_default :: "'e + bytes \<Rightarrow> bytes" where
  "unwrap_or_default res = (case res of Inr data \<Rightarrow> data | Inl _ \<Rightarrow> [])"

text \<open>The reply to a \<open>read\<close> that failed.\<close>

definition read_error :: "fvfs_error \<Rightarrow> reply" where
  "read_error e =
     (case e of NotFound _ \<Rightarrow> ReplyError ENOENT | IsADirectory _ \<Rightarrow> ReplyError EISDIR | _ \<Rightarrow> ReplyError EIO)"

text \<open>POSIX: the written bytes at their place, the old bytes elsewhere, zeros in a gap.\<close>

definition byte_at :: "bytes \<Rightarrow> nat \<Rightarrow> byte" where
  "byte_at d i = (if i < length d then d ! i else 0)"

lemma write_splice_spec:
  assumes "0 \<le> offset" "offset < 2 ^ 63" "write_splice offset data existing = Some buf"
  shows "length buf = max (length existing) (nat offset + length data)"
    and "byte_at buf i = (if nat offset \<le> i \<and> i < nat offset + length data
           then data ! (i - nat offset) else byte_at existing i)"
proof -
  let ?off = "nat offset"
  have off: "unat (i64_as_u64 offset) = ?off"
    using assms(1,2) by (simp add: i64_as_u64_def unsigned_of_int take_bit_int_eq_self)
  define stop where "stop = ?off + length data"
  define pad where "pad = existing @ replicate (stop - length existing) 0"
  have buf: "buf = (take ?off pad @ data) @ drop stop pad"
    using assms(3) by (auto simp: write_splice_def off Let_def pad_def stop_def split: if_splits)
  have len: "length pad = max (length existing) stop" by (simp add: pad_def)
  have front: "length (take ?off pad @ data) = stop" using len by (simp add: stop_def)
  have "length buf = stop + (length pad - stop)"
    unfolding buf using front by (simp only: length_append length_drop)
  then have len_buf: "length buf = length pad" using len by simp
  then show "length buf = max (length existing) (nat offset + length data)" using len by (simp add: stop_def)
  have pad: "byte_at existing i = byte_at pad i" by (simp add: byte_at_def pad_def nth_append)
  consider "i < ?off" | "?off \<le> i" "i < stop" | "stop \<le> i" by linarith
  then show "byte_at buf i = (if nat offset \<le> i \<and> i < nat offset + length data
           then data ! (i - nat offset) else byte_at existing i)"
  proof cases
    case 1
    then have "i < stop" "i < length pad" using len by (simp_all add: stop_def)
    with 1 have "buf ! i = pad ! i" unfolding buf using front by (simp add: nth_append)
    with 1 pad len_buf show ?thesis by (simp add: byte_at_def)
  next
    case 2
    then have "i < length pad" "length (take ?off pad) = ?off" using len by (simp_all add: stop_def)
    then have "(take ?off pad @ data) ! i = data ! (i - ?off)" using 2 by (simp add: nth_append)
    then have "buf ! i = data ! (i - ?off)"
      unfolding buf by (subst nth_append) (simp only: front 2(2) if_True)
    with 2 \<open>i < length pad\<close> len_buf show ?thesis by (simp add: byte_at_def stop_def)
  next
    case 3
    then have "buf ! i = drop stop pad ! (i - stop)"
      unfolding buf by (subst nth_append) (simp only: front not_less [symmetric] if_False)
    then have "buf ! i = pad ! i" if "i < length pad" using 3 that by simp
    with 3 pad len_buf show ?thesis by (simp add: byte_at_def stop_def)
  qed
qed

lemma write_splice_range:
  assumes "0 \<le> offset" "offset < 2 ^ 63" "write_splice offset data existing = Some buf"
  shows "take (length data) (drop (nat offset) buf) = data"
proof (rule nth_equalityI)
  note spec = write_splice_spec [OF assms]
  show len: "length (take (length data) (drop (nat offset) buf)) = length data" using spec(1) by simp
  fix i assume "i < length (take (length data) (drop (nat offset) buf))"
  then have i: "i < length data" "nat offset + i < length buf" using spec(1) by auto
  with spec(2) [of "nat offset + i"] show "take (length data) (drop (nat offset) buf) ! i = data ! i"
    by (simp add: byte_at_def)
qed

section \<open>Directories\<close>

fun emit_entries ::
    "(fvfs_path \<Rightarrow> inode_table \<Rightarrow> u64 \<times> inode_table) \<Rightarrow> (dirent list \<Rightarrow> dirent \<Rightarrow> bool) \<Rightarrow> int \<Rightarrow> int \<Rightarrow>
     file_entry list \<Rightarrow> dirent list \<Rightarrow> inode_table \<Rightarrow> dirent list \<times> inode_table" where
  "emit_entries alloc full offset idx [] acc t = (acc, t)"
| "emit_entries alloc full offset idx (entry # entries) acc t =
     (if idx < offset then emit_entries alloc full offset (idx + 1) entries acc t
      else case alloc (fe_path entry) t of
             (child_ino, t1) \<Rightarrow>
               let d = \<lparr> de_ino = child_ino, de_offset = idx + 1, de_kind = kind_type (fe_kind entry),
                         de_name = path_file_name (fe_path entry) \<rparr>
               in if full acc d then (acc, t1)
                  else emit_entries alloc full offset (idx + 1) entries (acc @ [d]) t1)"

definition readdir_reply ::
    "(fvfs_path \<Rightarrow> inode_table \<Rightarrow> u64 \<times> inode_table) \<Rightarrow> (dirent list \<Rightarrow> dirent \<Rightarrow> bool) \<Rightarrow> u64 \<Rightarrow> int \<Rightarrow>
     file_entry list \<Rightarrow> inode_table \<Rightarrow> dirent list \<times> inode_table" where
  "readdir_reply alloc full ino offset entries t =
     (let dot = \<lparr> de_ino = ino, de_offset = 1, de_kind = DirectoryType, de_name = ''.'' \<rparr>;
          dotdot = \<lparr> de_ino = ROOT_INO, de_offset = 2, de_kind = DirectoryType, de_name = ''..'' \<rparr>
      in if offset \<le> 0 \<and> full [] dot then ([], t)
         else
           let acc = (if offset \<le> 0 then [dot] else [])
           in if offset \<le> 1 \<and> full acc dotdot then (acc, t)
              else emit_entries alloc full offset 2 entries
                     (if offset \<le> 1 then acc @ [dotdot] else acc) t)"

text \<open>The names of a directory in the order of their offsets.\<close>

definition dir_names :: "file_entry list \<Rightarrow> string list" where
  "dir_names entries = ''.'' # ''..'' # map (\<lambda>e. path_file_name (fe_path e)) entries"

definition numbered :: "dirent list \<Rightarrow> (nat \<times> string) list" where
  "numbered ds = map (\<lambda>d. (nat (de_offset d), de_name d)) ds"

lemma numbered_simps [simp]:
  "numbered [] = []" "numbered (d # ds) = (nat (de_offset d), de_name d) # numbered ds"
  "numbered (xs @ ys) = numbered xs @ numbered ys" "length (numbered ds) = length ds"
  by (simp_all add: numbered_def)

lemma emit_entries_spec:
  assumes "emit_entries alloc full offset idx entries acc t = (ds, t')" "0 \<le> idx"
  shows "\<exists>n. numbered ds = numbered acc @ take n (drop (nat (offset - idx))
           (enumerate (nat idx + 1) (map (\<lambda>e. path_file_name (fe_path e)) entries))) \<and>
         ((\<forall>d. \<not> full acc d) \<longrightarrow> ds = acc \<longrightarrow> int (length entries) \<le> offset - idx \<or> entries = [])"
  using assms
proof (induction entries arbitrary: idx acc t)
  case Nil
  then show ?case by auto
next
  case (Cons e es)
  have names: "enumerate (nat idx + 1) (map (\<lambda>e. path_file_name (fe_path e)) (e # es)) =
      (nat idx + 1, path_file_name (fe_path e)) #
        enumerate (nat (idx + 1) + 1) (map (\<lambda>e. path_file_name (fe_path e)) es)"
    using Cons.prems(2) by (simp add: nat_add_distrib)
  show ?case
  proof (cases "idx < offset")
    case True
    then have skip: "nat (offset - idx) = Suc (nat (offset - (idx + 1)))" by linarith
    from Cons.IH [of "idx + 1" acc t] Cons.prems True show ?thesis
      unfolding names skip by auto
  next
    case False
    then have none: "nat (offset - idx) = 0" "nat (offset - (idx + 1)) = 0" by simp_all
    obtain i t1 where a: "alloc (fe_path e) t = (i, t1)" by fastforce
    let ?d = "\<lparr> de_ino = i, de_offset = idx + 1, de_kind = kind_type (fe_kind e),
                de_name = path_file_name (fe_path e) \<rparr>"
    show ?thesis
    proof (cases "full acc ?d")
      case True
      with Cons.prems False a show ?thesis by (auto simp: Let_def intro!: exI [of _ 0])
    next
      case fits: False
      then have rest: "emit_entries alloc full offset (idx + 1) es (acc @ [?d]) t1 = (ds, t')"
        using Cons.prems False a by (simp add: Let_def)
      from Cons.IH [OF rest] Cons.prems(2) obtain n where
        n: "numbered ds = numbered (acc @ [?d]) @ take n (drop 0
           (enumerate (nat (idx + 1) + 1) (map (\<lambda>e. path_file_name (fe_path e)) es)))"
        unfolding none by auto
      have "length (numbered acc) < length (numbered ds)" unfolding n by simp
      then have "length acc < length ds" by simp
      moreover have "numbered ds = numbered acc @ take (Suc n) (drop (nat (offset - idx))
          (enumerate (nat idx + 1) (map (\<lambda>e. path_file_name (fe_path e)) (e # es))))"
        unfolding names none using n Cons.prems(2) by (simp add: nat_add_distrib)
      ultimately show ?thesis by (intro exI [of _ "Suc n"]) auto
    qed
  qed
qed

text \<open>
  One reply is a piece of the numbered names that starts at the requested offset, and it is not
  empty while names are left.
\<close>

lemma readdir_reply_spec:
  assumes run: "readdir_reply alloc full ino offset entries t = (ds, t')" and pos: "0 \<le> offset"
    and one: "\<And>d. \<not> full [] d"
  shows "\<exists>n. numbered ds = take n (drop (nat offset) (enumerate 1 (dir_names entries))) \<and>
    (ds = [] \<longrightarrow> length (dir_names entries) \<le> nat offset)"
proof -
  let ?names = "map (\<lambda>e. path_file_name (fe_path e)) entries"
  let ?dot = "\<lparr> de_ino = ino, de_offset = 1, de_kind = DirectoryType, de_name = ''.'' \<rparr>"
  let ?dotdot = "\<lparr> de_ino = ROOT_INO, de_offset = 2, de_kind = DirectoryType, de_name = ''..'' \<rparr>"
  have all: "enumerate 1 (dir_names entries) = (1, ''.'') # (2, ''..'') # enumerate 3 ?names"
    by (simp add: dir_names_def numeral_3_eq_3 numeral_2_eq_2)
  consider "offset = 0" | "offset = 1" | "2 \<le> offset" using pos by linarith
  then show ?thesis
  proof cases
    case 1
    show ?thesis
    proof (cases "full [?dot] ?dotdot")
      case True
      with run one 1 have "ds = [?dot]" by (simp add: readdir_reply_def Let_def)
      with all 1 show ?thesis by (intro exI [of _ 1]) simp
    next
      case False
      with run one 1 have "emit_entries alloc full 0 2 entries [?dot, ?dotdot] t = (ds, t')"
        by (simp add: readdir_reply_def Let_def)
      from emit_entries_spec [OF this] obtain n where
        n: "numbered ds = numbered [?dot, ?dotdot] @ take n (enumerate 3 ?names)"
        by (auto simp: numeral_3_eq_3)
      then have "ds \<noteq> []" by auto
      with n all 1 show ?thesis by (intro exI [of _ "Suc (Suc n)"]) simp
    qed
  next
    case 2
    with run one have "emit_entries alloc full 1 2 entries [?dotdot] t = (ds, t')"
      by (simp add: readdir_reply_def Let_def)
    from emit_entries_spec [OF this] obtain n where
      n: "numbered ds = numbered [?dotdot] @ take n (enumerate 3 ?names)"
      by (auto simp: numeral_3_eq_3)
    then have "ds \<noteq> []" by auto
    with n all 2 show ?thesis by (intro exI [of _ "Suc n"]) simp
  next
    case 3
    with run have emit: "emit_entries alloc full offset 2 entries [] t = (ds, t')"
      by (simp add: readdir_reply_def Let_def)
    have drop: "drop (nat offset) (enumerate 1 (dir_names entries)) = drop (nat (offset - 2)) (enumerate 3 ?names)"
    proof -
      have "nat offset = Suc (Suc (nat (offset - 2)))" using 3 by linarith
      then show ?thesis unfolding all by simp
    qed
    from emit_entries_spec [OF emit] one obtain n where
      n: "numbered ds = take n (drop (nat (offset - 2)) (enumerate 3 ?names))"
      and last: "ds = [] \<longrightarrow> int (length entries) \<le> offset - 2 \<or> entries = []"
      by (auto simp: numeral_3_eq_3)
    have "ds = [] \<longrightarrow> length (dir_names entries) \<le> nat offset"
      using last 3 by (auto simp: dir_names_def)
    with n drop show ?thesis by (intro exI [of _ n]) simp
  qed
qed

text \<open>
  The kernel asks again with the offset of the last entry it got until a reply is empty; \<open>fuel\<close>
  bounds the number of calls.
\<close>

fun readdir_pages ::
    "(fvfs_path \<Rightarrow> inode_table \<Rightarrow> u64 \<times> inode_table) \<Rightarrow> (dirent list \<Rightarrow> dirent \<Rightarrow> bool) \<Rightarrow> u64 \<Rightarrow>
     file_entry list \<Rightarrow> nat \<Rightarrow> int \<Rightarrow> inode_table \<Rightarrow> dirent list" where
  "readdir_pages alloc full ino entries 0 offset t = []"
| "readdir_pages alloc full ino entries (Suc fuel) offset t =
     (case readdir_reply alloc full ino offset entries t of
        (ds, t1) \<Rightarrow> if ds = [] then [] else ds @ readdir_pages alloc full ino entries fuel (de_offset (last ds)) t1)"

lemma numbered_last:
  assumes "numbered ds = take n (drop k (enumerate 1 xs))" "ds \<noteq> []"
  shows "nat (de_offset (last ds)) = k + length ds"
proof -
  have len: "length ds = min n (length xs - k)"
    using arg_cong [OF assms(1), of length] by simp
  have "(nat (de_offset (last ds)), de_name (last ds)) = last (numbered ds)"
    using assms(2) by (simp add: numbered_def last_map)
  also have "last (numbered ds) = numbered ds ! (length ds - 1)"
    using assms(2) by (subst last_conv_nth) (auto simp: numbered_def)
  finally have "nat (de_offset (last ds)) = fst (numbered ds ! (length ds - 1))" by (metis fst_conv)
  also have "\<dots> = k + length ds"
    using assms(2) len unfolding assms(1) by (cases ds) (auto simp: nth_enumerate_eq)
  finally show ?thesis .
qed

lemma readdir_pages_complete:
  assumes one: "\<And>d. \<not> full [] d" and "length (dir_names entries) - nat offset < fuel" "0 \<le> offset"
  shows "map de_name (readdir_pages alloc full ino entries fuel offset t) = drop (nat offset) (dir_names entries)"
  using assms(2,3)
proof (induction fuel arbitrary: offset t)
  case (Suc fuel)
  obtain ds t1 where run: "readdir_reply alloc full ino offset entries t = (ds, t1)" by fastforce
  obtain n where n: "numbered ds = take n (drop (nat offset) (enumerate 1 (dir_names entries)))"
    and empty: "ds = [] \<longrightarrow> length (dir_names entries) \<le> nat offset"
    using readdir_reply_spec [OF run Suc.prems(2) one] by blast
  show ?case
  proof (cases "ds = []")
    case True
    with run empty show ?thesis by simp
  next
    case False
    let ?k = "nat offset + length ds"
    have last: "nat (de_offset (last ds)) = ?k" using numbered_last [OF n False] .
    have "map snd (numbered ds) = map de_name ds" by (simp add: numbered_def)
    then have names: "map de_name ds = take n (drop (nat offset) (dir_names entries))"
      using n by (simp add: take_map [symmetric] drop_map [symmetric])
    then have len: "length ds = min n (length (dir_names entries) - nat offset)"
      by (metis length_drop length_map length_take min.commute)
    have "0 < length ds" using False by simp
    then have "length (dir_names entries) - nat (de_offset (last ds)) < fuel" "0 \<le> de_offset (last ds)"
      using last Suc.prems(1) len by linarith+
    from Suc.IH [OF this] have "map de_name (readdir_pages alloc full ino entries fuel (de_offset (last ds)) t1) =
        drop ?k (dir_names entries)" by (simp only: last)
    with run False names len show ?thesis
      by (simp add: min_def split: if_splits) (metis add.commute append_take_drop_id drop_drop)
  qed
qed simp

text \<open>
  C26: the buffer a \<open>write\<close> at an offset stores is what POSIX asks for: the written bytes at their
  place, the old bytes elsewhere, zeros in a gap, and the length grown only as far as needed.
\<close>

theorem splice_is_posix_write:
  assumes "0 \<le> offset" "offset < 2 ^ 63" "write_splice offset data existing = Some buf"
  shows "length buf = max (length existing) (nat offset + length data) \<and>
    (\<forall>i. byte_at buf i = (if nat offset \<le> i \<and> i < nat offset + length data
           then data ! (i - nat offset) else byte_at existing i))"
  using write_splice_spec [OF assms] by blast

theorem splice_is_posix_write_witness:
  "length ([1, 0, 0, 9] :: bytes) = max (length ([1] :: bytes)) (nat 3 + length ([9] :: bytes)) \<and>
   (\<forall>i. byte_at [1, 0, 0, 9] i = (if nat 3 \<le> i \<and> i < nat 3 + length ([9] :: bytes)
      then [9] ! (i - nat 3) else byte_at [1] i))"
proof (rule splice_is_posix_write)
  show "write_splice 3 [9] [1] = Some [1, 0, 0, 9]"
  proof -
    have "unat (i64_as_u64 3) = 3" by (simp add: i64_as_u64_def)
    moreover have "replicate 3 (0 :: byte) = [0, 0, 0]" by (simp add: numeral_3_eq_3)
    ultimately show ?thesis by (simp add: write_splice_def Let_def)
  qed
qed simp_all

text \<open>
  C27: \<open>readdir\<close> in pages: as long as at least one entry fits into a reply, asking again with the
  offset of the last entry ends after at most one call per entry and one more, and has returned every
  name of the directory, after \<open>.\<close> and \<open>..\<close>, exactly once and in order.
\<close>

theorem readdir_pages_all:
  assumes "\<And>d. \<not> full [] d" "length entries + 2 < fuel"
  shows "map de_name (readdir_pages alloc full ino entries fuel 0 t) =
    ''.'' # ''..'' # map (\<lambda>e. path_file_name (fe_path e)) entries"
  using readdir_pages_complete [of full entries 0 fuel alloc ino t] assms by (simp add: dir_names_def)

theorem readdir_pages_all_witness:
  "map de_name (readdir_pages get_or_alloc (\<lambda>acc d. acc \<noteq> []) 1
     [entry_of_metadata (new_dir 0 (FvfsPath ''/a'')), entry_of_metadata (new_dir 0 (FvfsPath ''/b''))] 5 0 table_new) =
   [''.'', ''..'', ''a'', ''b'']"
proof -
  have "path_file_name (FvfsPath ''/a'') = ''a''" "path_file_name (FvfsPath ''/b'') = ''b''" by code_simp+
  then show ?thesis
    using readdir_pages_all [of "\<lambda>acc d. acc \<noteq> []"
        "[entry_of_metadata (new_dir 0 (FvfsPath ''/a'')), entry_of_metadata (new_dir 0 (FvfsPath ''/b''))]" 5]
    by (simp add: entry_of_metadata_def)
qed

end
