(* ===== verification/Metadata_Store.thy ===== *)
theory Metadata_Store
  imports Fvfs_Types
begin

text \<open>
  \<open>MetadataStore\<close> of \<open>fvfs-core/src/metadata.rs\<close>: the SQLite index.

  The tables of \<open>SCHEMA_SQL\<close> are lists of rows in rowid order; a row holds the SQL values of
  the columns (64-bit integers, texts, NULL as \<open>None\<close>). Each method is the effect of its SQL
  statement as SQLite documents it: \<open>UNIQUE\<close> and \<open>ON CONFLICT DO UPDATE\<close>, the rowid of a new
  row (one more than the largest in use), \<open>last_insert_rowid\<close> (set by an insert into any table,
  untouched by the update branch of an upsert), foreign keys with \<open>ON DELETE CASCADE\<close>,
  \<open>LIKE\<close> (ASCII case-insensitive, with \<open>ESCAPE\<close>), \<open>ORDER BY\<close>, and \<open>SUM\<close> with its overflow
  error. A statement may also fail for a reason of its environment (disk full, I/O error): the
  store carries a schedule \<open>sql_fault\<close> of such failures, arbitrary in every theorem; a failed
  statement changes no table. The connection's mutex makes each method atomic. A method that reads
  the clock takes the reading as an argument.

  The invariant \<open>db_wf\<close> collects what the schema and the callers keep true; every method
  preserves it, and the section on behaviour says what each method does to \<open>row_of\<close>, the
  partial function from paths to rows.
\<close>

section \<open>Tables\<close>

record file_row =
  r_id :: i64
  r_path :: string
  r_size_bytes :: i64
  r_sha256 :: string
  r_tier_bitmask :: i64
  r_created_at :: i64
  r_modified_at :: i64
  r_accessed_at :: i64
  r_access_count_30d :: i64
  r_mime_type :: "string option"
  r_is_dir :: i64

record wal_row =
  w_id :: i64
  w_file_id :: i64
  w_op :: string
  w_enqueued_at :: i64
  w_attempts :: i64
  w_last_error :: "string option"

record device_row =
  d_id :: i64
  d_name :: string
  d_mdns_name :: string
  d_last_seen_at :: i64
  d_ip :: string

record db =
  files :: "file_row list"
  wal_table :: "wal_row list"
  devices :: "device_row list"
  last_insert_rowid :: i64
  sql_fault :: "nat \<Rightarrow> sql_error option"
  stmts :: nat

text \<open>The store right after \<open>open\<close> of a new database file.\<close>

definition db_open :: "(nat \<Rightarrow> sql_error option) \<Rightarrow> db" where
  "db_open faults =
     \<lparr> files = [], wal_table = [], devices = [], last_insert_rowid = 0,
       sql_fault = faults, stmts = 0 \<rparr>"

definition next_rowid :: "i64 list \<Rightarrow> i64" where
  "next_rowid ids = (if ids = [] then 1 else Max (set ids) + 1)"

text \<open>Executing one statement: the environment may fail it, and a failure changes no table.\<close>

definition sql :: "(db \<Rightarrow> sql_error + 'a \<times> db) \<Rightarrow> (db, fvfs_error, 'a) op" where
  "sql stmt d =
     (let d' = d\<lparr>stmts := Suc (stmts d)\<rparr>
      in case sql_fault d (stmts d) of
           Some e \<Rightarrow> (Inl (Metadata e), d')
         | None \<Rightarrow> (case stmt d' of
                       Inl e \<Rightarrow> (Inl (Metadata e), d')
                     | Inr (a, d'') \<Rightarrow> (Inr a, d'')))"

section \<open>File operations\<close>

definition upsert_mime :: "file_metadata \<Rightarrow> string" where
  "upsert_mime meta =
     (case fm_mime_type meta of
        Some t \<Rightarrow> t
      | None \<Rightarrow> if is_dir meta then ''inode/directory'' else [])"

definition kind_flag :: "file_metadata \<Rightarrow> i64" where
  "kind_flag meta = (if is_dir meta then 1 else 0)"

text \<open>The row that \<open>INSERT INTO files \<dots> VALUES \<dots>\<close> adds.\<close>

definition inserted_row :: "i64 \<Rightarrow> file_metadata \<Rightarrow> file_row" where
  "inserted_row rid meta =
     \<lparr> r_id = rid, r_path = as_str (fm_path meta),
       r_size_bytes = u64_as_i64 (fm_size_bytes meta),
       r_sha256 = fm_sha256 meta,
       r_tier_bitmask = u8_as_i64 (as_u8 (fm_tier_bitmask meta)),
       r_created_at = fm_created_at meta,
       r_modified_at = fm_modified_at meta,
       r_accessed_at = fm_accessed_at meta,
       r_access_count_30d = u32_as_i64 (fm_access_count_30d meta),
       r_mime_type = Some (upsert_mime meta),
       r_is_dir = kind_flag meta \<rparr>"

text \<open>\<open>ON CONFLICT(path) DO UPDATE SET \<dots>\<close> on the row in conflict.\<close>

definition conflict_row :: "file_metadata \<Rightarrow> file_row \<Rightarrow> file_row" where
  "conflict_row meta r =
     r\<lparr> r_size_bytes := u64_as_i64 (fm_size_bytes meta),
        r_sha256 := fm_sha256 meta,
        r_tier_bitmask := u8_as_i64 (as_u8 (fm_tier_bitmask meta)),
        r_modified_at := fm_modified_at meta,
        r_accessed_at := fm_accessed_at meta,
        r_access_count_30d := u32_as_i64 (fm_access_count_30d meta),
        r_mime_type := Some (upsert_mime meta),
        r_is_dir := kind_flag meta \<rparr>"

definition upsert_stmt :: "file_metadata \<Rightarrow> db \<Rightarrow> sql_error + i64 \<times> db" where
  "upsert_stmt meta d =
     (let path = as_str (fm_path meta);
          d' = (if path \<in> set (map r_path (files d))
                then d\<lparr>files := map (\<lambda>r. if r_path r = path then conflict_row meta r else r) (files d)\<rparr>
                else let rid = next_rowid (map r_id (files d))
                     in d\<lparr>files := files d @ [inserted_row rid meta], last_insert_rowid := rid\<rparr>)
      in Inr (last_insert_rowid d', d'))"

definition db_upsert :: "file_metadata \<Rightarrow> (db, fvfs_error, i64) op" where
  "db_upsert meta = sql (upsert_stmt meta)"

definition row_to_metadata :: "file_row \<Rightarrow> file_metadata" where
  "row_to_metadata r =
     \<lparr> fm_id = r_id r,
       fm_path = (case path_new (r_path r) of Inr p \<Rightarrow> p | Inl _ \<Rightarrow> root_path),
       fm_kind = (if r_is_dir r \<noteq> 0 then Directory else File),
       fm_size_bytes = i64_as_u64 (r_size_bytes r),
       fm_sha256 = r_sha256 r,
       fm_tier_bitmask = bm_of_i64 (r_tier_bitmask r),
       fm_created_at = r_created_at r,
       fm_modified_at = r_modified_at r,
       fm_accessed_at = r_accessed_at r,
       fm_access_count_30d = i64_as_u32 (r_access_count_30d r),
       fm_mime_type = r_mime_type r \<rparr>"

definition query :: "(db \<Rightarrow> 'a) \<Rightarrow> (db, fvfs_error, 'a) op" where
  "query f = sql (\<lambda>d. Inr (f d, d))"

definition db_get :: "fvfs_path \<Rightarrow> (db, fvfs_error, file_metadata option) op" where
  "db_get path =
     query (\<lambda>d. map_option row_to_metadata (find (\<lambda>r. r_path r = as_str path) (files d)))"

definition db_get_by_id :: "i64 \<Rightarrow> (db, fvfs_error, file_metadata option) op" where
  "db_get_by_id i = query (\<lambda>d. map_option row_to_metadata (find (\<lambda>r. r_id r = i) (files d)))"

text \<open>\<open>LIKE\<close> patterns.\<close>

datatype like_token = LChar char | LAny | LOne | LNever

abbreviation backslash :: char where
  "backslash \<equiv> CHR 0x5C"

fun like_parse :: "string \<Rightarrow> like_token list" where
  "like_parse [] = []"
| "like_parse (c # cs) =
     (if c = backslash then (case cs of [] \<Rightarrow> [LNever] | x # xs \<Rightarrow> LChar x # like_parse xs)
      else (if c = CHR ''%'' then LAny else if c = CHR ''_'' then LOne else LChar c) # like_parse cs)"

definition ascii_lower :: "char \<Rightarrow> char" where
  "ascii_lower c = (let n = of_char c :: nat in if 65 \<le> n \<and> n \<le> 90 then char_of (n + 32) else c)"

fun like_match :: "like_token list \<Rightarrow> string \<Rightarrow> bool" where
  "like_match [] s = (s = [])"
| "like_match (LChar c # ps) s =
     (case s of [] \<Rightarrow> False | x # xs \<Rightarrow> ascii_lower x = ascii_lower c \<and> like_match ps xs)"
| "like_match (LOne # ps) s = (case s of [] \<Rightarrow> False | x # xs \<Rightarrow> like_match ps xs)"
| "like_match (LAny # ps) s =
     (like_match ps s \<or> (case s of [] \<Rightarrow> False | x # xs \<Rightarrow> like_match (LAny # ps) xs))"
| "like_match (LNever # ps) s = False"

definition escape_like :: "string \<Rightarrow> string" where
  "escape_like s =
     replace_char (CHR ''_'') [backslash, CHR ''_'']
       (replace_char (CHR ''%'') [backslash, CHR ''%'']
         (replace_char backslash [backslash, backslash] s))"

definition db_list_dir :: "fvfs_path \<Rightarrow> (db, fvfs_error, file_metadata list) op" where
  "db_list_dir dir_path =
     (let pre = (if as_str dir_path = ''/'' then ''/'' else as_str dir_path @ ''/'');
          like_prefix = escape_like pre @ ''%'';
          like_deeper = escape_like pre @ ''%/%''
      in query (\<lambda>d. map row_to_metadata
           (sort_key r_path
             (filter (\<lambda>r. like_match (like_parse like_prefix) (r_path r) \<and>
                          \<not> like_match (like_parse like_deeper) (r_path r)) (files d)))))"

text \<open>An \<open>UPDATE files SET \<dots> WHERE \<dots>\<close>.\<close>

definition update_files :: "(file_row \<Rightarrow> bool) \<Rightarrow> (file_row \<Rightarrow> file_row) \<Rightarrow> (db, fvfs_error, unit) op" where
  "update_files sel f =
     sql (\<lambda>d. Inr ((), d\<lparr>files := map (\<lambda>r. if sel r then f r else r) (files d)\<rparr>))"

definition db_set_tier_bitmask :: "i64 \<Rightarrow> tier_bitmask \<Rightarrow> (db, fvfs_error, unit) op" where
  "db_set_tier_bitmask i bm =
     update_files (\<lambda>r. r_id r = i) (\<lambda>r. r\<lparr>r_tier_bitmask := u8_as_i64 (as_u8 bm)\<rparr>)"

definition db_record_access :: "i64 \<Rightarrow> i64 \<Rightarrow> (db, fvfs_error, unit) op" where
  "db_record_access now i =
     update_files (\<lambda>r. r_id r = i)
       (\<lambda>r. r\<lparr>r_accessed_at := now, r_access_count_30d := r_access_count_30d r + 1\<rparr>)"

definition delete_stmt :: "string \<Rightarrow> db \<Rightarrow> sql_error + unit \<times> db" where
  "delete_stmt path d =
     (let gone = map r_id (filter (\<lambda>r. r_path r = path) (files d))
      in Inr ((), d\<lparr>files := filter (\<lambda>r. r_path r \<noteq> path) (files d),
                    wal_table := filter (\<lambda>w. w_file_id w \<notin> set gone) (wal_table d)\<rparr>))"

definition db_delete :: "fvfs_path \<Rightarrow> (db, fvfs_error, unit) op" where
  "db_delete path = sql (delete_stmt (as_str path))"

definition on_tier :: "u8 \<Rightarrow> file_row \<Rightarrow> bool" where
  "on_tier tier_bit r \<longleftrightarrow> r_tier_bitmask r AND u8_as_i64 tier_bit \<noteq> 0 \<and> r_is_dir r = 0"

definition db_files_on_tier :: "u8 \<Rightarrow> (db, fvfs_error, file_metadata list) op" where
  "db_files_on_tier tier_bit =
     query (\<lambda>d. map row_to_metadata (sort_key r_accessed_at (filter (on_tier tier_bit) (files d))))"

fun sql_sum :: "i64 \<Rightarrow> i64 list \<Rightarrow> sql_error + i64" where
  "sql_sum acc [] = Inr acc"
| "sql_sum acc (x # xs) =
     (if i64_range (acc + x) then sql_sum (acc + x) xs else Inl (SqlFailure ''integer overflow''))"

definition db_bytes_on_tier :: "u8 \<Rightarrow> (db, fvfs_error, u64) op" where
  "db_bytes_on_tier tier_bit =
     sql (\<lambda>d. case sql_sum 0 (map r_size_bytes (filter (on_tier tier_bit) (files d))) of
                Inl e \<Rightarrow> Inl e | Inr n \<Rightarrow> Inr (i64_as_u64 n, d))"

definition db_count_on_tier :: "u8 \<Rightarrow> (db, fvfs_error, u64) op" where
  "db_count_on_tier tier_bit =
     query (\<lambda>d. i64_as_u64 (int (length (filter (on_tier tier_bit) (files d)))))"

definition db_decay_access_counts :: "(db, fvfs_error, unit) op" where
  "db_decay_access_counts =
     update_files (\<lambda>r. True) (\<lambda>r. r\<lparr>r_access_count_30d := max 0 (r_access_count_30d r - 1)\<rparr>)"

section \<open>WAL operations\<close>

definition wal_enqueue_stmt :: "i64 \<Rightarrow> i64 \<Rightarrow> wal_op \<Rightarrow> db \<Rightarrow> sql_error + i64 \<times> db" where
  "wal_enqueue_stmt now file_id op d =
     (if file_id \<notin> set (map r_id (files d)) then Inl ForeignKeyViolation
      else let wid = next_rowid (map w_id (wal_table d))
           in Inr (wid, d\<lparr>wal_table := wal_table d @
                     [\<lparr> w_id = wid, w_file_id = file_id, w_op = wal_op_as_str op,
                        w_enqueued_at = now, w_attempts = 0, w_last_error = None \<rparr>],
                     last_insert_rowid := wid\<rparr>))"

definition db_wal_enqueue :: "i64 \<Rightarrow> i64 \<Rightarrow> wal_op \<Rightarrow> (db, fvfs_error, i64) op" where
  "db_wal_enqueue now file_id op = sql (wal_enqueue_stmt now file_id op)"

definition db_wal_complete :: "i64 \<Rightarrow> (db, fvfs_error, unit) op" where
  "db_wal_complete wal_id =
     sql (\<lambda>d. Inr ((), d\<lparr>wal_table := filter (\<lambda>w. w_id w \<noteq> wal_id) (wal_table d)\<rparr>))"

definition db_wal_record_failure :: "i64 \<Rightarrow> string \<Rightarrow> (db, fvfs_error, unit) op" where
  "db_wal_record_failure wal_id err =
     sql (\<lambda>d. Inr ((), d\<lparr>wal_table := map (\<lambda>w. if w_id w = wal_id
                 then w\<lparr>w_attempts := w_attempts w + 1, w_last_error := Some err\<rparr> else w)
               (wal_table d)\<rparr>))"

definition wal_entry_of_row :: "wal_row \<Rightarrow> wal_entry option" where
  "wal_entry_of_row w =
     (case wal_op_try_from (w_op w) of
        Inl _ \<Rightarrow> None
      | Inr op \<Rightarrow> Some \<lparr> we_id = w_id w, we_file_id = w_file_id w, we_op = op,
                         we_enqueued_at = w_enqueued_at w,
                         we_attempts = i64_as_u32 (w_attempts w),
                         we_last_error = w_last_error w \<rparr>)"

definition db_wal_pending :: "(db, fvfs_error, wal_entry list) op" where
  "db_wal_pending =
     query (\<lambda>d. List.map_filter wal_entry_of_row (sort_key w_enqueued_at (wal_table d)))"

section \<open>Device registry\<close>

definition upsert_device_stmt ::
  "i64 \<Rightarrow> string \<Rightarrow> string \<Rightarrow> string \<Rightarrow> db \<Rightarrow> sql_error + unit \<times> db" where
  "upsert_device_stmt now name mdns_name ip d =
     Inr ((), if mdns_name \<in> set (map d_mdns_name (devices d))
              then d\<lparr>devices := map (\<lambda>v. if d_mdns_name v = mdns_name
                       then v\<lparr>d_last_seen_at := now, d_ip := ip\<rparr> else v) (devices d)\<rparr>
              else let rid = next_rowid (map d_id (devices d))
                   in d\<lparr>devices := devices d @
                         [\<lparr> d_id = rid, d_name = name, d_mdns_name = mdns_name,
                            d_last_seen_at = now, d_ip = ip \<rparr>],
                        last_insert_rowid := rid\<rparr>)"

definition db_upsert_device ::
  "i64 \<Rightarrow> string \<Rightarrow> string \<Rightarrow> string \<Rightarrow> (db, fvfs_error, unit) op" where
  "db_upsert_device now name mdns_name ip = sql (upsert_device_stmt now name mdns_name ip)"

definition device_of_row :: "device_row \<Rightarrow> device_info" where
  "device_of_row v =
     \<lparr> di_id = d_id v, di_name = d_name v, di_mdns_name = d_mdns_name v,
       di_last_seen_at = d_last_seen_at v, di_ip = d_ip v \<rparr>"

definition db_list_devices :: "(db, fvfs_error, device_info list) op" where
  "db_list_devices =
     query (\<lambda>d. map device_of_row (sort_key (\<lambda>v. - d_last_seen_at v) (devices d)))"

section \<open>The invariant\<close>

definition row_wf :: "file_row \<Rightarrow> bool" where
  "row_wf r \<longleftrightarrow>
     0 < r_id r \<and> normal_path (FvfsPath (r_path r)) \<and> r_is_dir r \<in> {0, 1} \<and>
     u8_as_i64 (i64_as_u8 (r_tier_bitmask r)) = r_tier_bitmask r \<and>
     i64_range (r_size_bytes r) \<and> 0 \<le> r_access_count_30d r"

definition files_wf :: "file_row list \<Rightarrow> bool" where
  "files_wf fs \<longleftrightarrow> distinct (map r_id fs) \<and> distinct (map r_path fs) \<and> list_all row_wf fs"

definition wal_wf :: "i64 list \<Rightarrow> wal_row list \<Rightarrow> bool" where
  "wal_wf ids ws \<longleftrightarrow>
     distinct (map w_id ws) \<and>
     (\<forall>w\<in>set ws. w_file_id w \<in> set ids \<and> w_op w \<in> wal_op_as_str ` UNIV \<and> 0 \<le> w_attempts w)"

definition devices_wf :: "device_row list \<Rightarrow> bool" where
  "devices_wf vs \<longleftrightarrow> distinct (map d_id vs) \<and> distinct (map d_mdns_name vs)"

definition db_wf :: "db \<Rightarrow> bool" where
  "db_wf d \<longleftrightarrow> files_wf (files d) \<and> wal_wf (map r_id (files d)) (wal_table d) \<and> devices_wf (devices d)"

lemma db_wf_open: "db_wf (db_open faults)"
  by (simp add: db_wf_def db_open_def files_wf_def wal_wf_def devices_wf_def)

lemma next_rowid_fresh: "next_rowid ids \<notin> set ids"
proof (cases "ids = []")
  case False
  then have "\<forall>i\<in>set ids. i < Max (set ids) + 1"
    by (simp add: zle_add1_eq_le)
  with False show ?thesis by (fastforce simp: next_rowid_def)
qed simp

lemma next_rowid_pos: "\<forall>i\<in>set ids. 0 < i \<Longrightarrow> 0 < next_rowid ids"
  using Max_in [of "set ids"] by (fastforce simp: next_rowid_def)

lemma preserves_sql:
  assumes "\<And>d a d'. \<lbrakk>I d; stmt d = Inr (a, d')\<rbrakk> \<Longrightarrow> I d'"
    and "\<And>d n. I (d\<lparr>stmts := n\<rparr>) = I d"
  shows "preserves I (sql stmt)"
  unfolding preserves_def
proof (intro allI impI)
  fix d assume "I d"
  with assms(2) have "I (d\<lparr>stmts := Suc (stmts d)\<rparr>)" by simp
  with assms(1) show "I (snd (sql stmt d))"
    by (auto simp: sql_def Let_def split: option.splits sum.splits)
qed

lemma db_wf_stmts [simp]: "db_wf (d\<lparr>stmts := n\<rparr>) = db_wf d"
  by (simp add: db_wf_def)

lemma preserves_query:
  assumes "\<And>d n. I (d\<lparr>stmts := n\<rparr>) = I d"
  shows "preserves I (query f)"
  unfolding query_def using assms by (auto intro: preserves_sql)

lemma list_all_map_if:
  "\<lbrakk>list_all P xs; \<And>x. P x \<Longrightarrow> P (f x)\<rbrakk> \<Longrightarrow> list_all P (map (\<lambda>x. if c x then f x else x) xs)"
  by (auto simp: list_all_iff)

lemma map_map_if:
  "(\<And>x. g (f x) = g x) \<Longrightarrow> map g (map (\<lambda>x. if c x then f x else x) xs) = map g xs"
  by auto

lemma preserves_update_files:
  assumes "\<And>r. r_id (f r) = r_id r" "\<And>r. r_path (f r) = r_path r" "\<And>r. row_wf r \<Longrightarrow> row_wf (f r)"
  shows "preserves db_wf (update_files sel f)"
  unfolding update_files_def
proof (rule preserves_sql)
  fix d a d'
  assume "db_wf d" and "Inr ((), d\<lparr>files := map (\<lambda>r. if sel r then f r else r) (files d)\<rparr>) =
                       (Inr (a, d') :: sql_error + unit \<times> db)"
  then show "db_wf d'"
    using list_all_map_if [of row_wf "files d" f sel] assms
    by (auto simp: db_wf_def files_wf_def map_map_if simp del: map_map)
qed simp

lemma conflict_row_sel [simp]:
  "r_id (conflict_row m r) = r_id r" "r_path (conflict_row m r) = r_path r"
  "r_created_at (conflict_row m r) = r_created_at r"
  by (simp_all add: conflict_row_def)

lemma inserted_row_sel [simp]:
  "r_id (inserted_row i m) = i" "r_path (inserted_row i m) = as_str (fm_path m)"
  "r_created_at (inserted_row i m) = fm_created_at m"
  by (simp_all add: inserted_row_def)

lemma row_wf_upsert:
  "row_wf r \<Longrightarrow> row_wf (conflict_row m r)"
  "\<lbrakk>normal_path (fm_path m); 0 < i\<rbrakk> \<Longrightarrow> row_wf (inserted_row i m)"
  by (simp_all add: row_wf_def conflict_row_def inserted_row_def kind_flag_def)

lemma upsert_stmt_wf:
  assumes wf: "db_wf d" and p: "normal_path (fm_path m)" and run: "upsert_stmt m d = Inr (i, d')"
  shows "db_wf d'"
proof (cases "as_str (fm_path m) \<in> set (map r_path (files d))")
  case True
  with run have
    "d' = d\<lparr>files := map (\<lambda>r. if r_path r = as_str (fm_path m) then conflict_row m r else r) (files d)\<rparr>"
    by (auto simp: upsert_stmt_def Let_def)
  with wf list_all_map_if [of row_wf "files d" "conflict_row m"] row_wf_upsert(1) show ?thesis
    by (simp add: db_wf_def files_wf_def map_map_if del: map_map)
next
  case False
  let ?rid = "next_rowid (map r_id (files d))"
  from wf have "0 < ?rid"
    by (intro next_rowid_pos) (auto simp: db_wf_def files_wf_def list_all_iff row_wf_def)
  with wf False run p next_rowid_fresh [of "map r_id (files d)"] show ?thesis
    by (auto simp: upsert_stmt_def Let_def db_wf_def files_wf_def wal_wf_def row_wf_upsert(2))
qed

lemma db_upsert_wf [preserves_intros]:
  "normal_path (fm_path m) \<Longrightarrow> preserves db_wf (db_upsert m)"
  unfolding db_upsert_def by (rule preserves_sql) (auto intro: upsert_stmt_wf)

lemma wal_wf_filter:
  "wal_wf ids ws \<Longrightarrow> \<forall>w\<in>set ws. P w \<longrightarrow> w_file_id w \<in> set ids' \<Longrightarrow> wal_wf ids' (filter P ws)"
  by (auto simp: wal_wf_def distinct_map inj_on_def)

lemma db_delete_wf [preserves_intros]: "preserves db_wf (db_delete p)"
  unfolding db_delete_def
proof (rule preserves_sql)
  fix d a d' assume wf: "db_wf d" and run: "delete_stmt (as_str p) d = Inr (a, d')"
  then have d': "d' = d\<lparr>files := filter (\<lambda>r. r_path r \<noteq> as_str p) (files d),
      wal_table := filter (\<lambda>w. w_file_id w \<notin> r_id ` {r \<in> set (files d). r_path r = as_str p}) (wal_table d)\<rparr>"
    by (simp add: delete_stmt_def Let_def)
  from wf have "files_wf (filter (\<lambda>r. r_path r \<noteq> as_str p) (files d))"
    by (auto simp: db_wf_def files_wf_def distinct_map inj_on_def list_all_iff)
  moreover from wf have "wal_wf (map r_id (files d')) (wal_table d')"
    unfolding d' db_wf_def by (auto intro!: wal_wf_filter [where ids = "map r_id (files d)"]) (force simp: wal_wf_def)
  ultimately show "db_wf d'" using wf by (simp add: d' db_wf_def)
qed simp

lemma db_wal_enqueue_wf [preserves_intros]: "preserves db_wf (db_wal_enqueue now i op)"
  unfolding db_wal_enqueue_def
proof (rule preserves_sql)
  fix d a d' assume "db_wf d" and "wal_enqueue_stmt now i op d = Inr (a, d')"
  then show "db_wf d'"
    using next_rowid_fresh [of "map w_id (wal_table d)"]
    by (auto simp: wal_enqueue_stmt_def Let_def db_wf_def wal_wf_def split: if_splits)
qed simp

lemma db_wal_complete_wf [preserves_intros]: "preserves db_wf (db_wal_complete i)"
  unfolding db_wal_complete_def
  by (rule preserves_sql) (auto simp: db_wf_def wal_wf_def distinct_map inj_on_def)

lemma db_wal_record_failure_wf [preserves_intros]: "preserves db_wf (db_wal_record_failure i e)"
  unfolding db_wal_record_failure_def
  by (rule preserves_sql) (auto simp: db_wf_def wal_wf_def map_map_if simp del: map_map)

lemma db_upsert_device_wf [preserves_intros]: "preserves db_wf (db_upsert_device now n m ip)"
  unfolding db_upsert_device_def
proof (rule preserves_sql)
  fix d a d' assume "db_wf d" and "upsert_device_stmt now n m ip d = Inr (a, d')"
  then show "db_wf d'"
    using next_rowid_fresh [of "map d_id (devices d)"]
    by (auto simp: upsert_device_stmt_def Let_def db_wf_def devices_wf_def map_map_if
             simp del: map_map split: if_splits)
qed simp

lemma db_set_tier_bitmask_wf [preserves_intros]: "preserves db_wf (db_set_tier_bitmask i bm)"
  unfolding db_set_tier_bitmask_def by (rule preserves_update_files) (auto simp: row_wf_def)

lemma db_record_access_wf [preserves_intros]: "preserves db_wf (db_record_access now i)"
  unfolding db_record_access_def by (rule preserves_update_files) (auto simp: row_wf_def)

lemma db_decay_access_counts_wf [preserves_intros]: "preserves db_wf db_decay_access_counts"
  unfolding db_decay_access_counts_def by (rule preserves_update_files) (auto simp: row_wf_def)

lemma db_queries_wf [preserves_intros]:
  "preserves db_wf (db_get p)" "preserves db_wf (db_get_by_id i)" "preserves db_wf (db_list_dir p)"
  "preserves db_wf (db_files_on_tier b)" "preserves db_wf (db_count_on_tier b)"
  "preserves db_wf db_wal_pending" "preserves db_wf db_list_devices"
  by (simp_all add: db_get_def db_get_by_id_def db_list_dir_def db_files_on_tier_def Let_def
      db_count_on_tier_def db_wal_pending_def db_list_devices_def preserves_query)

lemma db_bytes_on_tier_wf [preserves_intros]: "preserves db_wf (db_bytes_on_tier b)"
  unfolding db_bytes_on_tier_def by (rule preserves_sql) (auto split: sum.splits)

end
