(* ===== verification/Metadata_Laws.thy ===== *)
theory Metadata_Laws
  imports Metadata_Store
begin

text \<open>
  What the methods of the metadata store do, as facts about \<open>row_of\<close>, the partial function from
  paths to rows that the \<open>files\<close> table represents. Every fact is about an arbitrary run
  (\<open>op d = (r, d')\<close>): the statement either fails and leaves the tables as they were
  (\<open>same_tables\<close>) or has the stated effect. The last sections treat \<open>LIKE\<close>, directory
  listings and the round trip through a row.
\<close>

section \<open>Rows by path\<close>

definition row_of :: "db \<Rightarrow> fvfs_path \<Rightarrow> file_row option" where
  "row_of d p = find (\<lambda>r. r_path r = as_str p) (files d)"

definition same_tables :: "db \<Rightarrow> db \<Rightarrow> bool" where
  "same_tables d d' \<longleftrightarrow>
     files d' = files d \<and> wal_table d' = wal_table d \<and> devices d' = devices d \<and>
     last_insert_rowid d' = last_insert_rowid d \<and> sql_fault d' = sql_fault d"

definition no_sql_fault :: "db \<Rightarrow> bool" where
  "no_sql_fault d \<longleftrightarrow> (\<forall>n. sql_fault d n = None)"

lemma same_tables_refl [simp]: "same_tables d d"
  by (simp add: same_tables_def)

lemma same_tables_trans: "same_tables a b \<Longrightarrow> same_tables b c \<Longrightarrow> same_tables a c"
  by (simp add: same_tables_def)

lemma same_tables_stmts [simp]: "same_tables d (d\<lparr>stmts := n\<rparr>)"
  by (simp add: same_tables_def)

lemma same_tables_row_of: "same_tables d d' \<Longrightarrow> row_of d' = row_of d"
  by (simp add: same_tables_def row_of_def fun_eq_iff)

lemma same_tables_wf: "same_tables d d' \<Longrightarrow> db_wf d' = db_wf d"
  by (simp add: same_tables_def db_wf_def)

lemma sql_cases:
  assumes "sql stmt d = (r, d')"
  obtains (fault) e where "r = Inl (Metadata e)" "d' = d\<lparr>stmts := Suc (stmts d)\<rparr>"
  | (run) a where "r = Inr a" "stmt (d\<lparr>stmts := Suc (stmts d)\<rparr>) = Inr (a, d')"
  using assms by (auto simp: sql_def Let_def split: option.splits sum.splits)

lemma sql_ok:
  assumes "no_sql_fault d" "stmt (d\<lparr>stmts := Suc (stmts d)\<rparr>) = Inr (a, d')"
  shows "sql stmt d = (Inr a, d')"
  using assms by (simp add: sql_def no_sql_fault_def)

lemma find_map_same:
  "(\<And>x. P (f x) = P x) \<Longrightarrow> find P (map f xs) = map_option f (find P xs)"
  by (induction xs) auto

lemma find_Some_in: "find P xs = Some x \<Longrightarrow> x \<in> set xs \<and> P x"
  by (induction xs) (auto split: if_splits)

lemma find_unique:
  assumes "distinct (map k xs)" "x \<in> set xs"
  shows "find (\<lambda>y. k y = k x) xs = Some x"
  using assms by (induction xs) auto

lemma row_of_SomeD: "row_of d p = Some r \<Longrightarrow> r \<in> set (files d) \<and> r_path r = as_str p"
  unfolding row_of_def by (drule find_Some_in) simp

lemma row_of_in_files:
  "\<lbrakk>db_wf d; r \<in> set (files d)\<rbrakk> \<Longrightarrow> row_of d (FvfsPath (r_path r)) = Some r"
  by (simp add: row_of_def db_wf_def files_wf_def find_unique)

lemma row_of_None_iff: "row_of d p = None \<longleftrightarrow> as_str p \<notin> r_path ` set (files d)"
  by (force simp: row_of_def find_None_iff)

lemma row_of_normal: "\<lbrakk>db_wf d; row_of d p = Some r\<rbrakk> \<Longrightarrow> normal_path p \<and> row_wf r"
  by (auto simp: db_wf_def files_wf_def list_all_iff row_wf_def dest!: row_of_SomeD)

lemma row_of_id_inj:
  assumes "db_wf d" "row_of d p = Some r" "row_of d q = Some s"
  shows "r_id r = r_id s \<longleftrightarrow> p = q"
proof
  assume "r_id r = r_id s"
  moreover have "inj_on r_id (set (files d))"
    using assms(1) by (simp add: db_wf_def files_wf_def distinct_map)
  ultimately have "r = s" using assms(2,3) by (auto dest!: row_of_SomeD inj_onD)
  then show "p = q" using assms(2,3) by (auto dest!: row_of_SomeD intro: fvfs_path.expand)
qed (use assms in simp)

definition row_bm :: "file_row \<Rightarrow> tier_bitmask" where
  "row_bm r = bm_of_i64 (r_tier_bitmask r)"

lemma row_to_metadata_sel [simp]:
  "fm_id (row_to_metadata r) = r_id r"
  "fm_kind (row_to_metadata r) = (if r_is_dir r \<noteq> 0 then Directory else File)"
  "fm_tier_bitmask (row_to_metadata r) = row_bm r"
  "fm_sha256 (row_to_metadata r) = r_sha256 r"
  "fm_size_bytes (row_to_metadata r) = i64_as_u64 (r_size_bytes r)"
  "is_dir (row_to_metadata r) \<longleftrightarrow> r_is_dir r \<noteq> 0"
  by (simp_all add: row_to_metadata_def row_bm_def is_dir_def)

lemma fm_path_row: "row_wf r \<Longrightarrow> fm_path (row_to_metadata r) = FvfsPath (r_path r)"
  using path_new_as_str [of "FvfsPath (r_path r)"]
  by (simp add: row_to_metadata_def row_wf_def)

lemma fm_path_row_of: "\<lbrakk>db_wf d; row_of d p = Some r\<rbrakk> \<Longrightarrow> fm_path (row_to_metadata r) = p"
  using row_of_normal [of d p r] row_of_SomeD [of d p r] by (simp add: fm_path_row)

section \<open>Reading\<close>

lemma query_run:
  assumes "query f d = (r, d')" "\<And>n. f (d\<lparr>stmts := n\<rparr>) = f d"
  shows "same_tables d d' \<and> (\<forall>a. r = Inr a \<longrightarrow> a = f d)"
  using assms(1) unfolding query_def
  by (cases rule: sql_cases) (auto simp: assms(2))

lemma query_same: "(\<And>n. f (d\<lparr>stmts := n\<rparr>) = f d) \<Longrightarrow> query f d = (res, d') \<Longrightarrow> same_tables d d'"
  using query_run by blast

lemma count_same: "db_count_on_tier b d = (res, d') \<Longrightarrow> same_tables d d'"
  unfolding db_count_on_tier_def by (rule query_same [rotated], assumption) simp

lemma pending_same: "db_wal_pending d = (res, d') \<Longrightarrow> same_tables d d'"
  unfolding db_wal_pending_def by (rule query_same [rotated], assumption) simp

lemma devices_same: "db_list_devices d = (res, d') \<Longrightarrow> same_tables d d'"
  unfolding db_list_devices_def by (rule query_same [rotated], assumption) simp

lemma query_ok:
  assumes "no_sql_fault d" "\<And>n. f (d\<lparr>stmts := n\<rparr>) = f d"
  shows "\<exists>d'. query f d = (Inr (f d), d') \<and> same_tables d d'"
  unfolding query_def using assms by (auto intro!: exI sql_ok)

lemma db_get_run:
  assumes "db_get p d = (r, d')"
  shows "same_tables d d'" "r = Inr m \<Longrightarrow> m = map_option row_to_metadata (row_of d p)"
  using query_run [OF assms [unfolded db_get_def]] by (auto simp: row_of_def)

lemma db_get_ok:
  assumes "no_sql_fault d"
  shows "\<exists>d'. db_get p d = (Inr (map_option row_to_metadata (row_of d p)), d') \<and> same_tables d d'"
  unfolding db_get_def row_of_def using assms by (intro query_ok) simp_all

lemma db_get_by_id_run:
  assumes "db_get_by_id i d = (r, d')"
  shows "same_tables d d'"
    "r = Inr m \<Longrightarrow> m = map_option row_to_metadata (find (\<lambda>r. r_id r = i) (files d))"
  using query_run [OF assms [unfolded db_get_by_id_def]] by auto

lemma db_get_by_id_Some:
  assumes "db_wf d" "db_get_by_id i d = (Inr (Some m), d')"
  obtains p r where "row_of d p = Some r" "r_id r = i" "m = row_to_metadata r" "fm_path m = p"
proof -
  have "map_option row_to_metadata (find (\<lambda>r. r_id r = i) (files d)) = Some m"
    using db_get_by_id_run(2) [OF assms(2) refl] by simp
  then obtain r where f: "find (\<lambda>r. r_id r = i) (files d) = Some r" and m: "m = row_to_metadata r"
    by auto
  then have r: "r \<in> set (files d)" "r_id r = i" by (auto dest: find_Some_in)
  have row: "row_of d (FvfsPath (r_path r)) = Some r"
    using assms(1) r(1) by (rule row_of_in_files)
  from that [OF row r(2) m] fm_path_row_of [OF assms(1) row] m show ?thesis by simp
qed

section \<open>Updating\<close>

lemma update_files_run:
  assumes "update_files sel f d = (r, d')" "\<And>x. r_path (f x) = r_path x"
  shows "(r \<noteq> Inr () \<longrightarrow> same_tables d d') \<and>
    (r = Inr () \<longrightarrow> (\<forall>p. row_of d' p = map_option (\<lambda>x. if sel x then f x else x) (row_of d p)) \<and>
       files d' = map (\<lambda>x. if sel x then f x else x) (files d) \<and>
       wal_table d' = wal_table d \<and> devices d' = devices d \<and>
       last_insert_rowid d' = last_insert_rowid d \<and> sql_fault d' = sql_fault d)"
proof -
  have path: "r_path (if sel x then f x else x) = r_path x" for x by (simp add: assms(2))
  show ?thesis
    using assms(1) unfolding update_files_def
    by (cases rule: sql_cases) (auto simp: row_of_def path find_map_same)
qed

lemma update_files_ok:
  assumes "no_sql_fault d"
  shows "\<exists>d'. update_files sel f d = (Inr (), d')"
  unfolding update_files_def using assms by (auto intro!: exI sql_ok)

lemma row_bm_update [simp]: "row_bm (r\<lparr>r_tier_bitmask := u8_as_i64 (as_u8 bm)\<rparr>) = bm"
  by (simp add: row_bm_def)

lemma db_set_tier_bitmask_row_of:
  assumes run: "db_set_tier_bitmask i bm d = (r, d')"
    and wf: "db_wf d" and row: "row_of d p = Some x" and i: "i = r_id x"
  shows "row_of d' q =
    (if r = Inr () \<and> q = p then Some (x\<lparr>r_tier_bitmask := u8_as_i64 (as_u8 bm)\<rparr>) else row_of d q)"
proof (cases "r = Inr ()")
  case True
  have "row_of d' q = map_option (\<lambda>y. if r_id y = i
          then y\<lparr>r_tier_bitmask := u8_as_i64 (as_u8 bm)\<rparr> else y) (row_of d q)"
    using update_files_run [OF run [unfolded db_set_tier_bitmask_def]] True by simp
  with True wf row i show ?thesis
    by (cases "row_of d q") (auto simp: row_of_id_inj)
next
  case False
  then have "same_tables d d'"
    using update_files_run [OF run [unfolded db_set_tier_bitmask_def]] by simp
  with False show ?thesis by (simp add: same_tables_row_of)
qed

text \<open>A read access changes nothing but the access statistics.\<close>

definition same_file :: "file_row \<Rightarrow> file_row \<Rightarrow> bool" where
  "same_file r s \<longleftrightarrow>
     r_id r = r_id s \<and> r_path r = r_path s \<and> r_size_bytes r = r_size_bytes s \<and>
     r_sha256 r = r_sha256 s \<and> r_tier_bitmask r = r_tier_bitmask s \<and> r_is_dir r = r_is_dir s"

lemma db_record_access_row_of:
  assumes "db_record_access now i d = (r, d')"
  shows "rel_option same_file (row_of d p) (row_of d' p)"
proof (cases "r = Inr ()")
  case True
  then have "row_of d' p = map_option (\<lambda>y. if r_id y = i
      then y\<lparr>r_accessed_at := now, r_access_count_30d := r_access_count_30d y + 1\<rparr> else y) (row_of d p)"
    using update_files_run [OF assms [unfolded db_record_access_def]] by simp
  then show ?thesis by (cases "row_of d p") (auto simp: same_file_def)
next
  case False
  then have "same_tables d d'"
    using update_files_run [OF assms [unfolded db_record_access_def]] by simp
  then show ?thesis
    by (cases "row_of d p") (auto simp: same_tables_row_of same_file_def)
qed

lemma find_filter_key:
  "find (\<lambda>r. k r = a) (filter (\<lambda>r. k r \<noteq> b) xs) = (if a = b then None else find (\<lambda>r. k r = a) xs)"
  by (induction xs) auto

lemma db_delete_row_of:
  assumes "db_delete p d = (r, d')"
  shows "row_of d' q = (if r = Inr () \<and> as_str q = as_str p then None else row_of d q)"
  using assms unfolding db_delete_def
proof (cases rule: sql_cases)
  case (run a)
  then have "files d' = filter (\<lambda>r. r_path r \<noteq> as_str p) (files d)"
    by (auto simp: delete_stmt_def Let_def)
  with run show ?thesis by (simp add: row_of_def find_filter_key)
qed (simp add: row_of_def)

lemma wal_ops_row_of:
  "db_wal_enqueue now i op d = (r, d') \<Longrightarrow> row_of d' = row_of d"
  "db_wal_complete i d = (r', d') \<Longrightarrow> row_of d' = row_of d"
  "db_wal_record_failure i e d = (r', d') \<Longrightarrow> row_of d' = row_of d"
  unfolding db_wal_enqueue_def db_wal_complete_def db_wal_record_failure_def
  by (erule sql_cases; auto simp: row_of_def fun_eq_iff wal_enqueue_stmt_def Let_def split: if_splits)+

section \<open>Inserting\<close>

lemma find_append: "find P (xs @ ys) = (case find P xs of None \<Rightarrow> find P ys | Some x \<Rightarrow> Some x)"
  by (induction xs) auto

text \<open>The row an upsert leaves at its path, and the id it reports.\<close>

definition upserted_row :: "db \<Rightarrow> file_metadata \<Rightarrow> file_row" where
  "upserted_row d m =
     (case row_of d (fm_path m) of
        Some old \<Rightarrow> conflict_row m old
      | None \<Rightarrow> inserted_row (next_rowid (map r_id (files d))) m)"

lemma upserted_row_sel [simp]:
  "r_path (upserted_row d m) = as_str (fm_path m)" "row_bm (upserted_row d m) = fm_tier_bitmask m"
  "r_sha256 (upserted_row d m) = fm_sha256 m"
  "r_size_bytes (upserted_row d m) = u64_as_i64 (fm_size_bytes m)"
  "r_is_dir (upserted_row d m) = kind_flag m"
  by (auto simp: upserted_row_def conflict_row_def inserted_row_def row_bm_def
           dest: row_of_SomeD split: option.splits)

lemma upserted_row_id:
  "r_id (upserted_row d m) =
     (case row_of d (fm_path m) of Some old \<Rightarrow> r_id old | None \<Rightarrow> next_rowid (map r_id (files d)))"
  by (simp add: upserted_row_def split: option.splits)

lemma row_to_metadata_upserted:
  assumes "normal_path (fm_path m)"
  shows "row_to_metadata (upserted_row d m) =
    m\<lparr> fm_id := r_id (upserted_row d m), fm_created_at := r_created_at (upserted_row d m),
       fm_mime_type := Some (upsert_mime m) \<rparr>"
proof -
  have "path_new (as_str (fm_path m)) = Inr (fm_path m)" using assms by (rule path_new_as_str)
  then show ?thesis
    by (auto simp: row_to_metadata_def upserted_row_def conflict_row_def inserted_row_def
        kind_flag_def is_dir_def entry_kind.exhaust dest: row_of_SomeD
        intro!: file_metadata.equality split: option.splits if_splits)
      (metis entry_kind.exhaust)+
qed

lemma db_upsert_files:
  assumes "db_upsert m d = (Inr i, d')"
  shows "files d' = (if row_of d (fm_path m) = None then files d @ [upserted_row d m]
           else map (\<lambda>r. if r_path r = as_str (fm_path m) then conflict_row m r else r) (files d))"
    and "i = (if row_of d (fm_path m) = None then next_rowid (map r_id (files d)) else last_insert_rowid d)"
    and "wal_table d' = wal_table d" "devices d' = devices d" "sql_fault d' = sql_fault d"
    and "last_insert_rowid d' = i"
proof -
  have "as_str (fm_path m) \<in> r_path ` set (files d) \<longleftrightarrow> row_of d (fm_path m) \<noteq> None"
    by (simp add: row_of_None_iff)
  then show
    "files d' = (if row_of d (fm_path m) = None then files d @ [upserted_row d m]
       else map (\<lambda>r. if r_path r = as_str (fm_path m) then conflict_row m r else r) (files d))"
    "i = (if row_of d (fm_path m) = None then next_rowid (map r_id (files d)) else last_insert_rowid d)"
    "wal_table d' = wal_table d" "devices d' = devices d" "sql_fault d' = sql_fault d"
    "last_insert_rowid d' = i"
    using assms unfolding db_upsert_def
    by (auto elim!: sql_cases simp: upsert_stmt_def Let_def upserted_row_def split: if_splits)
qed

lemma db_upsert_row_of:
  assumes run: "db_upsert m d = (Inr i, d')"
  shows "row_of d' q = (if q = fm_path m then Some (upserted_row d m) else row_of d q)"
proof (cases "row_of d (fm_path m)")
  case (Some old)
  let ?f = "\<lambda>r. if r_path r = as_str (fm_path m) then conflict_row m r else r"
  have "files d' = map ?f (files d)" using db_upsert_files(1) [OF run] Some by simp
  then have row: "row_of d' q = map_option ?f (row_of d q)"
    unfolding row_of_def by (simp add: find_map_same)
  show ?thesis
  proof (cases "q = fm_path m")
    case True
    with row Some row_of_SomeD [OF Some] show ?thesis by (simp add: upserted_row_def)
  next
    case False
    with row show ?thesis
      by (cases "row_of d q") (auto dest!: row_of_SomeD intro: fvfs_path.expand)
  qed
next
  case None
  have "files d' = files d @ [upserted_row d m]" using db_upsert_files(1) [OF run] None by simp
  then have "row_of d' q = (case row_of d q of
      None \<Rightarrow> if as_str (fm_path m) = as_str q then Some (upserted_row d m) else None
    | Some x \<Rightarrow> Some x)"
    by (simp add: row_of_def find_append split: option.splits)
  with None show ?thesis by (auto intro: fvfs_path.expand split: option.splits)
qed

lemma db_upsert_fail: "db_upsert m d = (Inl e, d') \<Longrightarrow> same_tables d d'"
  unfolding db_upsert_def by (erule sql_cases) auto

text \<open>
  What \<open>upsert\<close> stores, \<open>get\<close> returns, whether the path was there before or not: every field
  but the row id, the creation time and the MIME type, which come from the table. A missing MIME
  type comes back as an empty one.
\<close>

theorem upsert_get:
  assumes "db_upsert m d = (Inr i, d1)" "db_get (fm_path m) d1 = (Inr got, d2)" "normal_path (fm_path m)"
  shows "got = Some (m\<lparr> fm_id := r_id (upserted_row d m), fm_created_at := r_created_at (upserted_row d m),
           fm_mime_type := Some (upsert_mime m) \<rparr>)"
  using db_get_run(2) [OF assms(2) refl] db_upsert_row_of [OF assms(1), of "fm_path m"]
    row_to_metadata_upserted [OF assms(3), of d] by simp

theorem upsert_get_witness:
  "let d = db_open (\<lambda>_. None); m = new_file 5 (FvfsPath ''/a'') 3 ''cafe'' in
   fst (db_get (FvfsPath ''/a'') (snd (db_upsert m d))) =
     Inr (Some (m\<lparr> fm_id := 1, fm_created_at := 5, fm_mime_type := Some [] \<rparr>))"
proof -
  let ?d = "db_open (\<lambda>_. None)" and ?m = "new_file 5 (FvfsPath ''/a'') 3 ''cafe''"
  have up: "db_upsert ?m ?d = (Inr 1, snd (db_upsert ?m ?d))"
    by (rule run_result) code_simp
  have "no_sql_fault (snd (db_upsert ?m ?d))"
    using db_upsert_files(5) [OF up] by (simp add: no_sql_fault_def) (simp add: db_open_def)
  then obtain got d2 where get: "db_get (fm_path ?m) (snd (db_upsert ?m ?d)) = (Inr got, d2)"
    using db_get_ok by blast
  have path: "normal_path (fm_path ?m)" "fm_path ?m = FvfsPath ''/a''" by code_simp+
  have "r_id (upserted_row ?d ?m) = 1" "r_created_at (upserted_row ?d ?m) = 5" "upsert_mime ?m = []" by code_simp+
  with upsert_get [OF up get path(1)] get path(2) show ?thesis by (simp add: Let_def)
qed

end
