(* ===== verification/Directory_Listing.thy ===== *)
theory Directory_Listing
  imports Metadata_Laws
begin

text \<open>
  \<open>MetadataStore::list_dir\<close>: what the two \<open>LIKE\<close> patterns select. \<open>escape_like\<close> makes
  every character of the prefix match itself up to ASCII case, the trailing \<open>%\<close> matches the
  rest, and the second pattern removes the paths with a further separator.
\<close>

lemma escape_like_Cons:
  "escape_like (c # s) =
     (if c \<in> {backslash, CHR ''%'', CHR ''_''} then [backslash, c] else [c]) @ escape_like s"
  by (auto simp: escape_like_def)

lemma like_parse_escape: "like_parse (escape_like s @ t) = map LChar s @ like_parse t"
proof (induction s)
  case Nil
  show ?case by (simp add: escape_like_def)
next
  case (Cons c s)
  then show ?case by (auto simp: escape_like_Cons)
qed

lemma like_match_chars:
  "like_match (map LChar s @ ps) x \<longleftrightarrow>
     (\<exists>u v. x = u @ v \<and> map ascii_lower u = map ascii_lower s \<and> like_match ps v)"
proof (induction s arbitrary: x)
  case (Cons c s)
  show ?case
  proof (cases x)
    case (Cons y ys)
    show ?thesis
    proof
      assume "like_match (map LChar (c # s) @ ps) x"
      with Cons Cons.IH obtain u v where "ys = u @ v" "map ascii_lower u = map ascii_lower s"
        "like_match ps v" "ascii_lower y = ascii_lower c" by auto
      with Cons show "\<exists>u v. x = u @ v \<and> map ascii_lower u = map ascii_lower (c # s) \<and> like_match ps v"
        by (intro exI [of _ "y # u"] exI [of _ v]) simp
    next
      assume "\<exists>u v. x = u @ v \<and> map ascii_lower u = map ascii_lower (c # s) \<and> like_match ps v"
      with Cons Cons.IH show "like_match (map LChar (c # s) @ ps) x"
        by (auto simp: append_eq_Cons_conv) blast
    qed
  qed auto
qed simp

lemma ascii_lower_slash: "ascii_lower c = slash \<longleftrightarrow> c = slash"
proof
  assume L: "ascii_lower c = slash"
  show "c = slash"
  proof (cases "65 \<le> (of_char c :: nat) \<and> (of_char c :: nat) \<le> 90")
    case True
    with L have "char_of ((of_char c :: nat) + 32) = slash" by (simp add: ascii_lower_def Let_def)
    then have "of_char (char_of ((of_char c :: nat) + 32) :: char) = (of_char slash :: nat)" by simp
    with True show ?thesis by simp
  next
    case False
    with L show ?thesis by (simp add: ascii_lower_def Let_def split: if_splits)
  qed
qed (simp add: ascii_lower_def Let_def)

lemma ascii_lower_slash_eq [simp]:
  "ascii_lower c = ascii_lower slash \<longleftrightarrow> c = slash" "ascii_lower slash = ascii_lower c \<longleftrightarrow> c = slash"
  using ascii_lower_slash by metis+

lemma like_match_any [simp]: "like_match [LAny] v"
  by (induction v) simp_all

lemma like_match_slash: "like_match [LAny, LChar slash, LAny] v \<longleftrightarrow> slash \<in> set v"
proof (induction v)
  case (Cons c v)
  have lower: "ascii_lower slash = slash" by (simp add: ascii_lower_slash)
  have "like_match [LAny, LChar slash, LAny] (c # v) \<longleftrightarrow>
        c = slash \<or> like_match [LAny, LChar slash, LAny] v"
    by (subst like_match.simps(4)) (simp add: lower ascii_lower_slash del: like_match.simps(4))
  with Cons show ?case by auto
qed simp

definition dir_prefix :: "fvfs_path \<Rightarrow> string" where
  "dir_prefix p = (if as_str p = ''/'' then ''/'' else as_str p @ ''/'')"

definition listed :: "fvfs_path \<Rightarrow> string \<Rightarrow> bool" where
  "listed p s \<longleftrightarrow> (\<exists>u v. s = u @ v \<and> map ascii_lower u = map ascii_lower (dir_prefix p) \<and> slash \<notin> set v)"

lemma like_listed:
  "like_match (like_parse (escape_like (dir_prefix p) @ ''%'')) s \<and>
   \<not> like_match (like_parse (escape_like (dir_prefix p) @ ''%/%'')) s \<longleftrightarrow> listed p s"
proof -
  let ?cut = "\<lambda>u v. s = u @ v \<and> map ascii_lower u = map ascii_lower (dir_prefix p)"
  have uniq: "?cut u v \<Longrightarrow> ?cut u' v' \<Longrightarrow> v = v'" for u u' v v'
    by (metis append_eq_append_conv length_map)
  have "like_match (like_parse (escape_like (dir_prefix p) @ ''%'')) s \<longleftrightarrow> (\<exists>u v. ?cut u v)"
    by (simp add: like_parse_escape like_match_chars del: like_match.simps)
  moreover have "like_match (like_parse (escape_like (dir_prefix p) @ ''%/%'')) s \<longleftrightarrow>
                 (\<exists>u v. ?cut u v \<and> slash \<in> set v)"
    by (simp add: like_parse_escape like_match_chars like_match_slash del: like_match.simps)
  ultimately show ?thesis using uniq unfolding listed_def by blast
qed

lemma db_list_dir_run:
  assumes "db_list_dir p d = (r, d')"
  shows "same_tables d d'"
    and "r = Inr ms \<Longrightarrow>
         ms = map row_to_metadata (sort_key r_path (filter (\<lambda>x. listed p (r_path x)) (files d)))"
proof -
  let ?f = "\<lambda>d. map row_to_metadata (sort_key r_path (filter (\<lambda>x. listed p (r_path x)) (files d)))"
  have "db_list_dir p = query ?f"
    by (simp add: db_list_dir_def Let_def flip: like_listed dir_prefix_def)
  with assms have "query ?f d = (r, d')" by simp
  from query_run [OF this] show "same_tables d d'" "r = Inr ms \<Longrightarrow> ms = ?f d" by auto
qed

text \<open>Only the last slash separates a prefix that ends in one from a rest without one.\<close>

lemma last_slash_unique:
  assumes "u @ [slash] @ v = u' @ [slash] @ v'" "slash \<notin> set v" "slash \<notin> set v'"
  shows "u = u' \<and> v = v'"
  using assms rfind_append_sep [of slash v u] rfind_append_sep [of slash v' u'] by auto

lemma as_str_nonempty: "normal_path q \<Longrightarrow> as_str q \<noteq> []"
  by (metis as_str_of_segs normal_path_segs list.discI)

lemma map_lower_dir_prefix:
  assumes "normal_path p" "normal_path q"
  shows "map ascii_lower (dir_prefix p) = map ascii_lower (dir_prefix q) \<longleftrightarrow>
         map ascii_lower (as_str p) = map ascii_lower (as_str q)"
  using as_str_nonempty [OF assms(1)] as_str_nonempty [OF assms(2)]
  by (auto simp: dir_prefix_def append_eq_Cons_conv Cons_eq_append_conv)

lemma dir_prefix_ends: "normal_path p \<Longrightarrow> \<exists>u. dir_prefix p = u @ [slash]"
  by (auto simp: dir_prefix_def)

lemma as_str_child:
  assumes "list_all proper_seg us"
  shows "as_str (of_segs (us @ [w])) = dir_prefix (of_segs us) @ w"
proof (cases "us = []")
  case True
  then show ?thesis by (simp add: of_segs_def dir_prefix_def)
next
  case False
  with assms as_str_root_iff [of "of_segs us"] have "as_str (of_segs us) \<noteq> ''/''"
    by (simp add: segs_of_segs)
  with False show ?thesis by (simp add: of_segs_def dir_prefix_def join_with_snoc)
qed

lemma listed_child:
  assumes p: "normal_path p" and us: "list_all proper_seg us" and w: "slash \<notin> set w"
  shows "listed p (as_str (of_segs (us @ [w]))) \<longleftrightarrow>
         map ascii_lower (as_str (of_segs us)) = map ascii_lower (as_str p)"
proof -
  let ?pre = "dir_prefix (of_segs us)"
  have "listed p (?pre @ w) \<longleftrightarrow> map ascii_lower ?pre = map ascii_lower (dir_prefix p)"
  proof
    assume "listed p (?pre @ w)"
    then obtain u v where uv: "?pre @ w = u @ v" "slash \<notin> set v"
        and low: "map ascii_lower u = map ascii_lower (dir_prefix p)"
      by (auto simp: listed_def)
    obtain x where x: "dir_prefix p = x @ [slash]" using dir_prefix_ends [OF p] by blast
    with low obtain y where y: "u = y @ [slash]"
      by (cases u rule: rev_cases) auto
    obtain z where z: "?pre = z @ [slash]" using dir_prefix_ends us by blast
    have "z = y" using last_slash_unique [of z w y v] uv w y z by simp
    with low y z show "map ascii_lower ?pre = map ascii_lower (dir_prefix p)" by simp
  next
    assume "map ascii_lower ?pre = map ascii_lower (dir_prefix p)"
    with w show "listed p (?pre @ w)" unfolding listed_def by blast
  qed
  also have "\<dots> \<longleftrightarrow> map ascii_lower (as_str (of_segs us)) = map ascii_lower (as_str p)"
    using map_lower_dir_prefix [of "of_segs us" p] us p by simp
  finally show ?thesis by (simp add: as_str_child [OF us])
qed

lemma listed_root:
  assumes "normal_path p"
  shows "listed p ''/'' \<longleftrightarrow> p = root_path"
proof
  assume "listed p ''/''"
  then obtain u v where uv: "''/'' = u @ v" "map ascii_lower u = map ascii_lower (dir_prefix p)"
    by (auto simp: listed_def)
  then have "length (dir_prefix p) \<le> 1" by (metis length_append length_map le_add1 length_Cons list.size(3) One_nat_def)
  with as_str_nonempty [OF assms] have "as_str p = ''/''"
    by (auto simp: dir_prefix_def split: if_splits)
  then show "p = root_path" by (metis fvfs_path.collapse)
next
  assume "p = root_path"
  then show "listed p ''/''" unfolding listed_def
    by (intro exI [of _ "''/''"] exI [of _ "[]"]) (simp add: dir_prefix_def)
qed

text \<open>
  A listing holds the rows whose parent is the directory up to the case of ASCII letters,
  and for the root directory also the row of the root itself.
\<close>

lemma listed_iff_child:
  assumes p: "normal_path p" and q: "normal_path q"
  shows "listed p (as_str q) \<longleftrightarrow>
    (\<exists>par. path_parent q = Some par \<and> map ascii_lower (as_str par) = map ascii_lower (as_str p))
    \<or> (p = root_path \<and> q = root_path)"
proof (cases "segs q" rule: rev_cases)
  case Nil
  then have root: "q = root_path" using q segs_inj [of q root_path] by simp
  then have "path_parent q = None" by (simp add: path_parent_def)
  with root listed_root [OF p] show ?thesis by simp
next
  case (snoc us w)
  have ps: "list_all proper_seg (us @ [w])" using normal_path_proper [OF q] snoc by simp
  then have "q \<noteq> root_path" using snoc by auto
  moreover have "path_parent q = Some (of_segs us)" using path_parent_refines [OF q] snoc by simp
  moreover have "q = of_segs (us @ [w])" using normal_path_segs [OF q] snoc by simp
  ultimately show ?thesis using listed_child [OF p, of us w] ps by (simp add: proper_seg_def)
qed

text \<open>
  C37: \<open>list_dir\<close> returns, in the order of their paths, exactly the rows whose parent directory is
  the given one up to the case of ASCII letters; for the root also the row of the root itself.
\<close>

theorem list_dir_exact:
  assumes "db_wf d" "normal_path p" "db_list_dir p d = (Inr ms, d')"
  shows "sorted (map (\<lambda>m. as_str (fm_path m)) ms) \<and>
    (\<forall>m. m \<in> set ms \<longleftrightarrow> (\<exists>q row. row_of d q = Some row \<and> m = row_to_metadata row \<and>
       ((\<exists>par. path_parent q = Some par \<and> map ascii_lower (as_str par) = map ascii_lower (as_str p)) \<or>
        p = root_path \<and> q = root_path)))"
proof -
  let ?rows = "sort_key r_path (filter (\<lambda>x. listed p (r_path x)) (files d))"
  have ms: "ms = map row_to_metadata ?rows" using db_list_dir_run(2) [OF assms(3) refl] .
  have wf: "distinct (map r_path (files d))" "\<forall>row\<in>set (files d). row_wf row"
    using assms(1) by (auto simp: db_wf_def files_wf_def list_all_iff)
  then have "map (\<lambda>m. as_str (fm_path m)) ms = map r_path ?rows"
    unfolding ms by (auto simp: fm_path_row)
  then have "sorted (map (\<lambda>m. as_str (fm_path m)) ms)" by simp
  moreover have "m \<in> set ms \<longleftrightarrow> (\<exists>q row. row_of d q = Some row \<and> m = row_to_metadata row \<and> listed p (as_str q))" for m
  proof
    assume "m \<in> set ms"
    then obtain row where row: "row \<in> set (files d)" "listed p (r_path row)" "m = row_to_metadata row"
      unfolding ms by auto
    then have "row_of d (FvfsPath (r_path row)) = Some row" using assms(1) by (intro row_of_in_files) simp_all
    with row show "\<exists>q row. row_of d q = Some row \<and> m = row_to_metadata row \<and> listed p (as_str q)" by fastforce
  next
    assume "\<exists>q row. row_of d q = Some row \<and> m = row_to_metadata row \<and> listed p (as_str q)"
    then show "m \<in> set ms" unfolding ms by (auto dest: row_of_SomeD)
  qed
  moreover have "row_of d q = Some row \<Longrightarrow> listed p (as_str q) \<longleftrightarrow>
      (\<exists>par. path_parent q = Some par \<and> map ascii_lower (as_str par) = map ascii_lower (as_str p)) \<or>
      p = root_path \<and> q = root_path" for q row
    using listed_iff_child [OF assms(2)] row_of_normal [OF assms(1)] by simp
  ultimately show ?thesis by blast
qed

theorem list_dir_exact_witness:
  "\<exists>d ms d'. db_list_dir root_path d = (Inr ms, d') \<and>
     sorted (map (\<lambda>m. as_str (fm_path m)) ms) \<and> map fm_path ms = [FvfsPath ''/'', FvfsPath ''/a'']"
proof -
  let ?a = "new_file 1 (FvfsPath ''/a'') 3 ''ca''" and ?r = "new_dir 1 root_path"
  let ?d1 = "snd (db_upsert ?a (db_open (\<lambda>_. None)))"
  let ?d = "snd (db_upsert ?r ?d1)"
  have ok: "case fst (db_list_dir root_path ?d) of Inr ms \<Rightarrow> map fm_path ms = [FvfsPath ''/'', FvfsPath ''/a''] | Inl _ \<Rightarrow> False"
    by code_simp
  then obtain ms d' where run: "db_list_dir root_path ?d = (Inr ms, d')" "map fm_path ms = [FvfsPath ''/'', FvfsPath ''/a'']"
    by (cases "db_list_dir root_path ?d") (auto split: sum.splits)
  have "normal_path (fm_path ?a)" by code_simp
  from db_upsert_wf [OF this] db_wf_open have "db_wf ?d1" unfolding preserves_def by blast
  moreover have "normal_path (fm_path ?r)" by simp
  from db_upsert_wf [OF this] have "preserves db_wf (db_upsert ?r)" .
  ultimately have "db_wf ?d" unfolding preserves_def by blast
  from list_dir_exact [OF this normal_root run(1), THEN conjunct1] run show ?thesis
    by (intro exI [of _ ?d] exI [of _ ms] exI [of _ d']) simp
qed

end
