(* ===== verification/Storage_Backend.thy ===== *)
theory Storage_Backend
  imports Fvfs_Types
begin

text \<open>
  The trait \<open>StorageBackend\<close> of \<open>fvfs-core/src/backend/mod.rs\<close>. A trait object is the record
  of its methods, each an operation on the backend's state \<open>'b\<close>; \<open>list\<close> pages through a
  remote service and is \<open>None\<close> when it does not return.

  The locales state the contract the routing layer relies on, over an abstraction \<open>content\<close> of
  a backend state: the partial function from paths to the bytes stored there.
  \<^item> \<open>storage_backend\<close>: what every backend promises, whatever fails. A successful \<open>put\<close> stores
    exactly the data at exactly the path, a failed one may leave anything at its path but touches no
    other; \<open>get\<close> answers with the stored bytes and changes nothing; \<open>delete\<close> removes the path
    and nothing else. A failed \<open>delete\<close> may have taken effect before the answer was lost.
  \<^item> \<open>atomic_backend\<close>: in addition a failed \<open>put\<close> leaves the stored bytes as they were or stores
    all of the data, never a part of it.
  \<^item> \<open>live_backend\<close>: in addition, in a state that is \<open>up\<close>, a stored path can be read and deleted.
\<close>

record 'b backend =
  be_put :: "fvfs_path \<Rightarrow> bytes \<Rightarrow> ('b, fvfs_error, unit) op"
  be_get :: "fvfs_path \<Rightarrow> ('b, fvfs_error, bytes) op"
  be_delete :: "fvfs_path \<Rightarrow> ('b, fvfs_error, unit) op"
  be_exists :: "fvfs_path \<Rightarrow> ('b, fvfs_error, bool) op"
  be_list :: "fvfs_path \<Rightarrow> 'b \<Rightarrow> (file_entry list fvfs_result \<times> 'b) option"
  be_metadata :: "fvfs_path \<Rightarrow> ('b, fvfs_error, file_entry) op"
  be_tier :: tier

locale storage_backend =
  fixes be :: "'b backend"
    and content :: "'b \<Rightarrow> fvfs_path \<Rightarrow> bytes option"
    and inv :: "'b \<Rightarrow> bool"
  assumes put_inv: "preserves inv (be_put be p data)"
    and get_inv: "preserves inv (be_get be p)"
    and delete_inv: "preserves inv (be_delete be p)"
    and put_ok: "\<lbrakk>inv s; normal_path p; be_put be p data s = (Inr (), s')\<rbrakk> \<Longrightarrow>
                   content s' = (content s)(p := Some data)"
    and put_err: "\<lbrakk>inv s; normal_path p; be_put be p data s = (Inl e, s'); q \<noteq> p\<rbrakk> \<Longrightarrow>
                   content s' q = content s q"
    and get_same: "\<lbrakk>inv s; normal_path p; be_get be p s = (r, s')\<rbrakk> \<Longrightarrow> content s' = content s"
    and get_ok: "\<lbrakk>inv s; normal_path p; be_get be p s = (Inr data, s')\<rbrakk> \<Longrightarrow> content s p = Some data"
    and delete_ok: "\<lbrakk>inv s; normal_path p; be_delete be p s = (Inr (), s')\<rbrakk> \<Longrightarrow>
                   content s' = (content s)(p := None)"
    and delete_err: "\<lbrakk>inv s; normal_path p; be_delete be p s = (Inl e, s')\<rbrakk> \<Longrightarrow>
                   content s' = content s \<or> content s' = (content s)(p := None)"
begin

text \<open>Whatever a method returns, it leaves the content of every other path alone.\<close>

lemma put_other:
  assumes "inv s" "normal_path p" "be_put be p data s = (r, s')" "q \<noteq> p"
  shows "content s' q = content s q"
  using assms put_ok [of s p data s'] put_err [of s p data _ s' q] by (cases r) auto

lemma delete_other:
  assumes "inv s" "normal_path p" "be_delete be p s = (r, s')" "q \<noteq> p"
  shows "content s' q = content s q"
  using assms delete_ok [of s p s'] delete_err [of s p _ s'] by (cases r) (auto split: if_splits)

lemma delete_cases:
  assumes "inv s" "normal_path p" "be_delete be p s = (r, s')"
  shows "content s' = (content s)(p := None) \<or> content s' = content s \<and> r \<noteq> Inr ()"
  using assms delete_ok [of s p s'] delete_err [of s p _ s'] by (cases r) auto

text \<open>What was put last is what is read.\<close>

lemma put_get:
  assumes "inv s" "normal_path p" "be_put be p data s = (Inr (), s')" "be_get be p s' = (Inr got, s'')"
  shows "got = data"
proof -
  from preservesD [OF put_inv assms(1,3)] have "inv s'" .
  from get_ok [OF this assms(2,4)] have "content s' p = Some got" .
  with put_ok [OF assms(1-3)] show ?thesis by simp
qed

end

locale atomic_backend = storage_backend +
  assumes put_atomic: "\<lbrakk>inv s; normal_path p; be_put be p data s = (Inl e, s')\<rbrakk> \<Longrightarrow>
                   content s' = content s \<or> content s' = (content s)(p := Some data)"
begin

lemma put_cases:
  assumes "inv s" "normal_path p" "be_put be p data s = (r, s')"
  shows "content s' = (content s)(p := Some data) \<or> content s' = content s \<and> r \<noteq> Inr ()"
  using assms put_ok [of s p data s'] put_atomic [of s p data _ s'] by (cases r) auto

end

locale live_backend = storage_backend +
  fixes up :: "'b \<Rightarrow> bool"
  assumes up_put: "preserves (\<lambda>s. inv s \<and> up s) (be_put be p data)"
    and up_get: "preserves (\<lambda>s. inv s \<and> up s) (be_get be p)"
    and up_delete: "preserves (\<lambda>s. inv s \<and> up s) (be_delete be p)"
    and get_live: "\<lbrakk>inv s; up s; normal_path p; content s p = Some data\<rbrakk> \<Longrightarrow>
                   \<exists>s'. be_get be p s = (Inr data, s')"
    and delete_live: "\<lbrakk>inv s; up s; normal_path p; content s p = Some data\<rbrakk> \<Longrightarrow>
                   \<exists>s'. be_delete be p s = (Inr (), s')"

end
