(* ===== verification/Tier_Router.thy ===== *)
theory Tier_Router
  imports Metadata_Laws Storage_Backend
begin

text \<open>
  \<open>TierRouter\<close> (\<open>fvfsd/src/router.rs\<close>): reads, writes, deletes, listings and evictions over
  the three tiers. The state \<open>world\<close> holds what the router's fields and the environment hold: the
  metadata database, the state of the three storage backends, the queue of promotion signals (an
  unbounded channel, so \<open>send\<close> never blocks) and a clock whose readings are arbitrary. A
  \<open>spawn_blocking\<close> call runs its closure; a panicking closure is not modelled. One operation is
  one state transformer: operations are interleaved as wholes.

  SHA-256 with hexadecimal printing is the parameter \<open>sha\<close>.
\<close>

datatype promote_signal = Promote (sig_path: fvfs_path) (sig_from: tier)

record 'b world =
  wdb :: db
  stores :: "tier \<Rightarrow> 'b"
  promote_q :: "promote_signal list"
  clock :: "nat \<Rightarrow> i64"
  ticks :: nat

record 'b tier_router =
  rt_local :: "'b backend"
  rt_nas :: "'b backend"
  rt_s3 :: "'b backend"

fun backend_of :: "'b tier_router \<Rightarrow> tier \<Rightarrow> 'b backend" where
  "backend_of r Local = rt_local r"
| "backend_of r Nas = rt_nas r"
| "backend_of r S3 = rt_s3 r"

definition on_db :: "(db, 'e, 'a) op \<Rightarrow> ('b world, 'e, 'a) op" where
  "on_db = zoom wdb (\<lambda>d w. w\<lparr>wdb := d\<rparr>)"

definition on_store :: "tier \<Rightarrow> ('b, 'e, 'a) op \<Rightarrow> ('b world, 'e, 'a) op" where
  "on_store t = zoom (\<lambda>w. stores w t) (\<lambda>b w. w\<lparr>stores := (stores w)(t := b)\<rparr>)"

definition now_unix :: "('b world, 'e, i64) op" where
  "now_unix w = (Inr (clock w (ticks w)), w\<lparr>ticks := Suc (ticks w)\<rparr>)"

definition send_promote :: "promote_signal \<Rightarrow> ('b world, 'e, unit) op" where
  "send_promote sig = modifyR (\<lambda>w. w\<lparr>promote_q := promote_q w @ [sig]\<rparr>)"

section \<open>Writing\<close>

lemma path_parent_length: "path_parent p = Some q \<Longrightarrow> length (as_str q) < length (as_str p)"
proof -
  assume p: "path_parent p = Some q"
  then obtain i where i: "rfind slash (as_str p) = Some i" "as_str p \<noteq> ''/''"
    by (auto simp: path_parent_def split: if_splits option.splits)
  show ?thesis
  proof (cases "i = 0")
    case True
    with i rfind_less [OF i(1)] have "length (as_str p) \<noteq> 1"
      by (cases "as_str p") (auto split: option.splits if_splits)
    moreover from p i True have "length (as_str q) = 1"
      by (auto simp: path_parent_def)
    ultimately show ?thesis using rfind_less [OF i(1)] by linarith
  next
    case False
    with p i rfind_less [OF i(1)] show ?thesis by (auto simp: path_parent_def)
  qed
qed

function ensure_parent_dirs :: "fvfs_path \<Rightarrow> ('b world, fvfs_error, unit) op" where
  "ensure_parent_dirs current =
     (case path_parent current of
        None \<Rightarrow> okR ()
      | Some parent \<Rightarrow>
          andThen (on_db (db_get parent)) (\<lambda>existing.
          andThen
            (if existing = None
             then andThen now_unix (\<lambda>now.
                  andThen (on_db (db_upsert (new_dir now parent))) (\<lambda>_. okR ()))
             else okR ()) (\<lambda>_.
          ensure_parent_dirs parent)))"
  by auto
termination
  by (relation "measure (\<lambda>p. length (as_str p))") (auto dest: path_parent_length)

declare ensure_parent_dirs.simps [simp del]

definition written_meta :: "(bytes \<Rightarrow> string) \<Rightarrow> i64 \<Rightarrow> fvfs_path \<Rightarrow> bytes \<Rightarrow> file_metadata" where
  "written_meta sha now path data =
     \<lparr> fm_id = 0, fm_path = path, fm_kind = File, fm_size_bytes = of_nat (length data),
       fm_sha256 = sha data, fm_tier_bitmask = bm_set Local bm_NONE,
       fm_created_at = now, fm_modified_at = now, fm_accessed_at = now,
       fm_access_count_30d = 0, fm_mime_type = None \<rparr>"

definition enqueue :: "i64 \<Rightarrow> wal_op \<Rightarrow> ('b world, fvfs_error, i64) op" where
  "enqueue file_id op = andThen now_unix (\<lambda>now. on_db (db_wal_enqueue now file_id op))"

definition router_write ::
    "(bytes \<Rightarrow> string) \<Rightarrow> 'b tier_router \<Rightarrow> fvfs_path \<Rightarrow> bytes \<Rightarrow> ('b world, fvfs_error, unit) op" where
  "router_write sha r path data =
     andThen (on_store Local (be_put (rt_local r) path data)) (\<lambda>_.
     andThen now_unix (\<lambda>now.
     andThen (on_db (db_upsert (written_meta sha now path data))) (\<lambda>file_id.
     andThen (ensure_parent_dirs path) (\<lambda>_.
     andThen (enqueue file_id ReplicateNas) (\<lambda>_.
     andThen (enqueue file_id UploadS3) (\<lambda>_.
     okR ()))))))"

definition router_mkdir :: "fvfs_path \<Rightarrow> ('b world, fvfs_error, unit) op" where
  "router_mkdir path =
     andThen now_unix (\<lambda>now.
     andThen (on_db (db_upsert (new_dir now path))) (\<lambda>_.
     andThen (ensure_parent_dirs path) (\<lambda>_.
     okR ())))"

section \<open>Reading\<close>

definition require_metadata :: "fvfs_path \<Rightarrow> ('b world, fvfs_error, file_metadata) op" where
  "require_metadata path =
     andThen (on_db (db_get path)) (\<lambda>meta.
     case meta of Some m \<Rightarrow> okR m | None \<Rightarrow> errR (NotFound (as_str path)))"

definition router_stat :: "fvfs_path \<Rightarrow> ('b world, fvfs_error, file_metadata) op" where
  "router_stat path = require_metadata path"

definition router_list :: "fvfs_path \<Rightarrow> ('b world, fvfs_error, file_entry list) op" where
  "router_list dir_path =
     andThen (on_db (db_list_dir dir_path)) (\<lambda>entries. okR (map entry_of_metadata entries))"

definition get_and_promote ::
    "'b tier_router \<Rightarrow> tier \<Rightarrow> fvfs_path \<Rightarrow> ('b world, fvfs_error, bytes) op" where
  "get_and_promote r t path =
     andThen (on_store t (be_get (backend_of r t) path)) (\<lambda>data.
     andThen (send_promote (Promote path t)) (\<lambda>_. okR data))"

definition read_from_nas_or_s3 ::
    "'b tier_router \<Rightarrow> fvfs_path \<Rightarrow> tier_bitmask \<Rightarrow> ('b world, fvfs_error, bytes) op" where
  "read_from_nas_or_s3 r path bm =
     (if bm_has bm Nas then get_and_promote r Nas path
      else if bm_has bm S3 then get_and_promote r S3 path
      else errR (NotFound (as_str path)))"

definition touch :: "i64 \<Rightarrow> ('b world, fvfs_error, unit) op" where
  "touch file_id = andThen now_unix (\<lambda>now. on_db (db_record_access now file_id))"

definition read_tiers ::
    "'b tier_router \<Rightarrow> fvfs_path \<Rightarrow> tier_bitmask \<Rightarrow> ('b world, fvfs_error, bytes) op" where
  "read_tiers r path bm =
     (if bm_has bm Local then
        andThen (attempt (on_store Local (be_get (rt_local r) path))) (\<lambda>got.
        case got of Inr d \<Rightarrow> okR d | Inl e \<Rightarrow> read_from_nas_or_s3 r path bm)
      else if bm_has bm Nas then get_and_promote r Nas path
      else if bm_has bm S3 then get_and_promote r S3 path
      else errR (NotFound (as_str path)))"

definition router_read :: "'b tier_router \<Rightarrow> fvfs_path \<Rightarrow> ('b world, fvfs_error, bytes) op" where
  "router_read r path =
     andThen (require_metadata path) (\<lambda>meta.
     if is_dir meta then errR (IsADirectory (as_str path))
     else
       andThen (read_tiers r path (fm_tier_bitmask meta)) (\<lambda>data.
       andThen (attempt (touch (fm_id meta))) (\<lambda>_. okR data)))"

section \<open>Deleting and evicting\<close>

definition delete_copy ::
    "'b tier_router \<Rightarrow> fvfs_path \<Rightarrow> tier_bitmask \<Rightarrow> tier \<Rightarrow> ('b world, fvfs_error, unit) op" where
  "delete_copy r path bm t =
     (if bm_has bm t
      then andThen (attempt (on_store t (be_delete (backend_of r t) path))) (\<lambda>_. okR ())
      else okR ())"

definition router_delete :: "'b tier_router \<Rightarrow> fvfs_path \<Rightarrow> ('b world, fvfs_error, unit) op" where
  "router_delete r path =
     andThen (require_metadata path) (\<lambda>meta.
     andThen (delete_copy r path (fm_tier_bitmask meta) Local) (\<lambda>_.
     andThen (delete_copy r path (fm_tier_bitmask meta) Nas) (\<lambda>_.
     andThen (delete_copy r path (fm_tier_bitmask meta) S3) (\<lambda>_.
     on_db (db_delete path)))))"

definition evict_from_tier ::
    "'b tier_router \<Rightarrow> fvfs_path \<Rightarrow> tier \<Rightarrow> ('b world, fvfs_error, unit) op" where
  "evict_from_tier r path t =
     andThen (require_metadata path) (\<lambda>meta.
     if \<not> safe_to_evict_from (fm_tier_bitmask meta) t
     then errR (Other ''cannot evict: file not present on colder tier'')
     else if t = S3 then errR (Other ''S3 tier is never evicted'')
     else
       andThen (on_store t (be_delete (backend_of r t) path)) (\<lambda>_.
       on_db (db_set_tier_bitmask (fm_id meta) (bm_clear t (fm_tier_bitmask meta)))))"

end
