(* ===== verification/Tier_Coherence.thy ===== *)
theory Tier_Coherence
  imports Tier_Router
begin

text \<open>
  What the router promises about the bytes of a file, whatever fails. \<open>holds w p d\<close> says that
  path \<open>p\<close> is a file whose current version is \<open>d\<close> and that the tier bitmask of its row can be
  trusted: every tier with its bit set stores \<open>d\<close>, except that a tier whose deletion was recorded
  half-way may have lost its copy while S3 still has one; the local tier, which WAL replay
  reads without looking at the bitmask, stores \<open>d\<close> or nothing. The locale \<open>tier_stack\<close> is the interface
  between the router and its three backends; inside it every router operation is shown to keep
  \<open>holds\<close> for all the files it is not asked to change, and to read the current version only.
\<close>

section \<open>Current versions\<close>

definition world_ok :: "(tier \<Rightarrow> 'b \<Rightarrow> bool) \<Rightarrow> 'b world \<Rightarrow> bool" where
  "world_ok tinv w \<longleftrightarrow> db_wf (wdb w) \<and> (\<forall>t. tinv t (stores w t))"

definition copies_ok :: "(tier \<Rightarrow> bytes option) \<Rightarrow> tier_bitmask \<Rightarrow> bytes \<Rightarrow> bool" where
  "copies_ok c bm d \<longleftrightarrow>
     (\<exists>t. bm_has bm t) \<and> (c Local = None \<or> c Local = Some d) \<and>
     (\<forall>t. bm_has bm t \<longrightarrow> c t = Some d \<or> c t = None \<and> t \<noteq> S3 \<and> bm_has bm S3)"

definition holds ::
    "(tier \<Rightarrow> 'b \<Rightarrow> fvfs_path \<Rightarrow> bytes option) \<Rightarrow> (bytes \<Rightarrow> string) \<Rightarrow>
     'b world \<Rightarrow> fvfs_path \<Rightarrow> bytes \<Rightarrow> bool" where
  "holds content sha w p d \<longleftrightarrow>
     (\<exists>row. row_of (wdb w) p = Some row \<and> r_is_dir row = 0 \<and> r_sha256 row = sha d \<and>
        r_size_bytes row = u64_as_i64 (of_nat (length d)) \<and>
        copies_ok (\<lambda>t. content t (stores w t) p) (row_bm row) d)"

text \<open>The worlds before and after an operation that only looks.\<close>

definition same_world ::
    "(tier \<Rightarrow> 'b \<Rightarrow> fvfs_path \<Rightarrow> bytes option) \<Rightarrow> 'b world \<Rightarrow> 'b world \<Rightarrow> bool" where
  "same_world content w w' \<longleftrightarrow>
     (\<forall>p. rel_option same_file (row_of (wdb w) p) (row_of (wdb w') p)) \<and>
     wal_table (wdb w') = wal_table (wdb w) \<and>
     (\<forall>t. content t (stores w' t) = content t (stores w t))"

lemma copies_ok_unique: "\<lbrakk>copies_ok c bm d; copies_ok c bm e\<rbrakk> \<Longrightarrow> d = e"
  by (auto simp: copies_ok_def) (metis option.inject option.distinct(1))+

lemma holds_unique: "\<lbrakk>holds content sha w p d; holds content sha w p e\<rbrakk> \<Longrightarrow> d = e"
  by (auto simp: holds_def dest: copies_ok_unique)

lemma same_file_refl [simp]: "same_file r r"
  by (simp add: same_file_def)

lemma same_file_bm: "same_file r s \<Longrightarrow> row_bm s = row_bm r"
  by (simp add: same_file_def row_bm_def)

lemma rel_same_file_refl [simp]: "rel_option same_file x x"
  by (cases x) auto

lemma rel_same_file_trans:
  "\<lbrakk>rel_option same_file x y; rel_option same_file y z\<rbrakk> \<Longrightarrow> rel_option same_file x z"
  by (cases x; cases y; cases z) (auto simp: same_file_def)

lemma same_world_refl [simp]: "same_world content w w"
  by (simp add: same_world_def)

lemma same_world_trans:
  "\<lbrakk>same_world content u v; same_world content v w\<rbrakk> \<Longrightarrow> same_world content u w"
  by (auto simp: same_world_def intro: rel_same_file_trans)

lemma same_world_row:
  assumes "same_world content w w'" "row_of (wdb w) p = Some r"
  obtains r' where "row_of (wdb w') p = Some r'" "same_file r r'"
proof -
  have "rel_option same_file (row_of (wdb w) p) (row_of (wdb w') p)"
    using assms(1) by (simp add: same_world_def)
  with assms(2) that show ?thesis by (auto simp: option_rel_Some1)
qed

lemma same_world_holds:
  assumes "same_world content w w'" "holds content sha w p d"
  shows "holds content sha w' p d"
proof -
  from assms(2) obtain row where row: "row_of (wdb w) p = Some row"
    and ok: "r_is_dir row = 0" "r_sha256 row = sha d" "r_size_bytes row = u64_as_i64 (of_nat (length d))"
      "copies_ok (\<lambda>t. content t (stores w t) p) (row_bm row) d"
    by (auto simp: holds_def)
  from same_world_row [OF assms(1) row] obtain row'
    where "row_of (wdb w') p = Some row'" "same_file row row'" .
  with ok assms(1) same_file_bm [of row row'] show ?thesis
    by (simp add: holds_def same_file_def same_world_def)
qed

lemma same_world_tables:
  "\<lbrakk>same_tables (wdb w) d; stores w' = stores w; wdb w' = d\<rbrakk> \<Longrightarrow> same_world content w w'"
  by (auto simp: same_world_def same_tables_row_of) (simp add: same_tables_def)

section \<open>Operations on a part of the world\<close>

lemma on_db_run: "on_db m w = (res, w') \<longleftrightarrow> (\<exists>d. m (wdb w) = (res, d) \<and> w' = w\<lparr>wdb := d\<rparr>)"
  by (auto simp: on_db_def zoom_def split: prod.splits)

lemma on_store_run:
  "on_store t m w = (res, w') \<longleftrightarrow>
     (\<exists>b. m (stores w t) = (res, b) \<and> w' = w\<lparr>stores := (stores w)(t := b)\<rparr>)"
  by (auto simp: on_store_def zoom_def split: prod.splits)

lemma world_ok_sel [simp]:
  "world_ok tinv (w\<lparr>promote_q := q\<rparr>) = world_ok tinv w"
  "world_ok tinv (w\<lparr>ticks := n\<rparr>) = world_ok tinv w"
  by (simp_all add: world_ok_def)

lemma world_ok_db: "\<lbrakk>world_ok tinv w; preserves db_wf m; m (wdb w) = (res, d)\<rbrakk> \<Longrightarrow> world_ok tinv (w\<lparr>wdb := d\<rparr>)"
  by (auto simp: world_ok_def dest: preservesD)

lemma preserves_on_db [preserves_intros]:
  "preserves db_wf m \<Longrightarrow> preserves (world_ok tinv) (on_db m)"
  by (rule preservesI) (auto simp: on_db_run intro: world_ok_db)

lemma preserves_now_unix [preserves_intros]:
  assumes "\<And>w n. I (w\<lparr>ticks := n\<rparr>) = I w"
  shows "preserves I now_unix"
  by (rule preservesI) (auto simp: now_unix_def assms)

lemma preserves_send_promote [preserves_intros]:
  assumes "\<And>w q. I (w\<lparr>promote_q := q\<rparr>) = I w"
  shows "preserves I (send_promote s)"
  by (rule preservesI) (auto simp: send_promote_def modifyR_def assms)

lemma preserves_on_db_I:
  assumes "\<And>w res d. \<lbrakk>I w; m (wdb w) = (res, d)\<rbrakk> \<Longrightarrow> I (w\<lparr>wdb := d\<rparr>)"
  shows "preserves I (on_db m)"
  by (rule preservesI) (auto simp: on_db_run assms)

lemma holds_sel [simp]:
  "holds content sha (w\<lparr>promote_q := q\<rparr>) = holds content sha w"
  "holds content sha (w\<lparr>ticks := n\<rparr>) = holds content sha w"
  by (simp_all add: holds_def fun_eq_iff)

lemma same_world_sel [simp]:
  "same_world content u (w\<lparr>promote_q := q\<rparr>) = same_world content u w"
  "same_world content u (w\<lparr>ticks := n\<rparr>) = same_world content u w"
  by (simp_all add: same_world_def)

text \<open>Looking at the database.\<close>

lemma require_metadata_run:
  assumes "require_metadata p w = (res, w')"
  shows "same_tables (wdb w) (wdb w') \<and> stores w' = stores w \<and> promote_q w' = promote_q w" (is ?same)
    and "res = Inr m \<Longrightarrow> \<exists>row. row_of (wdb w) p = Some row \<and> m = row_to_metadata row"
proof -
  obtain r1 d where get: "db_get p (wdb w) = (r1, d)" by fastforce
  have run: "require_metadata p w = (case r1 of Inl e \<Rightarrow> (Inl e, w\<lparr>wdb := d\<rparr>)
      | Inr None \<Rightarrow> (Inl (NotFound (as_str p)), w\<lparr>wdb := d\<rparr>) | Inr (Some m) \<Rightarrow> (Inr m, w\<lparr>wdb := d\<rparr>))"
    by (simp add: require_metadata_def on_db_def op_defs get split: sum.splits option.splits)
  then have w': "w' = w\<lparr>wdb := d\<rparr>" using assms by (auto split: sum.splits option.splits)
  then show ?same using db_get_run(1) [OF get] by simp
  show "\<exists>row. row_of (wdb w) p = Some row \<and> m = row_to_metadata row" if "res = Inr m"
    using run assms that db_get_run(2) [OF get] by (auto split: sum.splits option.splits)
qed

lemma require_metadata_same: "require_metadata p w = (res, w') \<Longrightarrow> same_world content w w'"
  using require_metadata_run(1) same_world_tables by metis

lemma require_metadata_ok: "\<lbrakk>require_metadata p w = (res, w'); world_ok tinv w\<rbrakk> \<Longrightarrow> world_ok tinv w'"
  using require_metadata_run(1) [of p w res w'] same_tables_wf [of "wdb w" "wdb w'"]
  by (simp add: world_ok_def)

lemma touch_run:
  assumes "touch i w = (res, w')"
  shows "same_world content w w'" "world_ok tinv w \<Longrightarrow> world_ok tinv w'"
    "stores w' = stores w" "promote_q w' = promote_q w"
proof -
  let ?now = "clock w (ticks w)"
  from assms obtain d where run: "db_record_access ?now i (wdb w) = (res, d)"
    and w': "w' = w\<lparr>ticks := Suc (ticks w), wdb := d\<rparr>"
    by (auto simp: touch_def now_unix_def andThen_def on_db_run)
  have "wal_table d = wal_table (wdb w)"
    using update_files_run [OF run [unfolded db_record_access_def]] by (auto simp: same_tables_def)
  then show "same_world content w w'"
    using db_record_access_row_of [OF run] w' by (auto simp: same_world_def)
  show "world_ok tinv w \<Longrightarrow> world_ok tinv w'"
    using preservesD [OF db_record_access_wf _ run] w' by (auto simp: world_ok_def)
  show "stores w' = stores w" "promote_q w' = promote_q w" using w' by simp_all
qed

text \<open>
  \<open>ensure_parent_dirs\<close> only adds directory rows: it changes no existing row and no copy, and when
  it succeeds every ancestor is there.
\<close>

definition adds_rows :: "'b world \<Rightarrow> 'b world \<Rightarrow> bool" where
  "adds_rows w w' \<longleftrightarrow>
     stores w' = stores w \<and> promote_q w' = promote_q w \<and> wal_table (wdb w') = wal_table (wdb w) \<and>
     (\<forall>q row. row_of (wdb w) q = Some row \<longrightarrow> row_of (wdb w') q = Some row)"

lemma adds_rows_trans: "\<lbrakk>adds_rows u v; adds_rows v w\<rbrakk> \<Longrightarrow> adds_rows u w"
  by (simp add: adds_rows_def)

definition add_parent :: "fvfs_path \<Rightarrow> ('b world, fvfs_error, unit) op" where
  "add_parent parent =
     andThen (on_db (db_get parent)) (\<lambda>existing.
       if existing = None
       then andThen now_unix (\<lambda>now. andThen (on_db (db_upsert (new_dir now parent))) (\<lambda>_. okR ()))
       else okR ())"

lemma ensure_parent_dirs_alt:
  "ensure_parent_dirs p =
     (case path_parent p of None \<Rightarrow> okR () | Some q \<Rightarrow> andThen (add_parent q) (\<lambda>_. ensure_parent_dirs q))"
  by (subst ensure_parent_dirs.simps) (simp add: add_parent_def andThen_assoc split: option.splits)

lemma add_parent_run:
  assumes "add_parent p w = (res, w')" "normal_path p"
  shows "adds_rows w w'" "world_ok tinv w \<Longrightarrow> world_ok tinv w'"
    "res = Inr () \<Longrightarrow> row_of (wdb w') p \<noteq> None"
proof -
  obtain r1 d1 where get: "db_get p (wdb w) = (r1, d1)" by fastforce
  note same = db_get_run(1) [OF get]
  let ?m = "new_dir (clock w (ticks w)) p"
  obtain r2 d2 where ups: "db_upsert ?m d1 = (r2, d2)" by fastforce
  have run: "(res, w') = (case r1 of Inl e \<Rightarrow> (Inl e, w\<lparr>wdb := d1\<rparr>)
      | Inr (Some _) \<Rightarrow> (Inr (), w\<lparr>wdb := d1\<rparr>)
      | Inr None \<Rightarrow> ((case r2 of Inl e \<Rightarrow> Inl e | Inr _ \<Rightarrow> Inr ()), w\<lparr>wdb := d2, ticks := Suc (ticks w)\<rparr>))"
    using assms(1) get ups
    by (auto simp: add_parent_def on_db_def now_unix_def op_defs split: sum.splits option.splits)
  have rows1: "row_of d1 = row_of (wdb w)" "wal_table d1 = wal_table (wdb w)"
    using same by (auto simp: same_tables_row_of) (simp add: same_tables_def)
  have none: "r1 = Inr None \<Longrightarrow> row_of (wdb w) p = None"
    using db_get_run(2) [OF get] by simp
  have rows2: "row_of d2 q = (if q = p then Some (upserted_row d1 ?m) else row_of d1 q)" if "r2 = Inr i" for q i
    using db_upsert_row_of [of ?m d1 i d2] ups that by simp
  have wal2: "wal_table d2 = wal_table d1"
    using ups db_upsert_files(3) [of ?m d1 _ d2] db_upsert_fail [of ?m d1 _ d2]
    by (cases r2) (auto simp: same_tables_def)
  have fail2: "row_of d2 = row_of d1" if "r2 = Inl e" for e
    using db_upsert_fail [of ?m d1 e d2] ups that by (simp add: same_tables_row_of)
  show "adds_rows w w'"
    using run rows1 none rows2 wal2 fail2 by (auto simp: adds_rows_def split: sum.splits option.splits)
  show "res = Inr () \<Longrightarrow> row_of (wdb w') p \<noteq> None"
    using run rows1 rows2 db_get_run(2) [OF get] by (auto split: sum.splits option.splits)
  have "db_wf d2" if "db_wf d1" using preservesD [OF db_upsert_wf that ups] assms(2) by simp
  then show "world_ok tinv w \<Longrightarrow> world_ok tinv w'"
    using run same_tables_wf [OF same] by (auto simp: world_ok_def split: sum.splits option.splits)
qed

lemma ensure_parent_dirs_run:
  assumes "ensure_parent_dirs p w = (res, w')" "normal_path p"
  shows "adds_rows w w' \<and> (world_ok tinv w \<longrightarrow> world_ok tinv w') \<and>
    (res = Inr () \<longrightarrow> (\<forall>k < length (segs p). row_of (wdb w') (of_segs (take k (segs p))) \<noteq> None))"
  using assms
proof (induction p arbitrary: w rule: ensure_parent_dirs.induct)
  case (1 p)
  show ?case
  proof (cases "path_parent p")
    case None
    with 1 show ?thesis
      by (auto simp: ensure_parent_dirs_alt okR_def adds_rows_def path_parent_refines split: if_splits)
  next
    case (Some q)
    then have q: "normal_path q" "q = of_segs (butlast (segs p))" "segs p \<noteq> []"
      using path_parent_shorter [OF 1(3)] 1(3) by (auto simp: path_parent_refines split: if_splits)
    have "list_all proper_seg (butlast (segs p))"
      using normal_path_proper [OF 1(3)] by (auto simp: list_all_iff dest: in_set_butlastD)
    then have segs_q: "segs q = butlast (segs p)" by (simp add: q(2) segs_of_segs)
    obtain r1 w1 where step: "add_parent q w = (r1, w1)" by fastforce
    note step_run = add_parent_run [OF step q(1)]
    show ?thesis
    proof (cases r1)
      case (Inl e)
      with 1(2) Some step have "res = Inl e" "w' = w1"
        by (simp_all add: ensure_parent_dirs_alt [of p] andThen_def)
      with step_run show ?thesis by simp
    next
      case (Inr u)
      with 1(2) Some step have rest: "ensure_parent_dirs q w1 = (res, w')"
        by (simp add: ensure_parent_dirs_alt [of p] andThen_def)
      note IH = 1(1) [OF Some rest q(1)]
      have "row_of (wdb w') (of_segs (take k (segs p))) \<noteq> None"
        if "res = Inr ()" "k < length (segs p)" for k
      proof (cases "k < length (segs q)")
        case True
        with IH that segs_q show ?thesis by (simp add: take_butlast)
      next
        case False
        with that segs_q have "of_segs (take k (segs p)) = q" by (simp add: q(2) butlast_conv_take)
          (metis Suc_pred length_greater_0_conv less_Suc_eq_le linorder_not_less nat_less_le q(3))
        with IH step_run(3) Inr show ?thesis by (auto simp: adds_rows_def)
      qed
      with IH step_run show ?thesis by (auto intro: adds_rows_trans)
    qed
  qed
qed

lemma enqueue_run:
  assumes "enqueue i op w = (res, w')"
  shows "row_of (wdb w') = row_of (wdb w)" "stores w' = stores w" "promote_q w' = promote_q w"
    "world_ok tinv w \<Longrightarrow> world_ok tinv w'"
    "res = Inr wid \<Longrightarrow> wal_table (wdb w') = wal_table (wdb w) @
       [\<lparr> w_id = wid, w_file_id = i, w_op = wal_op_as_str op, w_enqueued_at = clock w (ticks w),
          w_attempts = 0, w_last_error = None \<rparr>]"
proof -
  from assms obtain d where run: "db_wal_enqueue (clock w (ticks w)) i op (wdb w) = (res, d)"
    and w': "w' = w\<lparr>ticks := Suc (ticks w), wdb := d\<rparr>"
    by (auto simp: enqueue_def now_unix_def andThen_def on_db_run)
  show "row_of (wdb w') = row_of (wdb w)" using wal_ops_row_of(1) [OF run] w' by simp
  show "stores w' = stores w" "promote_q w' = promote_q w" using w' by simp_all
  show "world_ok tinv w \<Longrightarrow> world_ok tinv w'"
    using preservesD [OF db_wal_enqueue_wf _ run] w' by (auto simp: world_ok_def)
  show "wal_table (wdb w') = wal_table (wdb w) @
       [\<lparr> w_id = wid, w_file_id = i, w_op = wal_op_as_str op, w_enqueued_at = clock w (ticks w),
          w_attempts = 0, w_last_error = None \<rparr>]" if "res = Inr wid"
    using run that w' unfolding db_wal_enqueue_def
    by (auto elim!: sql_cases simp: wal_enqueue_stmt_def Let_def split: if_splits)
qed

lemma holds_row_copies:
  assumes "holds content sha w q d" "row_of (wdb w') q = row_of (wdb w) q"
    "\<And>t. content t (stores w' t) q = content t (stores w t) q"
  shows "holds content sha w' q d"
  using assms by (simp add: holds_def)

lemma adds_rows_holds: "\<lbrakk>adds_rows w w'; holds content sha w q d\<rbrakk> \<Longrightarrow> holds content sha w' q d"
  by (auto simp: holds_def adds_rows_def)

lemma written_meta_sel [simp]:
  "fm_path (written_meta sha now p data) = p" "fm_kind (written_meta sha now p data) = File"
  "fm_size_bytes (written_meta sha now p data) = of_nat (length data)"
  "fm_sha256 (written_meta sha now p data) = sha data"
  "fm_tier_bitmask (written_meta sha now p data) = bm_set Local bm_NONE"
  by (simp_all add: written_meta_def)

section \<open>The router over its backends\<close>

lemma read_missing:
  assumes "row_of (wdb w) p = None" "no_sql_fault (wdb w)"
  shows "fst (router_read r p w) = Inl (NotFound (as_str p))"
proof -
  obtain d where "db_get p (wdb w) = (Inr None, d)" using db_get_ok [OF assms(2), of p] assms(1) by auto
  then show ?thesis by (simp add: router_read_def require_metadata_def on_db_def op_defs)
qed

lemma delete_row_gone:
  assumes "router_delete r p w = (Inr (), w')"
  shows "row_of (wdb w') p = None"
    and "no_sql_fault (wdb w') \<Longrightarrow> fst (router_read r p w') = Inl (NotFound (as_str p))"
proof -
  show gone: "row_of (wdb w') p = None"
    using assms db_delete_row_of [of p _ "Inr ()" _ p]
    by (auto simp: router_delete_def andThen_Inr on_db_run)
  show "no_sql_fault (wdb w') \<Longrightarrow> fst (router_read r p w') = Inl (NotFound (as_str p))"
    using read_missing [OF gone] .
qed

locale tier_stack =
  fixes r :: "'b tier_router"
    and content :: "tier \<Rightarrow> 'b \<Rightarrow> fvfs_path \<Rightarrow> bytes option"
    and tinv :: "tier \<Rightarrow> 'b \<Rightarrow> bool"
  assumes tier_backend: "atomic_backend (backend_of r t) (content t) (tinv t)"
begin

lemmas tier_laws = tier_backend [THEN atomic_backend.axioms(1)]

abbreviation ok :: "'b world \<Rightarrow> bool" where
  "ok \<equiv> world_ok tinv"

abbreviation copy :: "'b world \<Rightarrow> tier \<Rightarrow> fvfs_path \<Rightarrow> bytes option" where
  "copy w t \<equiv> content t (stores w t)"

lemma ok_tier: "ok w \<Longrightarrow> tinv t (stores w t)"
  by (simp add: world_ok_def)

lemma get_run:
  assumes "on_store t (be_get (backend_of r t) p) w = (res, w')" "ok w" "normal_path p"
  shows "ok w'" "same_world content w w'" "res = Inr x \<Longrightarrow> copy w t p = Some x"
    "promote_q w' = promote_q w"
proof -
  from assms(1) obtain b where run: "be_get (backend_of r t) p (stores w t) = (res, b)"
    and w': "w' = w\<lparr>stores := (stores w)(t := b)\<rparr>" by (auto simp: on_store_run)
  note laws = ok_tier [OF assms(2)] assms(3) run
  show "ok w'"
    using assms(2) w' preservesD [OF storage_backend.get_inv [OF tier_laws] laws(1,3)]
    by (simp add: world_ok_def)
  show "same_world content w w'"
    using w' storage_backend.get_same [OF tier_laws laws] by (simp add: same_world_def)
  show "res = Inr x \<Longrightarrow> copy w t p = Some x"
    using storage_backend.get_ok [OF tier_laws laws(1,2)] run by simp
  show "promote_q w' = promote_q w" using w' by simp
qed

lemma put_run:
  assumes "on_store t (be_put (backend_of r t) p data) w = (res, w')" "ok w" "normal_path p"
  shows "ok w'" "wdb w' = wdb w" "promote_q w' = promote_q w"
    and "u \<noteq> t \<or> q \<noteq> p \<Longrightarrow> copy w' u q = copy w u q"
    and "copy w' t p = Some data \<or> copy w' t p = copy w t p \<and> res \<noteq> Inr ()"
proof -
  from assms(1) obtain b where run: "be_put (backend_of r t) p data (stores w t) = (res, b)"
    and w': "w' = w\<lparr>stores := (stores w)(t := b)\<rparr>" by (auto simp: on_store_run)
  note laws = ok_tier [OF assms(2)] assms(3) run
  show "ok w'"
    using assms(2) w' preservesD [OF storage_backend.put_inv [OF tier_laws] laws(1,3)]
    by (simp add: world_ok_def)
  show "wdb w' = wdb w" "promote_q w' = promote_q w" using w' by simp_all
  show "u \<noteq> t \<or> q \<noteq> p \<Longrightarrow> copy w' u q = copy w u q"
    using w' storage_backend.put_other [OF tier_laws laws] by auto
  show "copy w' t p = Some data \<or> copy w' t p = copy w t p \<and> res \<noteq> Inr ()"
    using w' atomic_backend.put_cases [OF tier_backend laws] by auto
qed

lemma delete_run:
  assumes "on_store t (be_delete (backend_of r t) p) w = (res, w')" "ok w" "normal_path p"
  shows "ok w'" "wdb w' = wdb w" "promote_q w' = promote_q w"
    and "u \<noteq> t \<or> q \<noteq> p \<Longrightarrow> copy w' u q = copy w u q"
    and "copy w' t p = None \<or> copy w' t p = copy w t p \<and> res \<noteq> Inr ()"
proof -
  from assms(1) obtain b where run: "be_delete (backend_of r t) p (stores w t) = (res, b)"
    and w': "w' = w\<lparr>stores := (stores w)(t := b)\<rparr>" by (auto simp: on_store_run)
  note laws = ok_tier [OF assms(2)] assms(3) run
  show "ok w'"
    using assms(2) w' preservesD [OF storage_backend.delete_inv [OF tier_laws] laws(1,3)]
    by (simp add: world_ok_def)
  show "wdb w' = wdb w" "promote_q w' = promote_q w" using w' by simp_all
  show "u \<noteq> t \<or> q \<noteq> p \<Longrightarrow> copy w' u q = copy w u q"
    using w' storage_backend.delete_other [OF tier_laws laws] by auto
  show "copy w' t p = None \<or> copy w' t p = copy w t p \<and> res \<noteq> Inr ()"
    using w' storage_backend.delete_cases [OF tier_laws laws] by auto
qed

text \<open>
  A read changes nothing but access statistics and the promotion queue, and what it returns is a
  copy from a tier whose bit is set.
\<close>

abbreviation looks :: "'b world \<Rightarrow> 'b world \<Rightarrow> bool" where
  "looks w w' \<equiv> ok w' \<and> same_world content w w'"

lemma get_and_promote_run:
  assumes run: "get_and_promote r t p w = (res, w')" and w: "ok w" "normal_path p"
  shows "looks w w' \<and> (\<forall>x. res = Inr x \<longrightarrow> copy w t p = Some x)"
proof -
  obtain r1 w1 where get: "on_store t (be_get (backend_of r t) p) w = (r1, w1)" by fastforce
  show ?thesis
    using run get_run [OF get w] unfolding get_and_promote_def andThen_def get
    by (cases r1) (auto simp: send_promote_def modifyR_def okR_def)
qed

lemma read_from_nas_or_s3_run:
  assumes run: "read_from_nas_or_s3 r p bm w = (res, w')" and w: "ok w" "normal_path p"
  shows "looks w w' \<and> (\<forall>x. res = Inr x \<longrightarrow> (\<exists>t. bm_has bm t \<and> copy w t p = Some x))"
  using run get_and_promote_run [OF _ w] w unfolding read_from_nas_or_s3_def
  by (auto simp: errR_def split: if_splits)

lemma read_tiers_run:
  assumes run: "read_tiers r p bm w = (res, w')" and w: "ok w" "normal_path p"
  shows "looks w w' \<and> (\<forall>x. res = Inr x \<longrightarrow> (\<exists>t. bm_has bm t \<and> copy w t p = Some x))"
proof (cases "bm_has bm Local")
  case True
  obtain r1 w1 where "on_store Local (be_get (backend_of r Local) p) w = (r1, w1)" by fastforce
  note get = this get_run [OF this w]
  show ?thesis
  proof (cases r1)
    case (Inr x)
    with run get True show ?thesis by (auto simp: read_tiers_def op_defs)
  next
    case (Inl e)
    with run get True have "read_from_nas_or_s3 r p bm w1 = (res, w')"
      by (simp add: read_tiers_def andThen_def attempt_def)
    note fallback = read_from_nas_or_s3_run [OF this get(2) w(2)]
    have "copy w1 t = copy w t" for t using get(3) by (simp add: same_world_def)
    with fallback get(3) show ?thesis by (auto intro: same_world_trans)
  qed
next
  case False
  with run get_and_promote_run [OF _ w] w show ?thesis unfolding read_tiers_def
    by (auto simp: errR_def split: if_splits)
qed

lemma read_run:
  assumes run: "router_read r p w = (res, w')" and w: "ok w"
  shows "looks w w'"
    and "res = Inr x \<Longrightarrow> \<exists>row t. row_of (wdb w) p = Some row \<and> r_is_dir row = 0 \<and>
           bm_has (row_bm row) t \<and> copy w t p = Some x"
proof -
  obtain r1 w1 where req: "require_metadata p w = (r1, w1)" by fastforce
  note look1 = require_metadata_ok [OF req w] require_metadata_same [OF req, of content]
  have "looks w w' \<and> (\<forall>x. res = Inr x \<longrightarrow> (\<exists>row t. row_of (wdb w) p = Some row \<and> r_is_dir row = 0 \<and>
           bm_has (row_bm row) t \<and> copy w t p = Some x))"
  proof (cases r1)
    case (Inl e)
    with run req look1 show ?thesis by (auto simp: router_read_def andThen_def)
  next
    case (Inr m)
    then obtain row where row: "row_of (wdb w) p = Some row" "m = row_to_metadata row"
      using require_metadata_run(2) [OF req] by auto
    then have p: "normal_path p" using w by (auto simp: world_ok_def dest: row_of_normal)
    show ?thesis
    proof (cases "is_dir m")
      case True
      with run req Inr look1 show ?thesis by (auto simp: router_read_def andThen_def errR_def)
    next
      case False
      obtain r2 w2 where tiers: "read_tiers r p (fm_tier_bitmask m) w1 = (r2, w2)" by fastforce
      obtain r3 w3 where touch: "touch (fm_id m) w2 = (r3, w3)" by fastforce
      have res: "res = r2" "w' = (case r2 of Inl _ \<Rightarrow> w2 | Inr _ \<Rightarrow> w3)"
        using run req Inr False tiers touch
        by (auto simp: router_read_def andThen_def attempt_def okR_def split: sum.splits)
      note look2 = read_tiers_run [OF tiers look1(1) p]
      note look3 = touch_run(1) [OF touch, of content] touch_run(2) [OF touch, of tinv]
      have "copy w1 t = copy w t" for t using look1(2) by (simp add: same_world_def)
      moreover have "looks w w'"
        using res look1(2) look2 look3 by (auto intro: same_world_trans split: sum.splits)
      ultimately show ?thesis using res(1) look2 row False by auto
    qed
  qed
  then show "looks w w'" and "res = Inr x \<Longrightarrow> \<exists>row t. row_of (wdb w) p = Some row \<and> r_is_dir row = 0 \<and>
           bm_has (row_bm row) t \<and> copy w t p = Some x" by auto
qed

lemma read_current:
  assumes run: "router_read r p w = (Inr x, w')" and w: "ok w" and d: "holds content sha w p d"
  shows "x = d"
  using read_run(2) [OF run w refl] d by (auto simp: holds_def copies_ok_def)

abbreviation keeps :: "(bytes \<Rightarrow> string) \<Rightarrow> fvfs_path \<Rightarrow> bytes \<Rightarrow> 'b world \<Rightarrow> bool" where
  "keeps sha q d w \<equiv> ok w \<and> holds content sha w q d"

subsection \<open>Writes, directories, deletes\<close>

lemma put_keeps:
  assumes p: "normal_path p" and same: "p = q \<Longrightarrow> data = d"
  shows "preserves (keeps sha q d) (on_store t (be_put (backend_of r t) p data))"
proof (rule preservesI)
  fix w res w'
  assume w: "keeps sha q d w" and run: "on_store t (be_put (backend_of r t) p data) w = (res, w')"
  note put = put_run [OF run _ p]
  have "copy w' u q = copy w u q \<or> copy w' u q = Some d" for u
    using put(4) [of u q] put(5) w same by (cases "u = t \<and> q = p") auto
  with w put(2) have "holds content sha w' q d"
    unfolding holds_def copies_ok_def by (metis option.distinct(1))
  with put(1) w show "keeps sha q d w'" by blast
qed

lemma upsert_keeps:
  assumes "fm_path m \<noteq> q" "normal_path (fm_path m)"
  shows "preserves (keeps sha q d) (on_db (db_upsert m))"
proof (rule preserves_on_db_I)
  fix w res db assume w: "keeps sha q d w" and run: "db_upsert m (wdb w) = (res, db)"
  have "row_of db q = row_of (wdb w) q"
    using run assms(1) db_upsert_row_of [of m "wdb w" _ db q] db_upsert_fail [of m "wdb w" _ db]
    by (cases res) (auto simp: same_tables_row_of)
  then have "holds content sha (w\<lparr>wdb := db\<rparr>) q d" using w by (auto intro: holds_row_copies)
  with world_ok_db [OF _ db_upsert_wf [OF assms(2)] run] w show "keeps sha q d (w\<lparr>wdb := db\<rparr>)" by simp
qed

lemma ensure_parent_dirs_keeps:
  assumes "normal_path p"
  shows "preserves (keeps sha q d) (ensure_parent_dirs p)"
  by (rule preservesI)
    (use ensure_parent_dirs_run [OF _ assms] in \<open>blast intro: adds_rows_holds\<close>)

lemma enqueue_keeps: "preserves (keeps sha q d) (enqueue i op)"
  by (rule preservesI) (auto dest: enqueue_run(1,2,4) intro: holds_row_copies simp: enqueue_run)

lemmas keeps_intros = put_keeps upsert_keeps ensure_parent_dirs_keeps enqueue_keeps

lemma write_other:
  assumes "normal_path p" "p \<noteq> q"
  shows "preserves (keeps sha q d) (router_write sha r p data)"
  unfolding router_write_def
  using put_keeps [OF assms(1), of q data d sha Local] assms
  by (auto intro!: preserves_intros keeps_intros)

lemma mkdir_other:
  assumes "normal_path p" "p \<noteq> q"
  shows "preserves (keeps sha q d) (router_mkdir p)"
  unfolding router_mkdir_def using assms by (auto intro!: preserves_intros keeps_intros)

lemma ensure_parent_dirs_ok: "normal_path p \<Longrightarrow> preserves ok (ensure_parent_dirs p)"
  using ensure_parent_dirs_run by (metis preservesI)

lemma store_ok:
  assumes "normal_path p"
  shows "preserves ok (on_store t (be_put (backend_of r t) p data))"
    "preserves ok (on_store t (be_get (backend_of r t) p))"
    "preserves ok (on_store t (be_delete (backend_of r t) p))"
  using assms by (auto intro!: preservesI dest: put_run(1) get_run(1) delete_run(1))

lemma enqueue_ok: "preserves ok (enqueue i op)"
  by (rule preservesI) (auto dest: enqueue_run(4))

lemma write_preserves_ok: "normal_path p \<Longrightarrow> preserves ok (router_write sha r p data)"
  unfolding router_write_def using store_ok(1) [of p Local data]
  by (auto intro!: preserves_intros ensure_parent_dirs_ok enqueue_ok)

lemma mkdir_preserves_ok: "normal_path p \<Longrightarrow> preserves ok (router_mkdir p)"
  unfolding router_mkdir_def by (auto intro!: preserves_intros ensure_parent_dirs_ok)

lemma read_preserves_ok: "preserves ok (router_read r p)"
  by (rule preservesI) (auto dest: read_run(1))

lemma read_keeps: "preserves (keeps sha q d) (router_read r p)"
  by (rule preservesI) (auto dest: read_run(1) intro: same_world_holds)

text \<open>A successful write makes its data the current version, with all ancestors in place.\<close>

lemma write_new_version:
  assumes run: "router_write sha r p data w = (Inr (), w')" and w: "ok w" and p: "normal_path p"
  shows "holds content sha w' p data"
    and "\<forall>k < length (segs p). row_of (wdb w') (of_segs (take k (segs p))) \<noteq> None"
proof -
  obtain w1 w2 i w3 w4 j w5 k where
    put: "on_store Local (be_put (backend_of r Local) p data) w = (Inr (), w1)" and
    ups: "on_db (db_upsert (written_meta sha (clock w1 (ticks w1)) p data)) (w1\<lparr>ticks := Suc (ticks w1)\<rparr>) = (Inr i, w2)" and
    parents: "ensure_parent_dirs p w2 = (Inr (), w3)" and
    e1: "enqueue i ReplicateNas w3 = (Inr j, w4)" and e2: "enqueue i UploadS3 w4 = (Inr k, w5)" and w5: "w' = w5"
    using run by (auto simp: router_write_def andThen_Inr now_unix_def okR_def)
  let ?m = "written_meta sha (clock w1 (ticks w1)) p data"
  note put_facts = put_run [OF put w p]
  from ups obtain d where d: "db_upsert ?m (wdb w1) = (Inr i, d)"
    and w2: "w2 = w1\<lparr>ticks := Suc (ticks w1), wdb := d\<rparr>" by (auto simp: on_db_run)
  have "row_of (wdb w2) p = Some (upserted_row (wdb w1) ?m)"
    using db_upsert_row_of [OF d, of p] w2 by simp
  moreover have "copy w2 Local p = Some data" using put_facts(5) w2 by auto
  ultimately have "holds content sha w2 p data"
    by (auto simp: holds_def copies_ok_def kind_flag_def is_dir_def)
  moreover have more: "adds_rows w2 w3"
    "\<forall>k < length (segs p). row_of (wdb w3) (of_segs (take k (segs p))) \<noteq> None"
    using ensure_parent_dirs_run [OF parents p] by auto
  ultimately have "holds content sha w3 p data" by (blast intro: adds_rows_holds)
  then show "holds content sha w' p data"
    using enqueue_run(1,2) [OF e1] enqueue_run(1,2) [OF e2] w5 by (auto intro: holds_row_copies)
  show "\<forall>k < length (segs p). row_of (wdb w') (of_segs (take k (segs p))) \<noteq> None"
    using more enqueue_run(1) [OF e1] enqueue_run(1) [OF e2] w5 by simp
qed

lemma delete_copy_run:
  assumes "delete_copy r p bm t w = (res, w')" "ok w" "normal_path p"
  shows "res = Inr ()" "ok w'" "wdb w' = wdb w" "q \<noteq> p \<Longrightarrow> copy w' u q = copy w u q"
proof -
  obtain r1 w1 where del: "on_store t (be_delete (backend_of r t) p) w = (r1, w1)" by fastforce
  note facts = delete_run [OF del assms(2,3)]
  from assms(1) del have "res = Inr ()" and w': "w' = (if bm_has bm t then w1 else w)"
    by (auto simp: delete_copy_def andThen_def attempt_def okR_def split: if_splits)
  then show "res = Inr ()" by simp
  show "ok w'" "wdb w' = wdb w" "q \<noteq> p \<Longrightarrow> copy w' u q = copy w u q"
    using w' facts assms(2) by auto
qed

lemma delete_copy_keeps:
  "\<lbrakk>normal_path p; q \<noteq> p\<rbrakk> \<Longrightarrow> preserves (keeps sha q d) (delete_copy r p bm t)"
  by (rule preservesI) (auto dest: delete_copy_run(2-4) intro: holds_row_copies simp: delete_copy_run)

lemma require_metadata_keeps: "preserves (keeps sha q d) (require_metadata p)"
  by (rule preservesI) (auto dest: require_metadata_ok require_metadata_same intro: same_world_holds)

lemma db_delete_keeps:
  assumes "q \<noteq> p"
  shows "preserves (keeps sha q d) (on_db (db_delete p))"
proof (rule preserves_on_db_I)
  fix w res db assume w: "keeps sha q d w" and run: "db_delete p (wdb w) = (res, db)"
  have "row_of db q = row_of (wdb w) q"
    using db_delete_row_of [OF run] assms by (auto intro: fvfs_path.expand)
  with w world_ok_db [OF _ db_delete_wf run] show "keeps sha q d (w\<lparr>wdb := db\<rparr>)"
    by (auto intro: holds_row_copies)
qed

lemma delete_other:
  assumes "normal_path p" "q \<noteq> p"
  shows "preserves (keeps sha q d) (router_delete r p)"
  unfolding router_delete_def using assms
  by (auto intro!: preserves_intros require_metadata_keeps delete_copy_keeps db_delete_keeps)

lemma delete_copy_ok: "normal_path p \<Longrightarrow> preserves ok (delete_copy r p bm t)"
  by (rule preservesI) (auto dest: delete_copy_run(2))

lemma require_metadata_preserves_ok: "preserves ok (require_metadata p)"
  by (rule preservesI) (auto dest: require_metadata_ok)

lemma delete_preserves_ok: "normal_path p \<Longrightarrow> preserves ok (router_delete r p)"
  unfolding router_delete_def
  by (auto intro!: preserves_intros delete_copy_ok require_metadata_preserves_ok)

subsection \<open>Eviction\<close>

text \<open>
  Evicting changes at most one copy, and a file's current version survives because S3 holds it:
  this is what \<open>safe_to_evict_from\<close> guards.
\<close>

lemma set_bitmask_keeps:
  assumes w: "ok w" and row: "row_of (wdb w) p = Some row" and run: "db_set_tier_bitmask (r_id row) bm (wdb w) = (res, db)"
    and other: "p \<noteq> q \<Longrightarrow> holds content sha w q d"
    and before: "p = q \<Longrightarrow> res \<noteq> Inr () \<Longrightarrow> holds content sha w q d"
    and same: "p = q \<Longrightarrow> r_is_dir row = 0 \<and> r_sha256 row = sha d \<and>
       r_size_bytes row = u64_as_i64 (of_nat (length d)) \<and> copies_ok (\<lambda>t. copy w t p) bm d"
  shows "keeps sha q d (w\<lparr>wdb := db\<rparr>)"
proof -
  have wf: "db_wf (wdb w)" using w by (simp add: world_ok_def)
  note rows = db_set_tier_bitmask_row_of [OF run wf row refl, of q]
  have "holds content sha (w\<lparr>wdb := db\<rparr>) q d"
  proof (cases "p = q \<and> res = Inr ()")
    case True
    with rows same show ?thesis by (simp add: holds_def)
  next
    case False
    with other before have "holds content sha w q d" by blast
    with rows False show ?thesis by (auto intro: holds_row_copies)
  qed
  with world_ok_db [OF w db_set_tier_bitmask_wf run] show ?thesis by simp
qed

lemma evict_cases:
  assumes "evict_from_tier r p t w = (res, w')" and ok: "ok w"
  obtains (refused) "looks w w'" "res \<noteq> Inr ()"
  | (failed) row w1 e where "row_of (wdb w) p = Some row" "looks w w1" "t \<noteq> S3" "bm_has (row_bm row) S3"
      "same_tables (wdb w) (wdb w1)" "on_store t (be_delete (backend_of r t) p) w1 = (Inl e, w')" "res = Inl e"
  | (evicted) row w1 w2 db where "row_of (wdb w) p = Some row" "looks w w1" "t \<noteq> S3" "bm_has (row_bm row) S3"
      "same_tables (wdb w) (wdb w1)" "on_store t (be_delete (backend_of r t) p) w1 = (Inr (), w2)"
      "db_set_tier_bitmask (r_id row) (bm_clear t (row_bm row)) (wdb w2) = (res, db)" "w' = w2\<lparr>wdb := db\<rparr>"
proof -
  obtain r1 w1 where req: "require_metadata p w = (r1, w1)" by fastforce
  note look = require_metadata_ok [OF req ok] require_metadata_same [OF req, of content]
    require_metadata_run(1) [OF req]
  show thesis
  proof (cases r1)
    case (Inl e)
    with assms(1) req look that(1) show thesis by (auto simp: evict_from_tier_def andThen_def)
  next
    case (Inr m)
    then obtain row where row: "row_of (wdb w) p = Some row" "m = row_to_metadata row"
      using require_metadata_run(2) [OF req] by auto
    show thesis
    proof (cases "safe_to_evict_from (row_bm row) t")
      case False
      with assms req look Inr row that(1) show thesis
        by (auto simp: evict_from_tier_def andThen_def errR_def)
    next
      case True
      then have t: "t \<noteq> S3" "bm_has (row_bm row) S3" by (cases t; simp)+
      obtain r2 w2 where del: "on_store t (be_delete (backend_of r t) p) w1 = (r2, w2)" by fastforce
      then have step: "(case r2 of Inl e \<Rightarrow> (Inl e, w2)
          | Inr _ \<Rightarrow> on_db (db_set_tier_bitmask (r_id row) (bm_clear t (row_bm row))) w2) = (res, w')"
        using assms req Inr row True t(1) by (auto simp: evict_from_tier_def andThen_def split: sum.splits)
      show thesis
        using step that(2) [OF row(1) _ t] that(3) [OF row(1) _ t] look del
        by (auto simp: on_db_run split: sum.splits)
    qed
  qed
qed

lemma evict_keeps: "preserves (keeps sha q d) (evict_from_tier r p t)"
proof (rule preservesI)
  fix w res w' assume w: "keeps sha q d w" and run: "evict_from_tier r p t w = (res, w')"
  from run w [THEN conjunct1] show "keeps sha q d w'"
  proof (cases rule: evict_cases)
    case refused
    with w show ?thesis by (blast intro: same_world_holds)
  next
    case (failed row w1 e)
    then have w1: "keeps sha q d w1" "row_of (wdb w1) p = Some row"
      using w by (auto intro: same_world_holds simp: same_tables_row_of)
    then have p: "normal_path p" by (auto simp: world_ok_def dest: row_of_normal)
    note del = delete_run [OF failed(6) _ p]
    have "copy w' u q = copy w1 u q \<or> copy w' u q = None \<and> u = t \<and> q = p" for u
      using del(4) [of u q] del(5) w1 by (cases "u = t \<and> q = p") auto
    with w1 failed(3,4) del(2) have "holds content sha w' q d"
      unfolding holds_def copies_ok_def by (metis option.sel)
    with del(1) w1 show ?thesis by blast
  next
    case (evicted row w1 w2 db)
    then have w1: "keeps sha q d w1" "row_of (wdb w1) p = Some row"
      using w by (auto intro: same_world_holds simp: same_tables_row_of)
    then have p: "normal_path p" by (auto simp: world_ok_def dest: row_of_normal)
    note del = delete_run [OF evicted(6) _ p]
    have copies: "copy w2 u q = (if u = t \<and> q = p then None else copy w1 u q)" for u
      using del(4) [of u q] del(5) w1 by auto
    show ?thesis unfolding evicted(8)
    proof (rule set_bitmask_keeps [OF _ _ evicted(7)])
      show "ok w2" "row_of (wdb w2) p = Some row" using del w1 by auto
      show held: "holds content sha w2 q d"
        using w1 evicted(3,4) del(2) copies
        unfolding holds_def copies_ok_def by (metis option.sel)
      then show "holds content sha w2 q d" .
      show "r_is_dir row = 0 \<and> r_sha256 row = sha d \<and>
       r_size_bytes row = u64_as_i64 (of_nat (length d)) \<and>
       copies_ok (\<lambda>t. copy w2 t p) (bm_clear t (row_bm row)) d" if "p = q"
        using held that w1(2) del(2) [OF w1(1) [THEN conjunct1]] evicted(3,4)
        by (auto simp: holds_def copies_ok_def)
    qed
  qed
qed

lemma evict_preserves_ok: "preserves ok (evict_from_tier r p t)"
proof (rule preservesI)
  fix w res w' assume w: "ok w" and run: "evict_from_tier r p t w = (res, w')"
  from run w show "ok w'"
  proof (cases rule: evict_cases)
    case (failed row w1 e)
    then have "normal_path p" using w by (auto simp: world_ok_def dest: row_of_normal)
    with failed show ?thesis by (auto dest: delete_run(1))
  next
    case (evicted row w1 w2 db)
    then have "normal_path p" using w by (auto simp: world_ok_def dest: row_of_normal)
    with evicted show ?thesis
      by (auto dest: delete_run(1) intro: world_ok_db [OF _ db_set_tier_bitmask_wf])
  qed simp
qed

end

end
