(* ===== verification/Wal_Replay.thy ===== *)
theory Wal_Replay
  imports Tier_Coherence
begin

text \<open>
  \<open>replay_wal\<close> (\<open>fvfsd/src/wal_replay.rs\<close>): at start-up every pending WAL entry is executed
  again, with exponential backoff between failed attempts. \<open>replay_entry\<close> is the inner loop for
  one entry; next to the new world it returns the delays (in milliseconds) that it slept. The lemmas
  bound the attempts and give the backoff schedule in closed form, and show that replay keeps the
  current version of every file, whatever fails.
\<close>

abbreviation MAX_ATTEMPTS :: u32 where "MAX_ATTEMPTS \<equiv> 10"
abbreviation BASE_DELAY_MS :: u64 where "BASE_DELAY_MS \<equiv> 500"

text \<open>Fetch the bytes, store them on tier \<open>t\<close>, then set the bit of \<open>t\<close> in the row.\<close>

definition copy_to ::
    "'b tier_router \<Rightarrow> tier \<Rightarrow> ('b world, fvfs_error, bytes) op \<Rightarrow> file_metadata \<Rightarrow>
     ('b world, fvfs_error, unit) op" where
  "copy_to r t fetch file_meta =
     andThen fetch (\<lambda>data.
     andThen (on_store t (be_put (backend_of r t) (fm_path file_meta) data)) (\<lambda>_.
     on_db (db_set_tier_bitmask (fm_id file_meta) (bm_set t (fm_tier_bitmask file_meta)))))"

definition replicate_nas :: "'b tier_router \<Rightarrow> file_metadata \<Rightarrow> ('b world, fvfs_error, unit) op" where
  "replicate_nas r file_meta =
     copy_to r Nas (on_store Local (be_get (rt_local r) (fm_path file_meta))) file_meta"

definition upload_s3 :: "'b tier_router \<Rightarrow> file_metadata \<Rightarrow> ('b world, fvfs_error, unit) op" where
  "upload_s3 r file_meta = copy_to r S3 (router_read r (fm_path file_meta)) file_meta"

definition replay_op ::
    "'b tier_router \<Rightarrow> wal_op \<Rightarrow> file_metadata \<Rightarrow> ('b world, fvfs_error, unit) op" where
  "replay_op r op file_meta =
     (case op of ReplicateNas \<Rightarrow> replicate_nas r file_meta | UploadS3 \<Rightarrow> upload_s3 r file_meta)"

text \<open>\<open>let _ = \<dots>\<close>: run a statement and drop its result.\<close>

definition ignoring :: "('b world, fvfs_error, 'a) op \<Rightarrow> 'b world \<Rightarrow> 'b world" where
  "ignoring m w = snd (m w)"

lemma unat_attempt: "\<not> MAX_ATTEMPTS \<le> a \<Longrightarrow> unat (a + 1) = unat a + 1 \<and> unat a < 10"
  by (simp add: word_le_nat_alt not_le unat_word_ariths(1))

function replay_entry ::
    "'b tier_router \<Rightarrow> wal_entry \<Rightarrow> u32 \<Rightarrow> u64 \<Rightarrow> 'b world \<Rightarrow> u64 list \<times> 'b world" where
  "replay_entry r entry tries delay w =
     (if MAX_ATTEMPTS \<le> tries then ([], w)
      else
        case on_db (db_get_by_id (we_file_id entry)) w of
          (Inl e, w1) \<Rightarrow> ([], w1)
        | (Inr None, w1) \<Rightarrow> ([], ignoring (on_db (db_wal_complete (we_id entry))) w1)
        | (Inr (Some file_meta), w1) \<Rightarrow>
            (case replay_op r (we_op entry) file_meta w1 of
               (Inr _, w2) \<Rightarrow> ([], ignoring (on_db (db_wal_complete (we_id entry))) w2)
             | (Inl e, w2) \<Rightarrow>
                 let w3 = ignoring (on_db (db_wal_record_failure (we_id entry) (display_error e))) w2;
                     rest = replay_entry r entry (tries + 1) (min (delay * 2) 30000) w3
                 in (delay # fst rest, snd rest)))"
  by auto

termination
  by (relation "measure (\<lambda>(r, entry, tries, delay, w). 10 - unat tries)")
    (auto dest!: unat_attempt)

declare replay_entry.simps [simp del]

text \<open>The five ways through one iteration.\<close>

lemma replay_entry_stop: "MAX_ATTEMPTS \<le> tries \<Longrightarrow> replay_entry r entry tries delay w = ([], w)"
  by (subst replay_entry.simps) simp

lemma replay_entry_unloaded:
  "\<lbrakk>\<not> MAX_ATTEMPTS \<le> tries; on_db (db_get_by_id (we_file_id entry)) w = (Inl e, w1)\<rbrakk>
   \<Longrightarrow> replay_entry r entry tries delay w = ([], w1)"
  by (subst replay_entry.simps) simp

lemma replay_entry_orphan:
  "\<lbrakk>\<not> MAX_ATTEMPTS \<le> tries; on_db (db_get_by_id (we_file_id entry)) w = (Inr None, w1)\<rbrakk>
   \<Longrightarrow> replay_entry r entry tries delay w = ([], ignoring (on_db (db_wal_complete (we_id entry))) w1)"
  by (subst replay_entry.simps) simp

lemma replay_entry_done:
  "\<lbrakk>\<not> MAX_ATTEMPTS \<le> tries; on_db (db_get_by_id (we_file_id entry)) w = (Inr (Some m), w1);
    replay_op r (we_op entry) m w1 = (Inr (), w2)\<rbrakk>
   \<Longrightarrow> replay_entry r entry tries delay w = ([], ignoring (on_db (db_wal_complete (we_id entry))) w2)"
  by (subst replay_entry.simps) simp

lemma replay_entry_retry:
  assumes "\<not> MAX_ATTEMPTS \<le> tries" "on_db (db_get_by_id (we_file_id entry)) w = (Inr (Some m), w1)"
    "replay_op r (we_op entry) m w1 = (Inl e, w2)"
    "w3 = ignoring (on_db (db_wal_record_failure (we_id entry) (display_error e))) w2"
  shows "replay_entry r entry tries delay w =
    (delay # fst (replay_entry r entry (tries + 1) (min (delay * 2) 30000) w3),
     snd (replay_entry r entry (tries + 1) (min (delay * 2) 30000) w3))"
  using assms by (subst replay_entry.simps) (simp add: Let_def)

lemma replay_entry_rule:
  assumes stop: "\<And>tries delay w. MAX_ATTEMPTS \<le> tries \<Longrightarrow> P tries delay w [] w"
    and unloaded: "\<And>tries delay w e w1. \<lbrakk>\<not> MAX_ATTEMPTS \<le> tries;
       on_db (db_get_by_id (we_file_id entry)) w = (Inl e, w1)\<rbrakk> \<Longrightarrow> P tries delay w [] w1"
    and orphan: "\<And>tries delay w w1. \<lbrakk>\<not> MAX_ATTEMPTS \<le> tries;
       on_db (db_get_by_id (we_file_id entry)) w = (Inr None, w1)\<rbrakk>
       \<Longrightarrow> P tries delay w [] (ignoring (on_db (db_wal_complete (we_id entry))) w1)"
    and replayed: "\<And>tries delay w m w1 w2. \<lbrakk>\<not> MAX_ATTEMPTS \<le> tries;
       on_db (db_get_by_id (we_file_id entry)) w = (Inr (Some m), w1);
       replay_op r (we_op entry) m w1 = (Inr (), w2)\<rbrakk>
       \<Longrightarrow> P tries delay w [] (ignoring (on_db (db_wal_complete (we_id entry))) w2)"
    and retry: "\<And>tries delay w m w1 e w2 ds w'. \<lbrakk>\<not> MAX_ATTEMPTS \<le> tries;
       on_db (db_get_by_id (we_file_id entry)) w = (Inr (Some m), w1);
       replay_op r (we_op entry) m w1 = (Inl e, w2);
       P (tries + 1) (min (delay * 2) 30000)
         (ignoring (on_db (db_wal_record_failure (we_id entry) (display_error e))) w2) ds w'\<rbrakk>
       \<Longrightarrow> P tries delay w (delay # ds) w'"
  shows "P tries delay w (fst (replay_entry r entry tries delay w)) (snd (replay_entry r entry tries delay w))"
proof (induction "10 - unat tries" arbitrary: tries delay w rule: less_induct)
  case less
  obtain r1 w1 where get: "on_db (db_get_by_id (we_file_id entry)) w = (r1, w1)" by fastforce
  show ?case
  proof (cases "MAX_ATTEMPTS \<le> tries")
    case True
    then show ?thesis using stop by (simp add: replay_entry_stop)
  next
    case False
    consider e where "r1 = Inl e" | "r1 = Inr None" | m where "r1 = Inr (Some m)"
      by (metis option.exhaust sumE)
    then show ?thesis
    proof cases
      case 1
      with False get unloaded show ?thesis by (simp add: replay_entry_unloaded)
    next
      case 2
      with False get orphan show ?thesis by (simp add: replay_entry_orphan)
    next
      case (3 m)
      obtain r2 w2 where op: "replay_op r (we_op entry) m w1 = (r2, w2)" by fastforce
      show ?thesis
      proof (cases r2)
        case (Inr u)
        with 3 False get op replayed show ?thesis by (simp add: replay_entry_done)
      next
        case (Inl e)
        let ?w3 = "ignoring (on_db (db_wal_record_failure (we_id entry) (display_error e))) w2"
        have "10 - unat (tries + 1) < 10 - unat tries" using unat_attempt [OF False] by linarith
        from less [OF this] retry [OF False get [unfolded 3] op [unfolded Inl]] show ?thesis
          unfolding replay_entry_retry [OF False get [unfolded 3] op [unfolded Inl] refl] by simp
      qed
    qed
  qed
qed

primrec replay_entries :: "'b tier_router \<Rightarrow> wal_entry list \<Rightarrow> 'b world \<Rightarrow> u64 list \<times> 'b world" where
  "replay_entries r [] w = ([], w)"
| "replay_entries r (entry # entries) w =
     (let first = replay_entry r entry (we_attempts entry) BASE_DELAY_MS w;
          rest = replay_entries r entries (snd first)
      in (fst first @ fst rest, snd rest))"

definition replay_wal :: "'b tier_router \<Rightarrow> 'b world \<Rightarrow> u64 list \<times> 'b world" where
  "replay_wal r w =
     (case on_db db_wal_pending w of
        (Inl e, w1) \<Rightarrow> ([], w1)
      | (Inr entries, w1) \<Rightarrow> if entries = [] then ([], w1) else replay_entries r entries w1)"

section \<open>Backoff\<close>

text \<open>The delay before retry \<open>k\<close> doubles from 500 ms up to 30 s; the doubling never wraps.\<close>

lemma unat_doubled:
  assumes "unat d \<le> 30000"
  shows "unat (min (d * 2) (30000 :: u64)) = min (unat d * 2) 30000"
proof -
  have "unat (d * 2) = unat d * 2"
    using assms by (subst unat_mult_lem [THEN iffD1]) auto
  then show ?thesis by (auto simp: min_def word_le_nat_alt)
qed

lemma capped_doubling: "min (min (a * 2) 30000 * 2 ^ k) 30000 = min (a * 2 ^ Suc k) (30000 :: nat)"
proof (cases "a * 2 \<le> 30000")
  case False
  moreover have "a * 2 \<le> a * 2 ^ Suc k" "30000 * 1 \<le> 30000 * (2 :: nat) ^ k"
    by (intro mult_le_mono; simp)+
  ultimately have "30000 \<le> a * 2 ^ Suc k" "min (a * 2) 30000 = 30000" by linarith+
  then show ?thesis by (simp add: min_absorb2 del: power_Suc)
qed (simp add: mult.assoc)

lemma replay_entry_delays:
  assumes "unat delay \<le> 30000" "fst (replay_entry r entry tries delay w) = ds"
  shows "length ds \<le> 10 - unat tries \<and>
    (\<forall>k < length ds. unat (ds ! k) = min (unat delay * 2 ^ k) 30000)"
proof -
  have "unat delay \<le> 30000 \<longrightarrow> (\<lambda>ds. length ds \<le> 10 - unat tries \<and>
    (\<forall>k < length ds. unat (ds ! k) = min (unat delay * 2 ^ k) 30000)) (fst (replay_entry r entry tries delay w))"
  proof (rule replay_entry_rule [where P = "\<lambda>tries delay w ds w'. unat delay \<le> 30000 \<longrightarrow>
        length ds \<le> 10 - unat tries \<and> (\<forall>k < length ds. unat (ds ! k) = min (unat delay * 2 ^ k) 30000)"])
    fix tries :: u32 and delay :: u64 and ds :: "u64 list"
    assume less: "\<not> MAX_ATTEMPTS \<le> tries" and
      IH: "unat (min (delay * 2) (30000 :: u64)) \<le> 30000 \<longrightarrow> length ds \<le> 10 - unat (tries + 1) \<and>
        (\<forall>k < length ds. unat (ds ! k) = min (unat (min (delay * 2) 30000) * 2 ^ k) 30000)"
    show "unat delay \<le> 30000 \<longrightarrow> length (delay # ds) \<le> 10 - unat tries \<and>
      (\<forall>k < length (delay # ds). unat ((delay # ds) ! k) = min (unat delay * 2 ^ k) 30000)"
    proof
      assume "unat delay \<le> 30000"
      then show "length (delay # ds) \<le> 10 - unat tries \<and>
        (\<forall>k < length (delay # ds). unat ((delay # ds) ! k) = min (unat delay * 2 ^ k) 30000)"
        using IH unat_attempt [OF less] unat_doubled [of delay] capped_doubling [of "unat delay"]
        by (auto simp: nth_Cons split: nat.splits simp del: power_Suc)
    qed
  qed auto
  with assms show ?thesis by simp
qed

section \<open>Replay keeps every current version\<close>

lemma ignoring_preserves: "\<lbrakk>preserves I m; I w\<rbrakk> \<Longrightarrow> I (ignoring m w)"
  by (simp add: ignoring_def preserves_def)

context tier_stack
begin

lemma copy_to_keeps:
  assumes run: "copy_to r t fetch m w = (res, w')" and w: "keeps sha q d w"
    and row: "row_of (wdb w) p = Some row" "m = row_to_metadata row"
    and fetch: "\<And>res1 w1 x. fetch w = (res1, w1) \<Longrightarrow> looks w w1 \<and> (res1 = Inr x \<longrightarrow> p = q \<longrightarrow> x = d)"
  shows "keeps sha q d w'"
proof -
  have wf: "db_wf (wdb w)" using w by (simp add: world_ok_def)
  have m: "fm_path m = p" "normal_path p"
    using fm_path_row_of [OF wf row(1)] row_of_normal [OF wf row(1)] row(2) by simp_all
  obtain r1 w1 where f: "fetch w = (r1, w1)" by fastforce
  have w1: "keeps sha q d w1" using fetch [OF f] w by (blast intro: same_world_holds)
  show ?thesis
  proof (cases r1)
    case (Inl e)
    with run f w1 show ?thesis by (auto simp: copy_to_def andThen_def)
  next
    case (Inr data)
    obtain r2 w2 where put: "on_store t (be_put (backend_of r t) p data) w1 = (r2, w2)" by fastforce
    have data: "p = q \<Longrightarrow> data = d" using fetch [OF f, of data] Inr by simp
    have w2: "keeps sha q d w2" using preservesD [OF put_keeps [OF m(2) data] w1 put] .
    note put_facts = put_run [OF put w1 [THEN conjunct1] m(2)]
    show ?thesis
    proof (cases r2)
      case (Inl e)
      with run f put Inr m w2 \<open>r1 = _\<close> show ?thesis by (auto simp: copy_to_def andThen_def)
    next
      case (Inr u)
      then have "on_db (db_set_tier_bitmask (fm_id m) (bm_set t (fm_tier_bitmask m))) w2 = (res, w')"
        using run f put m \<open>r1 = _\<close> by (auto simp: copy_to_def andThen_def)
      then obtain db where upd: "db_set_tier_bitmask (r_id row) (bm_set t (row_bm row)) (wdb w2) = (res, db)"
        and w': "w' = w2\<lparr>wdb := db\<rparr>" by (auto simp: on_db_run row(2))
      obtain row' where row': "row_of (wdb w1) p = Some row'" "same_file row row'"
        using same_world_row [OF _ row(1)] fetch [OF f] by blast
      then have row2: "row_of (wdb w2) p = Some row'" "r_id row = r_id row'" "row_bm row = row_bm row'"
        using put_facts(2) same_file_bm [OF row'(2)] by (auto simp: same_file_def)
      have copies: "p = q \<Longrightarrow> copy w2 t p = Some d" using put_facts(5) Inr data by auto
      show ?thesis unfolding w'
      proof (rule set_bitmask_keeps [OF _ row2(1) upd [unfolded row2(2)]])
        show "ok w2" "holds content sha w2 q d" "holds content sha w2 q d" using w2 by simp_all
        show "r_is_dir row' = 0 \<and> r_sha256 row' = sha d \<and>
            r_size_bytes row' = u64_as_i64 (of_nat (length d)) \<and>
            copies_ok (\<lambda>t. copy w2 t p) (bm_set t (row_bm row)) d" if "p = q"
          using w2 row2 that copies [OF that] by (auto simp: holds_def copies_ok_def)
      qed
    qed
  qed
qed

lemma replicate_nas_keeps:
  assumes run: "replicate_nas r m w = (res, w')" and w: "keeps sha q d w"
    and row: "row_of (wdb w) p = Some row" "m = row_to_metadata row"
  shows "keeps sha q d w'"
proof (rule copy_to_keeps [OF run [unfolded replicate_nas_def] w row])
  fix res1 w1 x
  have wf: "db_wf (wdb w)" using w by (simp add: world_ok_def)
  have m: "fm_path m = p" "normal_path p"
    using fm_path_row_of [OF wf row(1)] row_of_normal [OF wf row(1)] row(2) by simp_all
  assume "on_store Local (be_get (rt_local r) (fm_path m)) w = (res1, w1)"
  then have "on_store Local (be_get (backend_of r Local) p) w = (res1, w1)" by (simp add: m)
  from get_run [OF this w [THEN conjunct1] m(2)] w
  show "looks w w1 \<and> (res1 = Inr x \<longrightarrow> p = q \<longrightarrow> x = d)"
    by (auto simp: holds_def copies_ok_def)
qed

lemma upload_s3_keeps:
  assumes run: "upload_s3 r m w = (res, w')" and w: "keeps sha q d w"
    and row: "row_of (wdb w) p = Some row" "m = row_to_metadata row"
  shows "keeps sha q d w'"
proof (rule copy_to_keeps [OF run [unfolded upload_s3_def] w row])
  fix res1 w1 x
  have "fm_path m = p" using fm_path_row_of [of "wdb w" p row] w row by (simp add: world_ok_def)
  moreover assume "router_read r (fm_path m) w = (res1, w1)"
  ultimately show "looks w w1 \<and> (res1 = Inr x \<longrightarrow> p = q \<longrightarrow> x = d)"
    using read_run(1) [of p w res1 w1] read_current [of p w x w1] w by auto
qed

lemma on_db_keeps:
  assumes "preserves db_wf m" "\<And>d res d'. m d = (res, d') \<Longrightarrow> row_of d' = row_of d"
  shows "preserves (keeps sha q d) (on_db m)"
proof (rule preserves_on_db_I)
  fix w res db assume w: "keeps sha q d w" and run: "m (wdb w) = (res, db)"
  have "holds content sha (w\<lparr>wdb := db\<rparr>) q d"
    by (rule holds_row_copies [OF w [THEN conjunct2]]) (simp_all add: assms(2) [OF run])
  with world_ok_db [OF w [THEN conjunct1] assms(1) run] show "keeps sha q d (w\<lparr>wdb := db\<rparr>)" by simp
qed

lemma get_by_id_keeps: "preserves (keeps sha q d) (on_db (db_get_by_id i))"
  by (rule on_db_keeps [OF db_queries_wf(2)]) (rule same_tables_row_of [OF db_get_by_id_run(1)])

lemma wal_pending_keeps: "preserves (keeps sha q d) (on_db db_wal_pending)"
proof (rule on_db_keeps [OF db_queries_wf(6)])
  fix db res db' assume "db_wal_pending db = (res, db')"
  then show "row_of db' = row_of db"
    using query_run [of _ db res db'] by (simp add: db_wal_pending_def same_tables_row_of)
qed

lemma wal_update_keeps:
  "preserves (keeps sha q d) (on_db (db_wal_complete i))"
  "preserves (keeps sha q d) (on_db (db_wal_record_failure i e))"
  by (rule on_db_keeps, rule preserves_intros, erule wal_ops_row_of)+

lemma loaded_row:
  assumes "on_db (db_get_by_id i) w = (Inr (Some m), w1)" "keeps sha q d w"
  obtains p row where "keeps sha q d w1" "row_of (wdb w1) p = Some row" "m = row_to_metadata row"
proof -
  from assms obtain db where get: "db_get_by_id i (wdb w) = (Inr (Some m), db)" and w1: "w1 = w\<lparr>wdb := db\<rparr>"
    by (auto simp: on_db_run)
  moreover have "db_wf (wdb w)" using assms(2) by (simp add: world_ok_def)
  ultimately obtain p row where "row_of (wdb w) p = Some row" "m = row_to_metadata row"
    by (metis db_get_by_id_Some)
  with w1 db_get_by_id_run(1) [OF get] have "row_of (wdb w1) p = Some row"
    by (simp add: same_tables_row_of)
  with preservesD [OF get_by_id_keeps assms(2,1)] \<open>m = _\<close> that show ?thesis by blast
qed

lemma replay_op_keeps:
  "\<lbrakk>replay_op r op m w = (res, w'); keeps sha q d w; row_of (wdb w) p = Some row; m = row_to_metadata row\<rbrakk>
   \<Longrightarrow> keeps sha q d w'"
  by (cases op) (auto simp: replay_op_def dest: replicate_nas_keeps upload_s3_keeps)

lemma replay_entry_keeps:
  assumes "keeps sha q d w"
  shows "keeps sha q d (snd (replay_entry r entry tries delay w))"
proof -
  have "keeps sha q d w \<longrightarrow> keeps sha q d (snd (replay_entry r entry tries delay w))"
  proof (rule replay_entry_rule [where P = "\<lambda>_ _ w _ w'. keeps sha q d w \<longrightarrow> keeps sha q d w'"])
    fix tries :: u32 and delay :: u64 and w w1 e w2 w' m
    show "on_db (db_get_by_id (we_file_id entry)) w = (Inl e, w1) \<Longrightarrow> keeps sha q d w \<longrightarrow> keeps sha q d w1"
      using preservesD [OF get_by_id_keeps] by blast
    show "on_db (db_get_by_id (we_file_id entry)) w = (Inr None, w1) \<Longrightarrow> keeps sha q d w \<longrightarrow>
        keeps sha q d (ignoring (on_db (db_wal_complete (we_id entry))) w1)"
      using preservesD [OF get_by_id_keeps] ignoring_preserves [OF wal_update_keeps(1)] by blast
    show "\<lbrakk>on_db (db_get_by_id (we_file_id entry)) w = (Inr (Some m), w1);
        replay_op r (we_op entry) m w1 = (Inr (), w2)\<rbrakk> \<Longrightarrow> keeps sha q d w \<longrightarrow>
        keeps sha q d (ignoring (on_db (db_wal_complete (we_id entry))) w2)"
      by (rule impI, erule loaded_row, assumption, rule ignoring_preserves [OF wal_update_keeps(1)],
          rule replay_op_keeps)
    show "\<lbrakk>on_db (db_get_by_id (we_file_id entry)) w = (Inr (Some m), w1);
        replay_op r (we_op entry) m w1 = (Inl e, w2);
        keeps sha q d (ignoring (on_db (db_wal_record_failure (we_id entry) (display_error e))) w2) \<longrightarrow>
        keeps sha q d w'\<rbrakk> \<Longrightarrow> keeps sha q d w \<longrightarrow> keeps sha q d w'"
      by (rule impI, erule loaded_row, assumption, erule mp, rule ignoring_preserves [OF wal_update_keeps(2)],
          rule replay_op_keeps)
  qed simp
  with assms show ?thesis by simp
qed

lemma replay_entries_keeps: "keeps sha q d w \<Longrightarrow> keeps sha q d (snd (replay_entries r es w))"
proof (induction es arbitrary: w)
  case (Cons e es)
  show ?case using Cons.IH [OF replay_entry_keeps [OF Cons.prems]] by (simp add: Let_def)
qed simp

lemma replay_wal_keeps:
  assumes w: "keeps sha q d w"
  shows "keeps sha q d (snd (replay_wal r w))"
proof -
  obtain r1 w1 where get: "on_db db_wal_pending w = (r1, w1)" by fastforce
  note w1 = preservesD [OF wal_pending_keeps w get]
  show ?thesis
    using w1 replay_entries_keeps [OF w1] get by (cases r1) (simp_all add: replay_wal_def)
qed

text \<open>The same runs keep the world well-formed.\<close>

lemma copy_to_ok:
  assumes "normal_path (fm_path m)" "preserves ok fetch"
  shows "preserves ok (copy_to r t fetch m)"
  unfolding copy_to_def using assms by (auto intro!: preserves_intros store_ok)

lemma replay_op_ok: "normal_path (fm_path m) \<Longrightarrow> preserves ok (replay_op r op m)"
  using store_ok(2) [of "fm_path m" Local]
  by (cases op) (auto simp: replay_op_def replicate_nas_def upload_s3_def
      intro!: copy_to_ok read_preserves_ok)

lemma loaded_normal:
  assumes "on_db (db_get_by_id i) w = (Inr (Some m), w1)" "ok w"
  shows "normal_path (fm_path m)" "ok w1"
proof -
  from assms obtain db where get: "db_get_by_id i (wdb w) = (Inr (Some m), db)"
    by (auto simp: on_db_run)
  have wf: "db_wf (wdb w)" using assms(2) by (simp add: world_ok_def)
  from db_get_by_id_Some [OF wf get] show "normal_path (fm_path m)"
    by (metis row_of_normal [OF wf])
  show "ok w1" using preservesD [OF preserves_on_db [OF db_queries_wf(2)] assms(2,1)] .
qed

lemma replay_entry_ok:
  assumes "ok w"
  shows "ok (snd (replay_entry r entry tries delay w))"
proof -
  have "ok w \<longrightarrow> ok (snd (replay_entry r entry tries delay w))"
  proof (rule replay_entry_rule [where P = "\<lambda>_ _ w _ w'. ok w \<longrightarrow> ok w'"])
    fix tries :: u32 and delay :: u64 and w w1 e w2 w' m
    note load = preservesD [OF preserves_on_db [OF db_queries_wf(2)], of tinv w]
    note closing = ignoring_preserves [OF preserves_on_db [OF db_wal_complete_wf]]
      ignoring_preserves [OF preserves_on_db [OF db_wal_record_failure_wf]]
    show "on_db (db_get_by_id (we_file_id entry)) w = (Inl e, w1) \<Longrightarrow> ok w \<longrightarrow> ok w1"
      using load by blast
    show "on_db (db_get_by_id (we_file_id entry)) w = (Inr None, w1) \<Longrightarrow> ok w \<longrightarrow>
        ok (ignoring (on_db (db_wal_complete (we_id entry))) w1)"
      using load closing(1) by blast
    show "\<lbrakk>on_db (db_get_by_id (we_file_id entry)) w = (Inr (Some m), w1);
        replay_op r (we_op entry) m w1 = (Inr (), w2)\<rbrakk> \<Longrightarrow> ok w \<longrightarrow>
        ok (ignoring (on_db (db_wal_complete (we_id entry))) w2)"
      using loaded_normal preservesD [OF replay_op_ok] closing(1) by metis
    show "\<lbrakk>on_db (db_get_by_id (we_file_id entry)) w = (Inr (Some m), w1);
        replay_op r (we_op entry) m w1 = (Inl e, w2);
        ok (ignoring (on_db (db_wal_record_failure (we_id entry) (display_error e))) w2) \<longrightarrow> ok w'\<rbrakk>
        \<Longrightarrow> ok w \<longrightarrow> ok w'"
      using loaded_normal preservesD [OF replay_op_ok] closing(2) by metis
  qed simp
  with assms show ?thesis by simp
qed

lemma replay_entries_ok: "ok w \<Longrightarrow> ok (snd (replay_entries r es w))"
  by (induction es arbitrary: w) (simp_all add: Let_def replay_entry_ok)

lemma replay_wal_ok:
  assumes "ok w"
  shows "ok (snd (replay_wal r w))"
proof -
  obtain r1 w1 where get: "on_db db_wal_pending w = (r1, w1)" by fastforce
  have "ok w1" using preservesD [OF preserves_on_db [OF db_queries_wf(6)] assms get] .
  then show ?thesis using get by (cases r1) (simp_all add: replay_wal_def replay_entries_ok)
qed

end

text \<open>
  C34: replaying a WAL entry ends after at most 10 attempts counted from the recorded ones, whatever
  fails; the waits between them start at 500 ms, double, and never exceed 30 s.
\<close>

theorem replay_backoff:
  "let ds = fst (replay_entry r entry tries BASE_DELAY_MS w) in
   length ds \<le> 10 - unat tries \<and> map unat ds = map (\<lambda>k. min (500 * 2 ^ k) 30000) [0..<length ds]"
  using replay_entry_delays [of BASE_DELAY_MS r entry tries w, OF _ refl]
  by (auto simp: Let_def intro!: nth_equalityI)

end
