(* ===== verification/S3_Uploader.thy ===== *)
theory S3_Uploader
  imports Wal_Replay
begin

text \<open>
  The S3 uploader (\<open>fvfsd/src/s3_uploader.rs\<close>). \<open>run_s3_uploader\<close> waits for its interval
  or for a flush request and then runs \<open>flush_pending\<close>; \<open>flush_size_bytes\<close> reaches
  \<open>flush_pending\<close> but is not used there. A flush tries each pending upload once: a success
  removes the WAL entry, a failure is recorded in it and the entry waits for the next flush.
\<close>

definition flush_entry :: "'b tier_router \<Rightarrow> wal_entry \<Rightarrow> 'b world \<Rightarrow> 'b world" where
  "flush_entry r entry w =
     (case on_db (db_get_by_id (we_file_id entry)) w of
        (Inl e, w1) \<Rightarrow> w1
      | (Inr None, w1) \<Rightarrow> ignoring (on_db (db_wal_complete (we_id entry))) w1
      | (Inr (Some file_meta), w1) \<Rightarrow>
          (case upload_s3 r file_meta w1 of
             (Inr _, w2) \<Rightarrow> ignoring (on_db (db_wal_complete (we_id entry))) w2
           | (Inl e, w2) \<Rightarrow>
               ignoring (on_db (db_wal_record_failure (we_id entry) (display_error e))) w2))"

definition to_flush :: "wal_entry \<Rightarrow> bool" where
  "to_flush e \<longleftrightarrow> we_op e = UploadS3 \<and> we_attempts e < MAX_ATTEMPTS"

definition flush_pending :: "'b tier_router \<Rightarrow> u64 \<Rightarrow> 'b world \<Rightarrow> 'b world" where
  "flush_pending r flush_size_bytes w =
     (case on_db db_wal_pending w of
        (Inl e, w1) \<Rightarrow> w1
      | (Inr entries, w1) \<Rightarrow> fold (flush_entry r) (filter to_flush entries) w1)"

section \<open>Flushing keeps every current version\<close>

context tier_stack
begin

lemma flush_entry_keeps:
  assumes w: "keeps sha q d w"
  shows "keeps sha q d (flush_entry r entry w)"
proof -
  obtain r1 w1 where get: "on_db (db_get_by_id (we_file_id entry)) w = (r1, w1)" by fastforce
  note w1 = preservesD [OF get_by_id_keeps w get]
  note closing = ignoring_preserves [OF wal_update_keeps(1)] ignoring_preserves [OF wal_update_keeps(2)]
  show ?thesis
  proof (cases "\<exists>m. r1 = Inr (Some m)")
    case False
    with get w1 closing(1) [OF w1] show ?thesis
      by (auto simp: flush_entry_def split: sum.splits option.splits)
  next
    case True
    then obtain m where m: "r1 = Inr (Some m)" by blast
    obtain r2 w2 where up: "upload_s3 r m w1 = (r2, w2)" by fastforce
    from get [unfolded m] w obtain p row where "row_of (wdb w1) p = Some row" "m = row_to_metadata row"
      by (rule loaded_row)
    from upload_s3_keeps [OF up w1 this] have w2: "keeps sha q d w2" .
    show ?thesis
      using get m up closing(1) [OF w2] closing(2) [OF w2]
      by (cases r2) (simp_all add: flush_entry_def)
  qed
qed

lemma fold_flush_keeps: "keeps sha q d w \<Longrightarrow> keeps sha q d (fold (flush_entry r) es w)"
proof (induction es arbitrary: w)
  case (Cons e es)
  show ?case using Cons.IH [OF flush_entry_keeps [OF Cons.prems]] by simp
qed simp

lemma flush_pending_keeps:
  assumes w: "keeps sha q d w"
  shows "keeps sha q d (flush_pending r n w)"
proof -
  obtain r1 w1 where get: "on_db db_wal_pending w = (r1, w1)" by fastforce
  note w1 = preservesD [OF wal_pending_keeps w get]
  show ?thesis
    using w1 fold_flush_keeps [OF w1] get by (cases r1) (simp_all add: flush_pending_def)
qed

lemma flush_entry_ok:
  assumes w: "ok w"
  shows "ok (flush_entry r entry w)"
proof -
  obtain r1 w1 where get: "on_db (db_get_by_id (we_file_id entry)) w = (r1, w1)" by fastforce
  have w1: "ok w1" using preservesD [OF preserves_on_db [OF db_queries_wf(2)] w get] .
  note closing = ignoring_preserves [OF preserves_on_db [OF db_wal_complete_wf]]
    ignoring_preserves [OF preserves_on_db [OF db_wal_record_failure_wf]]
  show ?thesis
  proof (cases "\<exists>m. r1 = Inr (Some m)")
    case False
    with get w1 closing(1) [OF w1] show ?thesis
      by (auto simp: flush_entry_def split: sum.splits option.splits)
  next
    case True
    then obtain m where m: "r1 = Inr (Some m)" by blast
    obtain r2 w2 where up: "upload_s3 r m w1 = (r2, w2)" by fastforce
    have "normal_path (fm_path m)" using loaded_normal(1) [OF get [unfolded m] w] .
    then have "preserves ok (upload_s3 r m)"
      unfolding upload_s3_def by (intro copy_to_ok read_preserves_ok)
    from preservesD [OF this w1 up] have w2: "ok w2" .
    show ?thesis
      using get m up closing(1) [OF w2] closing(2) [OF w2]
      by (cases r2) (simp_all add: flush_entry_def)
  qed
qed

lemma flush_pending_ok:
  assumes w: "ok w"
  shows "ok (flush_pending r n w)"
proof -
  obtain r1 w1 where get: "on_db db_wal_pending w = (r1, w1)" by fastforce
  have w1: "ok w1" using preservesD [OF preserves_on_db [OF db_queries_wf(6)] w get] .
  have "ok w \<Longrightarrow> ok (fold (flush_entry r) es w)" for es w
    by (induction es arbitrary: w) (simp_all add: flush_entry_ok)
  with w1 get show ?thesis by (cases r1) (simp_all add: flush_pending_def)
qed

end

end
