(* ===== verification/Fs_Tree.thy ===== *)
theory Fs_Tree
  imports Fvfs_Error "HOL-Library.AList"
begin

text \<open>
  The part of \<open>std::fs\<close> (and \<open>tokio::fs\<close>, which runs the same calls on a thread pool) that
  the sources use, on a tree of files and directories. A directory lists its entries in the order
  in which \<open>read_dir\<close> returns them. Paths are lists of names below the root of the tree.

  A call may also fail for a reason outside the tree (no space, I/O error, no permission): a disk
  carries a schedule \<open>io_fault\<close> that says which call fails, and \<open>torn\<close>, the number of bytes
  that a failing \<open>write_all\<close> has written before it fails. Both are arbitrary in every theorem.
  Symbolic links, hard links and concurrent changes by other programs are outside the model.
\<close>

section \<open>Trees\<close>

datatype fs_node = FileNode bytes i64 | DirNode "(string \<times> fs_node) list"

fun fs_lookup :: "fs_node \<Rightarrow> string list \<Rightarrow> fs_node option" where
  "fs_lookup n [] = Some n"
| "fs_lookup (FileNode b m) (x # xs) = None"
| "fs_lookup (DirNode es) (x # xs) =
     (case map_of es x of None \<Rightarrow> None | Some n \<Rightarrow> fs_lookup n xs)"

text \<open>Replace, add or remove the entry at a path; nothing happens if its directory is missing.\<close>

fun fs_update :: "fs_node \<Rightarrow> string list \<Rightarrow> fs_node option \<Rightarrow> fs_node" where
  "fs_update n [] v = (case v of Some m \<Rightarrow> m | None \<Rightarrow> n)"
| "fs_update (FileNode b m) (x # xs) v = FileNode b m"
| "fs_update (DirNode es) [x] v =
     DirNode (case v of Some m \<Rightarrow> AList.update x m es | None \<Rightarrow> AList.delete x es)"
| "fs_update (DirNode es) (x # y # ys) v =
     (case map_of es x of
        None \<Rightarrow> DirNode es
      | Some n \<Rightarrow> DirNode (AList.update x (fs_update n (y # ys) v) es))"

text \<open>\<open>create_dir_all\<close>: every missing directory on the way is created.\<close>

fun mkdirs :: "fs_node \<Rightarrow> string list \<Rightarrow> io_error + fs_node" where
  "mkdirs (FileNode b m) [] = Inl (IoError IoAlreadyExists ''File exists'')"
| "mkdirs (FileNode b m) (x # xs) = Inl (IoError IoNotADirectory ''Not a directory'')"
| "mkdirs (DirNode es) [] = Inr (DirNode es)"
| "mkdirs (DirNode es) (x # xs) =
     (case mkdirs (case map_of es x of Some n \<Rightarrow> n | None \<Rightarrow> DirNode []) xs of
        Inl e \<Rightarrow> Inl e
      | Inr m \<Rightarrow> Inr (DirNode (AList.update x m es)))"

text \<open>Whether a file stands where the path needs a directory.\<close>

fun path_blocked :: "fs_node \<Rightarrow> string list \<Rightarrow> bool" where
  "path_blocked n [] = False"
| "path_blocked (FileNode b m) (x # xs) = True"
| "path_blocked (DirNode es) (x # xs) =
     (case map_of es x of None \<Rightarrow> False | Some n \<Rightarrow> path_blocked n xs)"

definition missing_error :: "fs_node \<Rightarrow> string list \<Rightarrow> io_error" where
  "missing_error t p =
     (if path_blocked t p then IoError IoNotADirectory ''Not a directory''
      else IoError IoNotFound ''No such file or directory'')"

definition is_a_directory :: io_error where
  "is_a_directory = IoError IoIsADirectory ''Is a directory''"

section \<open>Disks and calls\<close>

datatype fs_call = CreateDirAll | CreateFile | WriteAll | Flush | ReadFile | RemoveFile | Stat | ReadDir

record disk =
  tree :: fs_node
  io_fault :: "nat \<Rightarrow> fs_call \<Rightarrow> io_error option"
  torn :: "nat \<Rightarrow> nat"
  fs_time :: "nat \<Rightarrow> i64"
  dir_len :: u64
  calls :: nat

definition empty_disk :: disk where
  "empty_disk =
     \<lparr> tree = DirNode [], io_fault = (\<lambda>_ _. None), torn = (\<lambda>_. 0), fs_time = (\<lambda>_. 0),
       dir_len = 4096, calls = 0 \<rparr>"

definition syscall :: "fs_call \<Rightarrow> (disk \<Rightarrow> io_error + 'a \<times> disk) \<Rightarrow> (disk, io_error, 'a) op" where
  "syscall c f d =
     (let d' = d\<lparr>calls := Suc (calls d)\<rparr>
      in case io_fault d (calls d) c of
           Some e \<Rightarrow> (Inl e, d')
         | None \<Rightarrow> (case f d' of Inl e \<Rightarrow> (Inl e, d') | Inr (a, d'') \<Rightarrow> (Inr a, d'')))"

definition fs_create_dir_all :: "string list \<Rightarrow> (disk, io_error, unit) op" where
  "fs_create_dir_all p =
     syscall CreateDirAll (\<lambda>d. case mkdirs (tree d) p of
        Inl e \<Rightarrow> Inl e | Inr t \<Rightarrow> Inr ((), d\<lparr>tree := t\<rparr>))"

definition set_file :: "string list \<Rightarrow> bytes \<Rightarrow> disk \<Rightarrow> disk" where
  "set_file p b d = d\<lparr>tree := fs_update (tree d) p (Some (FileNode b (fs_time d (calls d))))\<rparr>"

text \<open>\<open>File::create\<close> makes an empty file or truncates the one that is there.\<close>

definition fs_create :: "string list \<Rightarrow> (disk, io_error, unit) op" where
  "fs_create p =
     syscall CreateFile (\<lambda>d.
       case fs_lookup (tree d) p of
         Some (DirNode _) \<Rightarrow> Inl is_a_directory
       | Some (FileNode _ _) \<Rightarrow> Inr ((), set_file p [] d)
       | None \<Rightarrow> (case fs_lookup (tree d) (butlast p) of
                    Some (DirNode _) \<Rightarrow> Inr ((), set_file p [] d)
                  | _ \<Rightarrow> Inl (missing_error (tree d) p)))"

definition fs_write_all :: "string list \<Rightarrow> bytes \<Rightarrow> (disk, io_error, unit) op" where
  "fs_write_all p b d =
     (let d' = d\<lparr>calls := Suc (calls d)\<rparr>
      in case io_fault d (calls d) WriteAll of
           Some e \<Rightarrow> (Inl e, set_file p (take (torn d (calls d)) b) d')
         | None \<Rightarrow> (Inr (), set_file p b d'))"

definition fs_flush :: "(disk, io_error, unit) op" where
  "fs_flush = syscall Flush (\<lambda>d. Inr ((), d))"

definition fs_read :: "string list \<Rightarrow> (disk, io_error, bytes) op" where
  "fs_read p =
     syscall ReadFile (\<lambda>d. case fs_lookup (tree d) p of
        Some (FileNode b _) \<Rightarrow> Inr (b, d)
      | Some (DirNode _) \<Rightarrow> Inl is_a_directory
      | None \<Rightarrow> Inl (missing_error (tree d) p))"

definition fs_remove_file :: "string list \<Rightarrow> (disk, io_error, unit) op" where
  "fs_remove_file p =
     syscall RemoveFile (\<lambda>d. case fs_lookup (tree d) p of
        Some (FileNode _ _) \<Rightarrow> Inr ((), d\<lparr>tree := fs_update (tree d) p None\<rparr>)
      | Some (DirNode _) \<Rightarrow> Inl is_a_directory
      | None \<Rightarrow> Inl (missing_error (tree d) p))"

text \<open>\<open>Path::exists\<close> answers false when the call fails.\<close>

definition fs_exists :: "string list \<Rightarrow> (disk, 'e, bool) op" where
  "fs_exists p d =
     (case syscall Stat (\<lambda>d. Inr (fs_lookup (tree d) p \<noteq> None, d)) d of
        (Inl _, d') \<Rightarrow> (Inr False, d') | (Inr b, d') \<Rightarrow> (Inr b, d'))"

definition fs_metadata :: "string list \<Rightarrow> (disk, io_error, fs_node) op" where
  "fs_metadata p =
     syscall Stat (\<lambda>d. case fs_lookup (tree d) p of
        Some n \<Rightarrow> Inr (n, d) | None \<Rightarrow> Inl (missing_error (tree d) p))"

section \<open>Laws\<close>

definition file_at :: "fs_node \<Rightarrow> string list \<Rightarrow> bytes option" where
  "file_at t p = (case fs_lookup t p of Some (FileNode b _) \<Rightarrow> Some b | _ \<Rightarrow> None)"

definition dir_at :: "fs_node \<Rightarrow> string list \<Rightarrow> bool" where
  "dir_at t p \<longleftrightarrow> (\<exists>es. fs_lookup t p = Some (DirNode es))"

lemma file_at_simps [simp]:
  "file_at (FileNode b m) (x # xs) = None" "file_at (FileNode b m) [] = Some b"
  "file_at (DirNode es) [] = None"
  "file_at (DirNode es) (x # xs) = (case map_of es x of None \<Rightarrow> None | Some n \<Rightarrow> file_at n xs)"
  by (simp_all add: file_at_def split: option.splits)

lemma dir_at_simps [simp]:
  "\<not> dir_at (FileNode b m) p" "dir_at (DirNode es) []"
  "dir_at (DirNode es) (x # xs) \<longleftrightarrow> (case map_of es x of None \<Rightarrow> False | Some n \<Rightarrow> dir_at n xs)"
  by (cases p, auto simp: dir_at_def split: option.splits)

lemma file_below_file [simp]:
  "\<not> dir_at n [] \<Longrightarrow> file_at n (x # xs) = None" "file_at n [] = Some b \<Longrightarrow> file_at n (x # xs) = None"
  by (cases n; simp)+

lemma file_at_empty_dir [simp]: "file_at (DirNode []) p = None"
  by (cases p) simp_all

lemma file_at_update_file:
  assumes "p \<noteq> []" "dir_at t (butlast p)" "\<not> dir_at t p"
  shows "file_at (fs_update t p (Some (FileNode b m))) q = (if q = p then Some b else file_at t q)"
  using assms
proof (induction t p "Some (FileNode b m)" arbitrary: q rule: fs_update.induct)
  case (3 es x)
  then show ?case
    by (cases q) (auto simp: update_conv' neq_Nil_conv split: option.splits fs_node.splits
        elim!: fs_lookup.elims)
next
  case (4 es x y ys)
  then show ?case
    by (cases q) (auto simp: update_conv' split: option.splits)
qed simp_all

lemma file_at_update_None:
  assumes "p \<noteq> []" "file_at t p \<noteq> None"
  shows "file_at (fs_update t p None) q = (if q = p then None else file_at t q)"
  using assms
proof (induction t p "None :: fs_node option" arbitrary: q rule: fs_update.induct)
  case (3 es x)
  then show ?case
    by (cases q) (auto simp: delete_conv' neq_Nil_conv split: option.splits)
next
  case (4 es x y ys)
  then show ?case
    by (cases q) (auto simp: update_conv' split: option.splits)
qed simp_all

lemma mkdirs_dir_at: "mkdirs t p = Inr t' \<Longrightarrow> dir_at t' p"
  by (induction t p arbitrary: t' rule: mkdirs.induct) (auto simp: update_conv' split: sum.splits)

lemma mkdirs_file_at: "mkdirs t p = Inr t' \<Longrightarrow> file_at t' q = file_at t q"
proof (induction t p arbitrary: t' q rule: mkdirs.induct)
  case (4 es x xs)
  then show ?case
    by (cases q) (auto simp: update_conv' split: sum.splits option.splits)
qed simp_all

lemma fs_update_root_dir: "\<lbrakk>p \<noteq> []; dir_at t []\<rbrakk> \<Longrightarrow> dir_at (fs_update t p v) []"
  by (induction t p v rule: fs_update.induct) (auto split: option.splits)

lemma mkdirs_root_dir: "\<lbrakk>mkdirs t p = Inr t'; dir_at t []\<rbrakk> \<Longrightarrow> dir_at t' []"
  by (induction t p rule: mkdirs.induct) (auto split: sum.splits)

lemma not_dir_at_file: "file_at t p = Some b \<Longrightarrow> \<not> dir_at t p"
  by (auto simp: file_at_def dir_at_def split: option.splits fs_node.splits)

lemma dir_at_update_file:
  assumes "p \<noteq> []" "dir_at t (butlast p)"
  shows "dir_at (fs_update t p (Some (FileNode b m))) (butlast p)"
    and "\<not> dir_at (fs_update t p (Some (FileNode b m))) p"
  using assms
  by (induction t p "Some (FileNode b m)" rule: fs_update.induct)
    (auto simp: update_conv' split: option.splits)

lemma dir_at_butlast: "dir_at t p \<Longrightarrow> dir_at t (butlast p)"
proof (induction t p rule: fs_lookup.induct)
  case (3 es x xs)
  then show ?case by (cases xs) (auto split: option.splits)
qed auto

lemma file_at_parent: "\<lbrakk>p \<noteq> []; file_at t p = Some b\<rbrakk> \<Longrightarrow> dir_at t (butlast p)"
proof (induction t p rule: fs_lookup.induct)
  case (3 es x xs)
  then show ?case by (cases xs) (auto split: option.splits)
qed auto

end
