(* ===== verification/Local_Disk.thy ===== *)
theory Local_Disk
  imports Storage_Backend Fs_Tree
begin

text \<open>
  \<open>LocalDiskBackend\<close> (\<open>fvfs-core/src/backend/local.rs\<close>) and the NAS backend, which is the same
  code at another mount point (\<open>nas.rs\<close>). The state is the disk; the backend's root is a list of
  names. The three interpretations at the end discharge the backend contract for this code:
  the plain contract always, the atomic one for disks on which no \<open>write_all\<close>
  fails half-way, the live one for disks without failures.
\<close>

record local_disk =
  lb_root :: "string list"
  lb_tier :: tier

definition local_disk_new :: "string list \<Rightarrow> tier \<Rightarrow> local_disk" where
  "local_disk_new root t = \<lparr> lb_root = root, lb_tier = t \<rparr>"

definition new_nas_backend :: "string list \<Rightarrow> local_disk" where
  "new_nas_backend root = local_disk_new root Nas"

text \<open>\<open>root.join(rel)\<close>, as the names the operating system resolves.\<close>

definition fs_path :: "local_disk \<Rightarrow> fvfs_path \<Rightarrow> string list" where
  "fs_path lb p =
     lb_root lb @ filter (\<lambda>w. w \<noteq> []) (split_on slash (trim_start_matches slash (as_str p)))"

definition lb_put :: "local_disk \<Rightarrow> fvfs_path \<Rightarrow> bytes \<Rightarrow> (disk, fvfs_error, unit) op" where
  "lb_put lb path data =
     (let fp = fs_path lb path
      in map_errR Io
           (andThen (if fp \<noteq> [] then fs_create_dir_all (butlast fp) else okR ()) (\<lambda>_.
            andThen (fs_create fp) (\<lambda>_.
            andThen (fs_write_all fp data) (\<lambda>_.
            fs_flush)))))"

definition not_found_or_io :: "fvfs_path \<Rightarrow> io_error \<Rightarrow> fvfs_error" where
  "not_found_or_io path e = (if io_kind_of e = IoNotFound then NotFound (as_str path) else Io e)"

definition lb_get :: "local_disk \<Rightarrow> fvfs_path \<Rightarrow> (disk, fvfs_error, bytes) op" where
  "lb_get lb path = map_errR (not_found_or_io path) (fs_read (fs_path lb path))"

definition lb_delete :: "local_disk \<Rightarrow> fvfs_path \<Rightarrow> (disk, fvfs_error, unit) op" where
  "lb_delete lb path = map_errR (not_found_or_io path) (fs_remove_file (fs_path lb path))"

definition lb_exists :: "local_disk \<Rightarrow> fvfs_path \<Rightarrow> (disk, fvfs_error, bool) op" where
  "lb_exists lb path = fs_exists (fs_path lb path)"

text \<open>
  The modification time in seconds; 0 before the epoch. For a directory the operating system
  reports some reading of its clock, and a length of its own.
\<close>

definition mtime_secs :: "disk \<Rightarrow> fs_node \<Rightarrow> i64" where
  "mtime_secs d n = (case n of FileNode _ m \<Rightarrow> max 0 m | DirNode _ \<Rightarrow> max 0 (fs_time d (calls d)))"

definition node_kind :: "fs_node \<Rightarrow> entry_kind" where
  "node_kind n = (case n of DirNode _ \<Rightarrow> Directory | FileNode _ _ \<Rightarrow> File)"

definition node_len :: "disk \<Rightarrow> fs_node \<Rightarrow> u64" where
  "node_len d n = (case n of FileNode b _ \<Rightarrow> of_nat (length b) | DirNode _ \<Rightarrow> dir_len d)"

definition lb_metadata :: "local_disk \<Rightarrow> fvfs_path \<Rightarrow> (disk, fvfs_error, file_entry) op" where
  "lb_metadata lb path =
     andThen (map_errR (not_found_or_io path) (fs_metadata (fs_path lb path))) (\<lambda>n.
     getR (\<lambda>d. \<lparr> fe_path = path, fe_kind = node_kind n, fe_size_bytes = node_len d n,
                 fe_modified_at = mtime_secs d n,
                 fe_tier_bitmask = bm_set (lb_tier lb) bm_NONE \<rparr>))"

text \<open>\<open>collect_entries\<close>: \<open>rel\<close> is the directory relative to the root.\<close>

definition listed_path :: "string list \<Rightarrow> fvfs_path" where
  "listed_path rel =
     (case path_new (''/'' @ replace_char (CHR 0x5C) ''/'' (join_with ''/'' rel)) of
        Inr p \<Rightarrow> p | Inl _ \<Rightarrow> FvfsPath ''/unknown'')"

function (sequential) collect_entries ::
    "string list \<Rightarrow> (string \<times> fs_node) list \<Rightarrow> (disk, io_error, file_entry list) op" where
  "collect_entries rel [] = okR []"
| "collect_entries rel ((x, n) # es) =
     andThen (syscall Stat (\<lambda>d. Inr ((), d))) (\<lambda>_.
     andThen (getR (\<lambda>d. \<lparr> fe_path = listed_path (rel @ [x]), fe_kind = node_kind n,
                          fe_size_bytes = node_len d n, fe_modified_at = mtime_secs d n,
                          fe_tier_bitmask = bm_NONE \<rparr>)) (\<lambda>entry.
     andThen (case n of
                DirNode cs \<Rightarrow> andThen (syscall ReadDir (\<lambda>d. Inr ((), d))) (\<lambda>_.
                                collect_entries (rel @ [x]) cs)
              | FileNode _ _ \<Rightarrow> okR []) (\<lambda>below.
     andThen (collect_entries rel es) (\<lambda>rest.
     okR (entry # below @ rest)))))"
  by pat_completeness auto
termination
  by (relation "measure (\<lambda>(rel, es). size_list (size_prod (\<lambda>_. 0) size) es)") auto

definition lb_list :: "local_disk \<Rightarrow> fvfs_path \<Rightarrow> (disk, fvfs_error, file_entry list) op" where
  "lb_list lb prefix_path =
     (let dir_path = fs_path lb prefix_path
      in andThen (fs_exists dir_path) (\<lambda>there.
         if \<not> there then okR []
         else map_errR Io
           (andThen (syscall ReadDir (\<lambda>d. case fs_lookup (tree d) dir_path of
                       Some (DirNode es) \<Rightarrow> Inr (es, d)
                     | Some (FileNode _ _) \<Rightarrow> Inl (IoError IoNotADirectory ''Not a directory'')
                     | None \<Rightarrow> Inl (missing_error (tree d) dir_path))) (\<lambda>es.
            collect_entries (drop (length (lb_root lb)) dir_path) es))))"

definition local_backend :: "local_disk \<Rightarrow> disk backend" where
  "local_backend lb =
     \<lparr> be_put = lb_put lb, be_get = lb_get lb, be_delete = lb_delete lb, be_exists = lb_exists lb,
       be_list = (\<lambda>p d. Some (lb_list lb p d)), be_metadata = lb_metadata lb, be_tier = lb_tier lb \<rparr>"

section \<open>Confinement\<close>

lemma trim_start_of_segs:
  assumes "list_all proper_seg ws"
  shows "trim_start_matches slash (as_str (of_segs ws)) = join_with ''/'' ws"
proof (cases "ws = []")
  case False
  then have hd: "hd ws \<noteq> []" "slash \<notin> set (hd ws)"
    using assms by (cases ws; simp add: proper_seg_def)+
  have ne: "join_with ''/'' ws \<noteq> []"
    using join_with_eq_Nil [of ws "''/''"] assms False by (auto simp: list_all_iff proper_seg_def)
  have "hd (join_with ''/'' ws) = hd (hd ws)" using hd_join_with [OF False hd(1)] by simp
  with hd have "hd (join_with ''/'' ws) \<noteq> slash" by (metis hd_in_set)
  with ne False show ?thesis
    by (cases "join_with ''/'' ws") (auto simp: trim_start_matches_def of_segs_def)
qed (simp add: of_segs_def trim_start_matches_def)

lemma fs_path_normal:
  assumes "normal_path p"
  shows "fs_path lb p = lb_root lb @ segs p"
proof (rule normal_pathE [OF assms])
  fix ws assume p: "p = of_segs ws" and ws: "list_all proper_seg ws" and s: "segs p = ws"
  show ?thesis
  proof (cases "ws = []")
    case True
    with p s show ?thesis by (simp add: fs_path_def of_segs_def trim_start_matches_def)
  next
    case False
    have "\<forall>w\<in>set ws. slash \<notin> set w" "filter (\<lambda>w. w \<noteq> []) ws = ws"
      using ws by (auto simp: list_all_iff proper_seg_def intro: filter_True)
    with False show ?thesis
      using split_on_join [OF False] p s ws by (simp add: fs_path_def trim_start_of_segs)
  qed
qed

section \<open>The contract\<close>

definition disk_content :: "local_disk \<Rightarrow> disk \<Rightarrow> fvfs_path \<Rightarrow> bytes option" where
  "disk_content lb d p = (if normal_path p then file_at (tree d) (lb_root lb @ segs p) else None)"

definition disk_ok :: "disk \<Rightarrow> bool" where
  "disk_ok d \<longleftrightarrow> dir_at (tree d) []"

definition no_torn :: "disk \<Rightarrow> bool" where
  "no_torn d \<longleftrightarrow> (\<forall>n. io_fault d n WriteAll = None)"

definition no_io_fault :: "disk \<Rightarrow> bool" where
  "no_io_fault d \<longleftrightarrow> (\<forall>n c. io_fault d n c = None)"

lemma syscall_cases:
  assumes "syscall c f d = (r, d')"
  obtains (fault) e where "r = Inl e" "io_fault d (calls d) c = Some e" "d' = d\<lparr>calls := Suc (calls d)\<rparr>"
  | (fail) e where "r = Inl e" "d' = d\<lparr>calls := Suc (calls d)\<rparr>"
      "f (d\<lparr>calls := Suc (calls d)\<rparr>) = Inl e"
  | (run) a where "r = Inr a" "f (d\<lparr>calls := Suc (calls d)\<rparr>) = Inr (a, d')"
  using assms by (auto simp: syscall_def Let_def split: option.splits sum.splits)

text \<open>Same files, same tree root, same fault schedule.\<close>

definition same_files :: "disk \<Rightarrow> disk \<Rightarrow> bool" where
  "same_files d d' \<longleftrightarrow>
     (\<forall>q. file_at (tree d') q = file_at (tree d) q) \<and> disk_ok d' = disk_ok d \<and> io_fault d' = io_fault d"

lemma same_files_calls [simp]: "same_files d (d\<lparr>calls := n\<rparr>)"
  by (simp add: same_files_def disk_ok_def)

lemma fs_create_dir_all_run:
  assumes "fs_create_dir_all p d = (r, d')" "disk_ok d"
  shows "same_files d d'" "r = Inr () \<Longrightarrow> dir_at (tree d') p"
proof -
  have "same_files d d' \<and> (r = Inr () \<longrightarrow> dir_at (tree d') p)"
    using assms(1) unfolding fs_create_dir_all_def
  proof (cases rule: syscall_cases)
    case (run a)
    then obtain t where "mkdirs (tree d) p = Inr t" "tree d' = t" "io_fault d' = io_fault d"
      by (auto split: sum.splits)
    with run assms(2) show ?thesis
      by (auto simp: same_files_def disk_ok_def mkdirs_file_at mkdirs_dir_at mkdirs_root_dir)
  qed auto
  then show "same_files d d'" "r = Inr () \<Longrightarrow> dir_at (tree d') p" by auto
qed

text \<open>An open file: its directory exists and it is no directory itself.\<close>

definition openable :: "string list \<Rightarrow> disk \<Rightarrow> bool" where
  "openable p d \<longleftrightarrow> p \<noteq> [] \<and> disk_ok d \<and> dir_at (tree d) (butlast p) \<and> \<not> dir_at (tree d) p"

lemma openable_calls [simp]: "openable p (d\<lparr>calls := n\<rparr>) = openable p d"
  by (simp add: openable_def disk_ok_def)

lemma set_file_run:
  assumes "openable p d"
  shows "file_at (tree (set_file p b d)) q = (if q = p then Some b else file_at (tree d) q)"
    and "openable p (set_file p b d)" "io_fault (set_file p b d) = io_fault d"
  using assms
  by (simp_all add: openable_def set_file_def file_at_update_file disk_ok_def fs_update_root_dir
      dir_at_update_file)

lemma fs_create_run:
  assumes "fs_create p d = (r, d')" "disk_ok d"
  shows "r \<noteq> Inr () \<Longrightarrow> same_files d d'"
    and "r = Inr () \<Longrightarrow> openable p d' \<and> io_fault d' = io_fault d \<and>
           (\<forall>q. q \<noteq> p \<longrightarrow> file_at (tree d') q = file_at (tree d) q)"
proof -
  have "(r \<noteq> Inr () \<longrightarrow> same_files d d') \<and>
        (r = Inr () \<longrightarrow> openable p d' \<and> io_fault d' = io_fault d \<and>
           (\<forall>q. q \<noteq> p \<longrightarrow> file_at (tree d') q = file_at (tree d) q))"
    using assms(1) unfolding fs_create_def
  proof (cases rule: syscall_cases)
    case (run a)
    let ?d = "d\<lparr>calls := Suc (calls d)\<rparr>"
    have ne: "p \<noteq> []"
      using run(2) assms(2) by (cases p) (auto simp: disk_ok_def dir_at_def split: fs_node.splits)
    from run(2) have d': "d' = set_file p [] ?d" and
      "(\<exists>b m. fs_lookup (tree d) p = Some (FileNode b m)) \<or>
       (fs_lookup (tree d) p = None \<and> dir_at (tree d) (butlast p))"
      by (auto simp: dir_at_def split: option.splits fs_node.splits)
    then have "openable p ?d"
      using ne assms(2) file_at_parent [OF ne, of "tree d"]
      by (auto simp: openable_def disk_ok_def dir_at_def file_at_def)
    from set_file_run [OF this] d' run show ?thesis by simp
  qed auto
  then show "r \<noteq> Inr () \<Longrightarrow> same_files d d'"
    and "r = Inr () \<Longrightarrow> openable p d' \<and> io_fault d' = io_fault d \<and>
           (\<forall>q. q \<noteq> p \<longrightarrow> file_at (tree d') q = file_at (tree d) q)"
    by auto
qed

lemma fs_write_all_run:
  assumes "fs_write_all p b d = (r, d')" "openable p d"
  shows "openable p d'" "io_fault d' = io_fault d"
    "q \<noteq> p \<Longrightarrow> file_at (tree d') q = file_at (tree d) q"
    "r = Inr () \<Longrightarrow> file_at (tree d') p = Some b"
    "r = Inl e \<Longrightarrow> io_fault d (calls d) WriteAll = Some e"
  using assms(1) set_file_run [of p "d\<lparr>calls := Suc (calls d)\<rparr>"] assms(2)
  by (auto simp: fs_write_all_def Let_def split: option.splits)

lemma fs_flush_run:
  assumes "fs_flush d = (r, d')"
  shows "tree d' = tree d" "io_fault d' = io_fault d"
    "r = Inl e \<Longrightarrow> io_fault d (calls d) Flush = Some e"
  using assms unfolding fs_flush_def by (auto elim!: syscall_cases)

text \<open>
  A \<open>put\<close>: nothing changes until the file is open; then only the file changes, and it holds the
  data exactly when the call succeeds.
\<close>

lemma lb_put_run:
  assumes run: "lb_put lb p data d = (r, d')" and ok: "disk_ok d"
  shows "disk_ok d' \<and> io_fault d' = io_fault d \<and>
    (\<forall>q. q \<noteq> fs_path lb p \<longrightarrow> file_at (tree d') q = file_at (tree d) q) \<and>
    (r = Inr () \<longrightarrow> file_at (tree d') (fs_path lb p) = Some data) \<and>
    (no_torn d \<longrightarrow> same_files d d' \<or> file_at (tree d') (fs_path lb p) = Some data)"
proof -
  let ?fp = "fs_path lb p"
  let ?mk = "if ?fp \<noteq> [] then fs_create_dir_all (butlast ?fp) else okR ()"
  obtain r1 d1 where m: "?mk d = (r1, d1)" by fastforce
  have s1: "same_files d d1"
  proof (cases "?fp = []")
    case True
    with m show ?thesis by (simp add: okR_def same_files_def)
  next
    case False
    with m have "fs_create_dir_all (butlast ?fp) d = (r1, d1)" by simp
    then show ?thesis using ok by (rule fs_create_dir_all_run(1))
  qed
  then have ok1: "disk_ok d1" using ok by (simp add: same_files_def)
  obtain r2 d2 where c: "fs_create ?fp d1 = (r2, d2)" by fastforce
  obtain r3 d3 where w: "fs_write_all ?fp data d2 = (r3, d3)" by fastforce
  obtain r4 d4 where f: "fs_flush d3 = (r4, d4)" by fastforce
  note cr = fs_create_run [OF c ok1]
  have steps: "lb_put lb p data d =
    (case r1 of Inl e \<Rightarrow> (Inl (Io e), d1) | Inr _ \<Rightarrow>
     (case r2 of Inl e \<Rightarrow> (Inl (Io e), d2) | Inr _ \<Rightarrow>
      (case r3 of Inl e \<Rightarrow> (Inl (Io e), d3) | Inr _ \<Rightarrow>
       (case r4 of Inl e \<Rightarrow> (Inl (Io e), d4) | Inr _ \<Rightarrow> (Inr (), d4)))))"
    using m c w f by (simp add: lb_put_def Let_def map_errR_def andThen_def split: sum.splits)
  show ?thesis
  proof (cases "r1 = Inr () \<and> r2 = Inr ()")
    case False
    then have "same_files d d' \<and> r \<noteq> Inr ()"
      using run steps s1 cr(1) by (auto simp: same_files_def split: sum.splits)
    with ok show ?thesis by (auto simp: same_files_def)
  next
    case True
    then have open2: "openable ?fp d2" and fault2: "io_fault d2 = io_fault d"
      and other2: "\<forall>q. q \<noteq> ?fp \<longrightarrow> file_at (tree d2) q = file_at (tree d) q"
      using cr(2) s1 by (auto simp: same_files_def)
    note wr = fs_write_all_run [OF w open2] and fl = fs_flush_run [OF f]
    have "disk_ok d3" "disk_ok d4" using wr(1) fl(1) by (auto simp: openable_def disk_ok_def)
    then show ?thesis
      using run steps True wr(2-5) fl other2 fault2
      by (auto simp: no_torn_def split: sum.splits)
  qed
qed

lemma fs_read_run:
  assumes "fs_read p d = (r, d')"
  shows "same_files d d'" "r = Inr b \<Longrightarrow> file_at (tree d) p = Some b"
  using assms unfolding fs_read_def
  by (auto elim!: syscall_cases simp: same_files_def disk_ok_def file_at_def
      split: option.splits fs_node.splits)

lemma fs_remove_file_run:
  assumes "fs_remove_file p d = (r, d')" "disk_ok d"
  shows "r \<noteq> Inr () \<Longrightarrow> same_files d d'"
    and "r = Inr () \<Longrightarrow> disk_ok d' \<and> io_fault d' = io_fault d \<and>
           (\<forall>q. file_at (tree d') q = (if q = p then None else file_at (tree d) q))"
proof -
  have "(r \<noteq> Inr () \<longrightarrow> same_files d d') \<and>
     (r = Inr () \<longrightarrow> disk_ok d' \<and> io_fault d' = io_fault d \<and>
           (\<forall>q. file_at (tree d') q = (if q = p then None else file_at (tree d) q)))"
    using assms(1) unfolding fs_remove_file_def
  proof (cases rule: syscall_cases)
    case (run a)
    then have p: "p \<noteq> []" "file_at (tree d) p \<noteq> None"
      using assms(2) by (cases p; auto simp: disk_ok_def dir_at_def file_at_def split: option.splits fs_node.splits)+
    with run assms(2) show ?thesis
      by (auto simp: disk_ok_def fs_update_root_dir file_at_update_None split: option.splits fs_node.splits)
  qed auto
  then show "r \<noteq> Inr () \<Longrightarrow> same_files d d'"
    and "r = Inr () \<Longrightarrow> disk_ok d' \<and> io_fault d' = io_fault d \<and>
           (\<forall>q. file_at (tree d') q = (if q = p then None else file_at (tree d) q))"
    by auto
qed

lemma disk_content_same: "same_files d d' \<Longrightarrow> disk_content lb d' = disk_content lb d"
  by (simp add: same_files_def disk_content_def fun_eq_iff)

lemma disk_content_upd:
  assumes "normal_path p" "\<forall>q. file_at (tree d') q = (if q = lb_root lb @ segs p then v else file_at (tree d) q)"
  shows "disk_content lb d' = (disk_content lb d)(p := v)"
  using assms by (auto simp: disk_content_def fun_eq_iff segs_inj)

lemma lb_put_content:
  assumes "lb_put lb p data d = (r, d')" "disk_ok d" "normal_path p"
  shows "r = Inr () \<Longrightarrow> disk_content lb d' = (disk_content lb d)(p := Some data)"
    and "q \<noteq> p \<Longrightarrow> disk_content lb d' q = disk_content lb d q"
    and "no_torn d \<Longrightarrow> disk_content lb d' = disk_content lb d \<or>
                      disk_content lb d' = (disk_content lb d)(p := Some data)"
    and "disk_ok d'" "io_fault d' = io_fault d"
proof -
  note run = lb_put_run [OF assms(1,2)] and fp = fs_path_normal [OF assms(3), of lb]
  show "r = Inr () \<Longrightarrow> disk_content lb d' = (disk_content lb d)(p := Some data)"
    by (rule disk_content_upd [OF assms(3)]) (use run fp in auto)
  show "q \<noteq> p \<Longrightarrow> disk_content lb d' q = disk_content lb d q"
    using run fp segs_inj [of q p] assms(3) by (auto simp: disk_content_def)
  show "no_torn d \<Longrightarrow> disk_content lb d' = disk_content lb d \<or>
                    disk_content lb d' = (disk_content lb d)(p := Some data)"
    using run fp disk_content_upd [OF assms(3), of d' lb "Some data" d] by (auto simp: disk_content_same)
  show "disk_ok d'" "io_fault d' = io_fault d" using run by auto
qed

lemma lb_get_content:
  assumes "lb_get lb p d = (r, d')"
  shows "same_files d d'" "\<lbrakk>normal_path p; r = Inr b\<rbrakk> \<Longrightarrow> disk_content lb d p = Some b"
proof -
  obtain r0 where read: "fs_read (fs_path lb p) d = (r0, d')" and r: "r = Inr b \<Longrightarrow> r0 = Inr b" for b
    using assms by (cases "fs_read (fs_path lb p) d")
      (auto simp: lb_get_def map_errR_def split: sum.splits)
  show "same_files d d'" using read by (rule fs_read_run(1))
  show "\<lbrakk>normal_path p; r = Inr b\<rbrakk> \<Longrightarrow> disk_content lb d p = Some b"
    using fs_read_run(2) [OF read] r by (simp add: disk_content_def fs_path_normal)
qed

lemma lb_delete_content:
  assumes "lb_delete lb p d = (r, d')" "disk_ok d"
  shows "r \<noteq> Inr () \<Longrightarrow> same_files d d'"
    and "r = Inr () \<Longrightarrow> disk_ok d' \<and> io_fault d' = io_fault d"
    and "\<lbrakk>normal_path p; r = Inr ()\<rbrakk> \<Longrightarrow> disk_content lb d' = (disk_content lb d)(p := None)"
proof -
  obtain r0 where rm: "fs_remove_file (fs_path lb p) d = (r0, d')" and r: "r = Inr () \<longleftrightarrow> r0 = Inr ()"
    using assms(1) by (cases "fs_remove_file (fs_path lb p) d")
      (auto simp: lb_delete_def map_errR_def split: sum.splits)
  note run = fs_remove_file_run [OF rm assms(2)]
  show "r \<noteq> Inr () \<Longrightarrow> same_files d d'" using run(1) r by simp
  show "r = Inr () \<Longrightarrow> disk_ok d' \<and> io_fault d' = io_fault d" using run(2) r by simp
  show "\<lbrakk>normal_path p; r = Inr ()\<rbrakk> \<Longrightarrow> disk_content lb d' = (disk_content lb d)(p := None)"
    using run(2) r by (intro disk_content_upd) (auto simp: fs_path_normal)
qed

text \<open>Every call keeps the fault schedule, so a disk stays as reliable as it is.\<close>

lemma lb_preserves:
  assumes "\<And>d d'. \<lbrakk>I d; io_fault d' = io_fault d; disk_ok d'\<rbrakk> \<Longrightarrow> I d'" "\<And>d. I d \<Longrightarrow> disk_ok d"
  shows "preserves I (lb_put lb p data)" "preserves I (lb_get lb p)" "preserves I (lb_delete lb p)"
proof -
  show "preserves I (lb_put lb p data)"
    by (rule preservesI) (use assms lb_put_run in blast)
  show "preserves I (lb_get lb p)"
    by (rule preservesI) (use assms lb_get_content(1) same_files_def in metis)
  show "preserves I (lb_delete lb p)"
    by (rule preservesI) (use assms lb_delete_content(1,2) same_files_def in metis)
qed

lemmas local_backend_sel = backend.select_convs local_backend_def

interpretation local_be: storage_backend "local_backend lb" "disk_content lb" disk_ok
  for lb :: local_disk
proof unfold_locales
  fix s s' p q data r e
  show "preserves disk_ok (be_put (local_backend lb) p data)"
    "preserves disk_ok (be_get (local_backend lb) p)"
    "preserves disk_ok (be_delete (local_backend lb) p)"
    using lb_preserves [of disk_ok] by (simp_all add: local_backend_sel)
  show "\<lbrakk>disk_ok s; normal_path p; be_put (local_backend lb) p data s = (Inr (), s')\<rbrakk> \<Longrightarrow>
          disk_content lb s' = (disk_content lb s)(p := Some data)"
    "\<lbrakk>disk_ok s; normal_path p; be_put (local_backend lb) p data s = (Inl e, s'); q \<noteq> p\<rbrakk> \<Longrightarrow>
          disk_content lb s' q = disk_content lb s q"
    by (auto simp: local_backend_sel dest: lb_put_content)
  show "\<lbrakk>disk_ok s; normal_path p; be_get (local_backend lb) p s = (r, s')\<rbrakk> \<Longrightarrow>
          disk_content lb s' = disk_content lb s"
    "\<lbrakk>disk_ok s; normal_path p; be_get (local_backend lb) p s = (Inr data, s')\<rbrakk> \<Longrightarrow>
          disk_content lb s p = Some data"
    by (auto simp: local_backend_sel intro: lb_get_content(2) disk_content_same dest: lb_get_content(1))
  show "\<lbrakk>disk_ok s; normal_path p; be_delete (local_backend lb) p s = (Inr (), s')\<rbrakk> \<Longrightarrow>
          disk_content lb s' = (disk_content lb s)(p := None)"
    "\<lbrakk>disk_ok s; normal_path p; be_delete (local_backend lb) p s = (Inl e, s')\<rbrakk> \<Longrightarrow>
          disk_content lb s' = disk_content lb s \<or> disk_content lb s' = (disk_content lb s)(p := None)"
    by (auto simp: local_backend_sel intro: lb_delete_content(3) disk_content_same dest: lb_delete_content(1))
qed

abbreviation reliable_disk :: "disk \<Rightarrow> bool" where
  "reliable_disk d \<equiv> disk_ok d \<and> no_torn d"

lemma same_files_reliable: "\<lbrakk>same_files d d'; reliable_disk d\<rbrakk> \<Longrightarrow> reliable_disk d'"
  by (simp add: same_files_def no_torn_def)

interpretation local_atomic: atomic_backend "local_backend lb" "disk_content lb" reliable_disk
  for lb :: local_disk
proof unfold_locales
  fix s s' p q data r e
  show "preserves reliable_disk (be_put (local_backend lb) p data)"
    "preserves reliable_disk (be_get (local_backend lb) p)"
    "preserves reliable_disk (be_delete (local_backend lb) p)"
    using lb_preserves [of reliable_disk] by (simp_all add: local_backend_sel no_torn_def)
  show "\<lbrakk>reliable_disk s; normal_path p; be_put (local_backend lb) p data s = (Inl e, s')\<rbrakk> \<Longrightarrow>
          disk_content lb s' = disk_content lb s \<or> disk_content lb s' = (disk_content lb s)(p := Some data)"
    using lb_put_content(3) [of lb p data s "Inl e" s'] by (simp add: local_backend_sel)
qed (auto simp: local_be.put_ok local_be.put_err local_be.get_same local_be.get_ok
       local_be.delete_ok local_be.delete_err)

interpretation local_live: live_backend "local_backend lb" "disk_content lb" disk_ok no_io_fault
  for lb :: local_disk
proof unfold_locales
  fix s p data
  let ?I = "\<lambda>d. disk_ok d \<and> no_io_fault d"
  show "preserves ?I (be_put (local_backend lb) p data)" "preserves ?I (be_get (local_backend lb) p)"
    "preserves ?I (be_delete (local_backend lb) p)"
    using lb_preserves [of ?I] by (simp_all add: local_backend_sel no_io_fault_def)
  have run: "no_io_fault s \<Longrightarrow> f (s\<lparr>calls := Suc (calls s)\<rparr>) = Inr (a, s') \<Longrightarrow> syscall c f s = (Inr a, s')"
    for c f and a :: 'x and s'
    by (simp add: syscall_def no_io_fault_def)
  have at: "disk_content lb s p = Some data \<Longrightarrow>
      \<exists>m. fs_lookup (tree s) (fs_path lb p) = Some (FileNode data m)"
    by (auto simp: disk_content_def file_at_def fs_path_normal split: if_splits option.splits fs_node.splits)
  show "\<lbrakk>disk_ok s; no_io_fault s; normal_path p; disk_content lb s p = Some data\<rbrakk> \<Longrightarrow>
          \<exists>s'. be_get (local_backend lb) p s = (Inr data, s')"
    using at by (auto simp: local_backend_sel lb_get_def map_errR_Inr fs_read_def intro!: exI run)
  show "\<lbrakk>disk_ok s; no_io_fault s; normal_path p; disk_content lb s p = Some data\<rbrakk> \<Longrightarrow>
          \<exists>s'. be_delete (local_backend lb) p s = (Inr (), s')"
    using at by (auto simp: local_backend_sel lb_delete_def map_errR_Inr fs_remove_file_def intro!: exI run)
qed

text \<open>
  C38: what \<open>put\<close> has stored under a path, \<open>get\<close> returns; \<open>put\<close> changes no other file of the
  disk, and the file it changes lies below the root of the backend whatever the path is.
\<close>

theorem local_put_get:
  assumes "disk_ok d" "normal_path p" "lb_put lb p data d = (Inr (), d1)" "lb_get lb p d1 = (Inr x, d2)"
  shows "x = data \<and> (\<forall>q. q \<noteq> lb_root lb @ segs p \<longrightarrow> file_at (tree d1) q = file_at (tree d) q)"
  using lb_put_run [OF assms(3,1)] lb_put_content(1) [OF assms(3,1,2)] lb_get_content(2) [OF assms(4,2) refl]
    fs_path_normal [OF assms(2), of lb] by simp

theorem local_put_get_witness:
  "let lb = local_disk_new [''data''] Local; p = FvfsPath ''/a/b''; d1 = snd (lb_put lb p [7, 8] empty_disk)
   in fst (lb_get lb p d1) = Inr [7, 8] \<and>
      (\<forall>q. q \<noteq> [''data'', ''a'', ''b''] \<longrightarrow> file_at (tree d1) q = None)"
proof -
  let ?lb = "local_disk_new [''data''] Local" and ?p = "FvfsPath ''/a/b''"
  let ?d1 = "snd (lb_put ?lb ?p [7, 8] empty_disk)"
  have put: "lb_put ?lb ?p [7, 8] empty_disk = (Inr (), ?d1)" by (rule run_result) code_simp
  have got: "fst (lb_get ?lb ?p ?d1) = Inr [7, 8]" by code_simp
  then have get: "lb_get ?lb ?p ?d1 = (Inr [7, 8], snd (lb_get ?lb ?p ?d1))" by (rule run_result)
  have start: "disk_ok empty_disk" "file_at (tree empty_disk) q = None" for q
    by (simp_all add: disk_ok_def empty_disk_def)
  have p: "normal_path ?p" "lb_root ?lb @ segs ?p = [''data'', ''a'', ''b'']" by code_simp+
  from local_put_get [OF start(1) p(1) put get] got show ?thesis by (simp add: Let_def p(2) start(2))
qed

end
