(* ===== verification/S3_Backend.thy ===== *)
theory S3_Backend
  imports Storage_Backend
begin

text \<open>
  \<open>S3Backend\<close> (\<open>fvfs-core/src/backend/s3.rs\<close>). The AWS SDK is a parameter: \<open>s3_client\<close> is
  the record of the requests the code sends, each an operation on the remote state \<open>'s\<close> whose
  error is the text the SDK's error displays. The locale \<open>s3_service\<close> names what Amazon documents
  and the code relies on: an object is stored whole or not at all, a successful request has taken
  effect when it returns, reads are strongly consistent; a request that reports an error may or may
  not have taken effect. Under these hypotheses the backend satisfies the atomic contract, because
  \<open>s3_key\<close> never maps two paths to one key.
\<close>

section \<open>The client\<close>

record s3_head =
  head_content_length :: "i64 option"
  head_last_modified :: "i64 option"

record s3_object =
  obj_key :: "string option"
  obj_size :: "i64 option"
  obj_last_modified :: "i64 option"

record s3_page =
  page_contents :: "s3_object list"
  page_is_truncated :: "bool option"
  page_next_token :: "string option"

text \<open>\<open>get_object\<close> first answers the request, then the body is collected, which can fail too.\<close>

record 's s3_client =
  put_object :: "string \<Rightarrow> string \<Rightarrow> bytes \<Rightarrow> ('s, string, unit) op"
  get_object :: "string \<Rightarrow> string \<Rightarrow> ('s, string, string + bytes) op"
  delete_object :: "string \<Rightarrow> string \<Rightarrow> ('s, string, unit) op"
  head_object :: "string \<Rightarrow> string \<Rightarrow> ('s, string, s3_head) op"
  list_objects_v2 :: "string \<Rightarrow> string \<Rightarrow> string option \<Rightarrow> ('s, string, s3_page) op"

section \<open>The backend\<close>

record 's s3 =
  s3_client :: "'s s3_client"
  s3_bucket :: string
  s3_prefix :: string

definition s3_new :: "'s s3_client \<Rightarrow> string \<Rightarrow> string \<Rightarrow> 's s3" where
  "s3_new client bucket pre = \<lparr> s3_client = client, s3_bucket = bucket, s3_prefix = pre \<rparr>"

definition s3_key :: "string \<Rightarrow> fvfs_path \<Rightarrow> string" where
  "s3_key pre path =
     (let rel = trim_start_matches slash (as_str path)
      in if pre = [] then rel
         else trim_end_matches slash pre @ (if rel = [] then [] else ''/'' @ rel))"

fun contains_str :: "string \<Rightarrow> string \<Rightarrow> bool" where
  "contains_str [] p = (p = [])"
| "contains_str (x # xs) p = (starts_with (x # xs) p \<or> contains_str xs p)"

definition is_missing_text :: "string \<Rightarrow> bool" where
  "is_missing_text e \<longleftrightarrow> contains_str e ''NoSuchKey'' \<or> contains_str e ''404''"

definition s3_put :: "'s s3 \<Rightarrow> fvfs_path \<Rightarrow> bytes \<Rightarrow> ('s, fvfs_error, unit) op" where
  "s3_put b path data =
     map_errR (\<lambda>e. S3Error (''put_object: '' @ e))
       (put_object (s3_client b) (s3_bucket b) (s3_key (s3_prefix b) path) data)"

definition s3_get :: "'s s3 \<Rightarrow> fvfs_path \<Rightarrow> ('s, fvfs_error, bytes) op" where
  "s3_get b path =
     andThen (map_errR (\<lambda>e. if is_missing_text e then NotFound (as_str path)
                           else S3Error (''get_object: '' @ e))
               (get_object (s3_client b) (s3_bucket b) (s3_key (s3_prefix b) path))) (\<lambda>body.
     case body of
       Inl e \<Rightarrow> errR (S3Error (''collecting body: '' @ e))
     | Inr data \<Rightarrow> okR data)"

definition s3_delete :: "'s s3 \<Rightarrow> fvfs_path \<Rightarrow> ('s, fvfs_error, unit) op" where
  "s3_delete b path =
     map_errR (\<lambda>e. S3Error (''delete_object: '' @ e))
       (delete_object (s3_client b) (s3_bucket b) (s3_key (s3_prefix b) path))"

definition s3_exists :: "'s s3 \<Rightarrow> fvfs_path \<Rightarrow> ('s, fvfs_error, bool) op" where
  "s3_exists b path =
     andThen (attempt (head_object (s3_client b) (s3_bucket b) (s3_key (s3_prefix b) path))) (\<lambda>r.
     case r of
       Inr _ \<Rightarrow> okR True
     | Inl e \<Rightarrow> if is_missing_text e then okR False else errR (S3Error (''head_object: '' @ e)))"

definition s3_metadata :: "'s s3 \<Rightarrow> fvfs_path \<Rightarrow> ('s, fvfs_error, file_entry) op" where
  "s3_metadata b path =
     andThen (map_errR (\<lambda>e. if is_missing_text e then NotFound (as_str path)
                           else S3Error (''head_object: '' @ e))
               (head_object (s3_client b) (s3_bucket b) (s3_key (s3_prefix b) path))) (\<lambda>resp.
     okR \<lparr> fe_path = path, fe_kind = File,
           fe_size_bytes = i64_as_u64 (case head_content_length resp of Some n \<Rightarrow> n | None \<Rightarrow> 0),
           fe_modified_at = (case head_last_modified resp of Some t \<Rightarrow> t | None \<Rightarrow> 0),
           fe_tier_bitmask = bm_set S3 bm_NONE \<rparr>)"

text \<open>One listed object; an object without a key is skipped.\<close>

definition s3_entry :: "string \<Rightarrow> s3_object \<Rightarrow> file_entry option" where
  "s3_entry pre obj =
     (case obj_key obj of
        None \<Rightarrow> None
      | Some key \<Rightarrow>
          let rel = (if pre = [] then key
                     else trim_start_matches slash
                       (case strip_prefix key (trim_end_matches slash pre) of
                          Some k \<Rightarrow> k | None \<Rightarrow> key))
          in Some \<lparr> fe_path = (case path_new (''/'' @ rel) of
                                Inr p \<Rightarrow> p | Inl _ \<Rightarrow> FvfsPath ''/unknown''),
                    fe_kind = File,
                    fe_size_bytes = i64_as_u64 (case obj_size obj of Some n \<Rightarrow> n | None \<Rightarrow> 0),
                    fe_modified_at = (case obj_last_modified obj of Some t \<Rightarrow> t | None \<Rightarrow> 0),
                    fe_tier_bitmask = bm_set S3 bm_NONE \<rparr>)"

text \<open>The paging loop. Nothing in the code bounds it, so it may not return.\<close>

partial_function (option) s3_list_loop ::
    "'s s3 \<Rightarrow> string \<Rightarrow> string option \<Rightarrow> file_entry list \<Rightarrow> 's \<Rightarrow> (file_entry list fvfs_result \<times> 's) option"
  where
  "s3_list_loop b prefix_str continuation entries s =
     (case list_objects_v2 (s3_client b) (s3_bucket b) prefix_str continuation s of
        (Inl e, s') \<Rightarrow> Some (Inl (S3Error (''list_objects_v2: '' @ e)), s')
      | (Inr resp, s') \<Rightarrow>
          (let entries' = entries @ List.map_filter (s3_entry (s3_prefix b)) (page_contents resp)
           in if page_is_truncated resp = Some True
              then s3_list_loop b prefix_str (page_next_token resp) entries' s'
              else Some (Inr entries', s')))"

definition s3_list :: "'s s3 \<Rightarrow> fvfs_path \<Rightarrow> 's \<Rightarrow> (file_entry list fvfs_result \<times> 's) option" where
  "s3_list b prefix_path =
     (let key_prefix = s3_key (s3_prefix b) prefix_path;
          prefix_str = (if key_prefix = ''/'' \<or> key_prefix = [] then s3_prefix b
                        else trim_end_matches slash key_prefix @ ''/'')
      in s3_list_loop b prefix_str None [])"

definition s3_backend :: "'s s3 \<Rightarrow> 's backend" where
  "s3_backend b =
     \<lparr> be_put = s3_put b, be_get = s3_get b, be_delete = s3_delete b, be_exists = s3_exists b,
       be_list = s3_list b, be_metadata = s3_metadata b, be_tier = S3 \<rparr>"

section \<open>Keys\<close>

lemma trim_start_inj:
  assumes "normal_path p" "normal_path q"
    and "trim_start_matches slash (as_str p) = trim_start_matches slash (as_str q)"
  shows "p = q"
proof -
  have "as_str p = slash # trim_start_matches slash (as_str p)" if "normal_path p" for p
  proof (rule normal_pathE [OF that])
    fix ws assume p: "p = of_segs ws" and ws: "list_all proper_seg ws"
    show ?thesis
    proof (cases ws)
      case Nil
      with p show ?thesis by (simp add: of_segs_def trim_start_matches_def)
    next
      case (Cons w vs)
      then obtain c cs where "w = c # cs" "c \<noteq> slash"
        using ws by (cases w) (auto simp: proper_seg_def)
      with p Cons show ?thesis
        by (cases vs) (auto simp: of_segs_def trim_start_matches_def)
    qed
  qed
  with assms show ?thesis by (metis fvfs_path.expand)
qed

lemma s3_key_inj: "\<lbrakk>normal_path p; normal_path q; s3_key pre p = s3_key pre q\<rbrakk> \<Longrightarrow> p = q"
  by (rule trim_start_inj) (auto simp: s3_key_def Let_def split: if_splits)

section \<open>The documented service and the contract\<close>

locale s3_service =
  fixes cl :: "'s s3_client"
    and objs :: "'s \<Rightarrow> string \<Rightarrow> string \<Rightarrow> bytes option"
  assumes put_object_ok: "put_object cl b k data s = (Inr (), s') \<Longrightarrow>
            objs s' = (objs s)(b := (objs s b)(k := Some data))"
    and put_object_err: "put_object cl b k data s = (Inl e, s') \<Longrightarrow>
            objs s' = objs s \<or> objs s' = (objs s)(b := (objs s b)(k := Some data))"
    and get_object_same: "get_object cl b k s = (r, s') \<Longrightarrow> objs s' = objs s"
    and get_object_ok: "get_object cl b k s = (Inr (Inr data), s') \<Longrightarrow> objs s b k = Some data"
    and delete_object_ok: "delete_object cl b k s = (Inr (), s') \<Longrightarrow>
            objs s' = (objs s)(b := (objs s b)(k := None))"
    and delete_object_err: "delete_object cl b k s = (Inl e, s') \<Longrightarrow>
            objs s' = objs s \<or> objs s' = (objs s)(b := (objs s b)(k := None))"

definition s3_content ::
    "('s \<Rightarrow> string \<Rightarrow> string \<Rightarrow> bytes option) \<Rightarrow> 's s3 \<Rightarrow> 's \<Rightarrow> fvfs_path \<Rightarrow> bytes option" where
  "s3_content objs b s p =
     (if normal_path p then objs s (s3_bucket b) (s3_key (s3_prefix b) p) else None)"

lemma s3_content_upd:
  assumes "normal_path p"
    and "objs s' = (objs s)(s3_bucket b := (objs s (s3_bucket b))(s3_key (s3_prefix b) p := v))"
  shows "s3_content objs b s' = (s3_content objs b s)(p := v)"
  using assms s3_key_inj by (auto simp: s3_content_def fun_eq_iff)

lemma s3_content_same: "objs s' = objs s \<Longrightarrow> s3_content objs b s' = s3_content objs b s"
  by (simp add: s3_content_def fun_eq_iff)

lemma s3_get_run:
  assumes "s3_get b p s = (r, s')"
  obtains r0 where "get_object (s3_client b) (s3_bucket b) (s3_key (s3_prefix b) p) s = (r0, s')"
    "\<And>data. r = Inr data \<Longrightarrow> r0 = Inr (Inr data)"
  using assms
  by (cases "get_object (s3_client b) (s3_bucket b) (s3_key (s3_prefix b) p) s")
    (auto simp: s3_get_def op_defs split: sum.splits prod.splits)

lemma s3_atomic_backend:
  assumes "s3_service (s3_client b) objs"
  shows "atomic_backend (s3_backend b) (s3_content objs b) (\<lambda>_. True)"
proof unfold_locales
  fix s s' p q data r e
  let ?c = "s3_content objs b"
  note svc = s3_service.put_object_ok [OF assms] s3_service.put_object_err [OF assms]
    s3_service.get_object_same [OF assms] s3_service.get_object_ok [OF assms]
    s3_service.delete_object_ok [OF assms] s3_service.delete_object_err [OF assms]
  show put: "\<lbrakk>True; normal_path p; be_put (s3_backend b) p data s = (Inr (), s')\<rbrakk> \<Longrightarrow>
          ?c s' = (?c s)(p := Some data)"
    and err: "\<lbrakk>True; normal_path p; be_put (s3_backend b) p data s = (Inl e, s')\<rbrakk> \<Longrightarrow>
          ?c s' = ?c s \<or> ?c s' = (?c s)(p := Some data)"
    by (auto simp: s3_backend_def s3_put_def map_errR_Inr map_errR_Inl
        intro: s3_content_same s3_content_upd dest!: svc(1,2))
  show "\<lbrakk>True; normal_path p; be_put (s3_backend b) p data s = (Inl e, s'); q \<noteq> p\<rbrakk> \<Longrightarrow>
          ?c s' q = ?c s q"
    using err by (metis fun_upd_other)
  show "\<lbrakk>True; normal_path p; be_get (s3_backend b) p s = (r, s')\<rbrakk> \<Longrightarrow> ?c s' = ?c s"
    by (auto simp: s3_backend_def elim!: s3_get_run intro!: s3_content_same dest: svc(3))
  show "\<lbrakk>True; normal_path p; be_get (s3_backend b) p s = (Inr data, s')\<rbrakk> \<Longrightarrow> ?c s p = Some data"
    by (auto simp: s3_backend_def s3_content_def elim!: s3_get_run dest: svc(4))
  show "\<lbrakk>True; normal_path p; be_delete (s3_backend b) p s = (Inr (), s')\<rbrakk> \<Longrightarrow>
          ?c s' = (?c s)(p := None)"
    "\<lbrakk>True; normal_path p; be_delete (s3_backend b) p s = (Inl e, s')\<rbrakk> \<Longrightarrow>
          ?c s' = ?c s \<or> ?c s' = (?c s)(p := None)"
    by (auto simp: s3_backend_def s3_delete_def map_errR_Inr map_errR_Inl
        intro: s3_content_same s3_content_upd dest!: svc(5,6))
qed (auto simp: preserves_def)

section \<open>A service in memory\<close>

text \<open>
  The hypotheses of \<open>s3_service\<close> can hold: a map from buckets and keys to objects, with an
  error for a missing key. It also serves as the S3 stand-in in the witnesses.
\<close>

type_synonym mem_objects = "string \<Rightarrow> string \<Rightarrow> bytes option"

definition mem_client :: "mem_objects s3_client" where
  "mem_client =
     \<lparr> put_object = (\<lambda>b k data s. (Inr (), s(b := (s b)(k := Some data)))),
       get_object = (\<lambda>b k s. (case s b k of Some data \<Rightarrow> Inr (Inr data) | None \<Rightarrow> Inl ''NoSuchKey'', s)),
       delete_object = (\<lambda>b k s. (Inr (), s(b := (s b)(k := None)))),
       head_object = (\<lambda>b k s. (case s b k of
           Some data \<Rightarrow> Inr \<lparr> head_content_length = Some (int (length data)), head_last_modified = None \<rparr>
         | None \<Rightarrow> Inl ''NoSuchKey'', s)),
       list_objects_v2 = (\<lambda>b pre tok s.
         (Inr \<lparr> page_contents = [], page_is_truncated = None, page_next_token = None \<rparr>, s)) \<rparr>"

interpretation mem_s3: s3_service mem_client "\<lambda>s. s"
  by unfold_locales (auto simp: mem_client_def split: option.splits)

text \<open>Different paths have different object keys, whatever the configured prefix is.\<close>

theorem s3_keys_distinct:
  assumes "normal_path p" "normal_path q" "p \<noteq> q"
  shows "s3_key pre p \<noteq> s3_key pre q"
  using s3_key_inj assms by blast

theorem s3_keys_distinct_witness: "s3_key ''fvfs/'' (FvfsPath ''/a'') \<noteq> s3_key ''fvfs/'' (FvfsPath ''/a/b'')"
proof (rule s3_keys_distinct)
  show "normal_path (FvfsPath ''/a'')" "normal_path (FvfsPath ''/a/b'')" by code_simp+
qed simp

end
