(* ===== verification/Tier_Liveness.thy ===== *)
theory Tier_Liveness
  imports Tier_Coherence Local_Disk S3_Backend
begin

text \<open>
  What happens when nothing fails: \<open>live_stack\<close> adds to the tier stack that the backends answer
  while they are up. Then a file whose recorded copies are all there (\<open>intact\<close>) can be read, and
  an eviction that the bitmask allows succeeds.
\<close>

section \<open>Backends that are up\<close>

locale s3_live_service = s3_service +
  fixes up :: "'s \<Rightarrow> bool"
  assumes up_put_object: "preserves up (put_object cl b k data)"
    and up_get_object: "preserves up (get_object cl b k)"
    and up_delete_object: "preserves up (delete_object cl b k)"
    and get_object_live: "\<lbrakk>up s; objs s b k = Some data\<rbrakk> \<Longrightarrow> \<exists>s'. get_object cl b k s = (Inr (Inr data), s')"
    and delete_object_live: "up s \<Longrightarrow> \<exists>s'. delete_object cl b k s = (Inr (), s')"

lemma s3_live_backend:
  assumes "s3_live_service (s3_client b) objs up"
  shows "live_backend (s3_backend b) (s3_content objs b) (\<lambda>_. True) up"
proof -
  note svc = s3_live_service.axioms [OF assms]
  note live = s3_live_service.up_put_object [OF assms] s3_live_service.up_get_object [OF assms]
    s3_live_service.up_delete_object [OF assms]
  show ?thesis
  proof (intro live_backend.intro live_backend_axioms.intro)
    show "storage_backend (s3_backend b) (s3_content objs b) (\<lambda>_. True)"
      using s3_atomic_backend [OF svc(1)] by (rule atomic_backend.axioms)
  next
    fix p data show "preserves (\<lambda>s. True \<and> up s) (be_put (s3_backend b) p data)"
      using live(1) by (simp add: s3_backend_def s3_put_def preserves_map_errR)
  next
    fix p show "preserves (\<lambda>s. True \<and> up s) (be_get (s3_backend b) p)"
      using live(2) by (auto simp: s3_backend_def s3_get_def intro!: preserves_intros)
  next
    fix p show "preserves (\<lambda>s. True \<and> up s) (be_delete (s3_backend b) p)"
      using live(3) by (simp add: s3_backend_def s3_delete_def preserves_map_errR)
  next
    fix s p data assume "up s" "s3_content objs b s p = Some data"
    then show "\<exists>s'. be_get (s3_backend b) p s = (Inr data, s')"
      using s3_live_service.get_object_live [OF assms, of s "s3_bucket b" "s3_key (s3_prefix b) p" data]
      by (auto simp: s3_backend_def s3_get_def s3_content_def op_defs split: if_splits)
  next
    fix s p data assume "up s" "s3_content objs b s p = Some data"
    then show "\<exists>s'. be_delete (s3_backend b) p s = (Inr (), s')"
      using s3_live_service.delete_object_live [OF assms, of s "s3_bucket b" "s3_key (s3_prefix b) p"]
      by (auto simp: s3_backend_def s3_delete_def op_defs)
  qed
qed

interpretation mem_live: s3_live_service mem_client "\<lambda>s. s" "\<lambda>_. True"
  by unfold_locales (auto simp: mem_client_def preserves_def)

lemma local_live_reliable: "live_backend (local_backend lb) (disk_content lb) reliable_disk no_io_fault"
proof (intro live_backend.intro live_backend_axioms.intro)
  show "storage_backend (local_backend lb) (disk_content lb) reliable_disk"
    by (rule local_atomic.storage_backend_axioms)
  have eq: "(\<lambda>d. (disk_ok d \<and> no_torn d) \<and> no_io_fault d) = (\<lambda>d. disk_ok d \<and> no_io_fault d)"
    by (auto simp: fun_eq_iff no_torn_def no_io_fault_def)
  fix p data s
  show "preserves (\<lambda>d. (disk_ok d \<and> no_torn d) \<and> no_io_fault d) (be_put (local_backend lb) p data)"
    "preserves (\<lambda>d. (disk_ok d \<and> no_torn d) \<and> no_io_fault d) (be_get (local_backend lb) p)"
    "preserves (\<lambda>d. (disk_ok d \<and> no_torn d) \<and> no_io_fault d) (be_delete (local_backend lb) p)"
    unfolding eq by (rule local_live.up_put local_live.up_get local_live.up_delete)+
  show "\<exists>s'. be_get (local_backend lb) p s = (Inr data, s')"
    if "disk_ok s \<and> no_torn s" "no_io_fault s" "normal_path p" "disk_content lb s p = Some data"
    using that local_live.get_live by blast
  show "\<exists>s'. be_delete (local_backend lb) p s = (Inr (), s')"
    if "disk_ok s \<and> no_torn s" "no_io_fault s" "normal_path p" "disk_content lb s p = Some data"
    using that local_live.delete_live by blast
qed

section \<open>A stack that is up\<close>

definition intact :: "(tier \<Rightarrow> 'b \<Rightarrow> fvfs_path \<Rightarrow> bytes option) \<Rightarrow> 'b world \<Rightarrow> fvfs_path \<Rightarrow> bool" where
  "intact content w p \<longleftrightarrow>
     (\<forall>row t. row_of (wdb w) p = Some row \<and> r_is_dir row = 0 \<and> bm_has (row_bm row) t \<longrightarrow>
        content t (stores w t) p \<noteq> None)"

definition all_up :: "(tier \<Rightarrow> 'b \<Rightarrow> bool) \<Rightarrow> 'b world \<Rightarrow> bool" where
  "all_up up w \<longleftrightarrow> no_sql_fault (wdb w) \<and> (\<forall>t. up t (stores w t))"

lemma same_tables_faults: "same_tables d d' \<Longrightarrow> no_sql_fault d' = no_sql_fault d"
  by (simp add: same_tables_def no_sql_fault_def)

lemma require_metadata_live:
  assumes "no_sql_fault (wdb w)" "row_of (wdb w) p = Some row"
  obtains d where "require_metadata p w = (Inr (row_to_metadata row), w\<lparr>wdb := d\<rparr>)" "same_tables (wdb w) d"
proof -
  obtain d where "db_get p (wdb w) = (Inr (Some (row_to_metadata row)), d)" "same_tables (wdb w) d"
    using db_get_ok [OF assms(1), of p] assms(2) by auto
  with that show ?thesis by (auto simp: require_metadata_def on_db_def op_defs)
qed

locale live_stack = tier_stack r content tinv
  for r :: "'b tier_router" and content :: "tier \<Rightarrow> 'b \<Rightarrow> fvfs_path \<Rightarrow> bytes option"
    and tinv :: "tier \<Rightarrow> 'b \<Rightarrow> bool" +
  fixes up :: "tier \<Rightarrow> 'b \<Rightarrow> bool"
  assumes tier_live: "live_backend (backend_of r t) (content t) (tinv t) (up t)"
begin

lemma get_live:
  assumes "ok w" "all_up up w" "normal_path p" "copy w t p = Some d"
  obtains b where "on_store t (be_get (backend_of r t) p) w = (Inr d, w\<lparr>stores := (stores w)(t := b)\<rparr>)"
proof -
  have "\<exists>b. be_get (backend_of r t) p (stores w t) = (Inr d, b)"
    using live_backend.get_live [OF tier_live ok_tier [OF assms(1)] _ assms(3,4)] assms(2)
    by (simp add: all_up_def)
  with that show ?thesis by (auto simp: on_store_run)
qed

lemma read_live:
  assumes w: "ok w" "all_up up w" "intact content w p" and d: "holds content sha w p d"
  shows "\<exists>w'. router_read r p w = (Inr d, w')"
proof -
  from d obtain row where row: "row_of (wdb w) p = Some row" "r_is_dir row = 0"
    and c: "copies_ok (\<lambda>t. copy w t p) (row_bm row) d" by (auto simp: holds_def)
  from w row have p: "normal_path p" by (auto simp: world_ok_def dest: row_of_normal)
  obtain db where req: "require_metadata p w = (Inr (row_to_metadata row), w\<lparr>wdb := db\<rparr>)"
    and same: "same_tables (wdb w) db"
    using w(2) row(1) by (auto simp: all_up_def elim: require_metadata_live)
  let ?w1 = "w\<lparr>wdb := db\<rparr>"
  have w1: "ok ?w1" "all_up up ?w1"
    using w same same_tables_wf [OF same] same_tables_faults [OF same]
    by (auto simp: world_ok_def all_up_def)
  have here: "copy ?w1 t p = Some d" if "bm_has (row_bm row) t" for t
  proof -
    have "copy w t p \<noteq> None" using w(3) [unfolded intact_def, rule_format, of row t] row that by simp
    moreover have "copy w t p = Some d \<or> copy w t p = None" 
      using c [unfolded copies_ok_def, THEN conjunct2, THEN conjunct2, rule_format, OF that] by auto
    ultimately show ?thesis by auto
  qed
  have live: "\<exists>w2. on_store t (be_get (backend_of r t) p) ?w1 = (Inr d, w2)" if "bm_has (row_bm row) t" for t
    using get_live [OF w1 p here [OF that]] by blast
  have promoted: "\<exists>w2. get_and_promote r t p ?w1 = (Inr d, w2)" if "bm_has (row_bm row) t" for t
    using live [OF that] by (auto simp: get_and_promote_def send_promote_def op_defs)
  have "\<exists>w2. read_tiers r p (row_bm row) ?w1 = (Inr d, w2)"
  proof (cases "bm_has (row_bm row) Local")
    case True
    with live [OF True] show ?thesis by (auto simp: read_tiers_def op_defs)
  next
    case False
    moreover from c obtain t where t: "bm_has (row_bm row) t" by (auto simp: copies_ok_def)
    with False have "bm_has (row_bm row) Nas \<or> bm_has (row_bm row) S3" by (cases t) auto
    ultimately show ?thesis using promoted by (auto simp: read_tiers_def)
  qed
  with req row(2) show ?thesis by (auto simp: router_read_def andThen_def attempt_def okR_def split: prod.splits)
qed

lemma evict_live:
  assumes w: "ok w" "all_up up w" "intact content w p" and row: "row_of (wdb w) p = Some row" "r_is_dir row = 0"
    and t: "bm_has (row_bm row) t" "safe_to_evict_from (row_bm row) t"
  obtains w' where "evict_from_tier r p t w = (Inr (), w')" "ok w'" "all_up up w'"
    "files (wdb w') = map (\<lambda>x. if r_id x = r_id row
        then x\<lparr>r_tier_bitmask := u8_as_i64 (as_u8 (bm_clear t (row_bm row)))\<rparr> else x) (files (wdb w))"
    "\<And>q. row_of (wdb w') q = (if q = p
        then Some (row\<lparr>r_tier_bitmask := u8_as_i64 (as_u8 (bm_clear t (row_bm row)))\<rparr>) else row_of (wdb w) q)"
    "\<And>u q. u \<noteq> t \<or> q \<noteq> p \<Longrightarrow> copy w' u q = copy w u q"
proof -
  have wf: "db_wf (wdb w)" using w(1) by (simp add: world_ok_def)
  have p: "normal_path p" using row_of_normal [OF wf row(1)] by simp
  obtain db where req: "require_metadata p w = (Inr (row_to_metadata row), w\<lparr>wdb := db\<rparr>)"
    and same: "same_tables (wdb w) db"
    using w(2) row(1) by (auto simp: all_up_def elim: require_metadata_live)
  let ?w1 = "w\<lparr>wdb := db\<rparr>"
  have w1: "ok ?w1" "no_sql_fault db" "up t (stores w t)"
    using w same same_tables_wf [OF same] same_tables_faults [OF same]
    by (auto simp: world_ok_def all_up_def)
  from w(3) row t(1) obtain d where here: "content t (stores w t) p = Some d" by (auto simp: intact_def)
  obtain b where del: "be_delete (backend_of r t) p (stores w t) = (Inr (), b)"
    using live_backend.delete_live [OF tier_live ok_tier [OF w(1)] w1(3) p here] by blast
  let ?w2 = "?w1\<lparr>stores := (stores w)(t := b)\<rparr>"
  have del': "on_store t (be_delete (backend_of r t) p) ?w1 = (Inr (), ?w2)"
    using del by (auto simp: on_store_run)
  have b: "tinv t b \<and> up t b"
    using preservesD [OF live_backend.up_delete [OF tier_live] _ del] ok_tier [OF w(1)] w1(3) by simp
  obtain db' where upd: "db_set_tier_bitmask (r_id row) (bm_clear t (row_bm row)) db = (Inr (), db')"
    using update_files_ok [OF w1(2)] unfolding db_set_tier_bitmask_def by blast
  let ?w' = "?w2\<lparr>wdb := db'\<rparr>"
  note eff = update_files_run [OF upd [unfolded db_set_tier_bitmask_def]]
  show ?thesis
  proof (rule that)
    show run: "evict_from_tier r p t w = (Inr (), ?w')"
      using req t(2) del' upd by (cases t) (simp_all add: evict_from_tier_def andThen_def on_db_def zoom_def)
    show "ok ?w'" using preservesD [OF evict_preserves_ok w(1) run] .
    have "no_sql_fault db'" using eff w1(2) by (simp add: no_sql_fault_def)
    then show "all_up up ?w'" using w(2) b by (simp add: all_up_def)
    show "files (wdb ?w') = map (\<lambda>x. if r_id x = r_id row
        then x\<lparr>r_tier_bitmask := u8_as_i64 (as_u8 (bm_clear t (row_bm row)))\<rparr> else x) (files (wdb w))"
      using eff same by (simp add: same_tables_def)
    show "row_of (wdb ?w') q = (if q = p
        then Some (row\<lparr>r_tier_bitmask := u8_as_i64 (as_u8 (bm_clear t (row_bm row)))\<rparr>) else row_of (wdb w) q)" for q
      using db_set_tier_bitmask_row_of [OF upd, of p row q] wf same same_tables_wf [OF same] row(1)
      by (simp add: same_tables_row_of)
    show "copy ?w' u q = copy w u q" if "u \<noteq> t \<or> q \<noteq> p" for u q
      using delete_run(4) [OF del' w1(1) p that] by simp
  qed
qed

end

end
