(* ===== verification/Uploader_Progress.thy ===== *)
theory Uploader_Progress
  imports S3_Uploader Tier_Liveness
begin

text \<open>
  The purpose of the uploader (\<open>fvfsd/src/s3_uploader.rs\<close>): when nothing fails, a flush brings
  every file with a pending upload to S3, records it in the row and removes the WAL entry.
  \<open>upload_stack\<close> is the interface this rests on: the live stack, and an S3 that takes objects while
  it is up. The invariant of the loop is that the stack is up and every recorded copy is there.
\<close>

section \<open>An S3 that takes objects\<close>

locale s3_writable_service = s3_live_service +
  assumes put_object_live: "up s \<Longrightarrow> \<exists>s'. put_object cl b k data s = (Inr (), s')"

interpretation mem_writable: s3_writable_service mem_client "\<lambda>s. s" "\<lambda>_. True"
  by unfold_locales (simp add: mem_client_def)

section \<open>What keeps the stack up\<close>

definition steady :: "(db, 'e, 'a) op \<Rightarrow> bool" where
  "steady m \<longleftrightarrow> preserves (\<lambda>d. db_wf d \<and> no_sql_fault d) m"

lemma steadyI:
  assumes "preserves db_wf m" "\<And>d res d'. m d = (res, d') \<Longrightarrow> sql_fault d' = sql_fault d"
  shows "steady m"
  unfolding steady_def
proof (rule preservesI)
  fix d res d' assume d: "db_wf d \<and> no_sql_fault d" and run: "m d = (res, d')"
  then show "db_wf d' \<and> no_sql_fault d'"
    using preservesD [OF assms(1) _ run] assms(2) [OF run] by (simp add: no_sql_fault_def)
qed

lemma same_tables_steady:
  assumes "preserves db_wf m" "\<And>d res d'. m d = (res, d') \<Longrightarrow> same_tables d d'"
  shows "steady m"
  by (rule steadyI [OF assms(1)]) (use assms(2) in \<open>auto simp: same_tables_def\<close>)

lemma update_files_fault:
  assumes "update_files sel f d = (res, d')" "\<And>x. r_path (f x) = r_path x"
  shows "sql_fault d' = sql_fault d"
  using update_files_run [OF assms] by (cases "res = Inr ()") (auto simp: same_tables_def)

lemma steady_reads: "steady (db_get p)" "steady (db_get_by_id i)" "steady db_wal_pending"
proof -
  show "steady (db_get p)"
    by (rule same_tables_steady [OF db_queries_wf(1)]) (auto simp: db_get_def intro: query_same [rotated])
  show "steady (db_get_by_id i)"
    by (rule same_tables_steady [OF db_queries_wf(2)]) (auto simp: db_get_by_id_def intro: query_same [rotated])
  show "steady db_wal_pending"
    by (rule same_tables_steady [OF db_queries_wf(6)]) (auto simp: db_wal_pending_def intro: query_same [rotated])
qed

lemma steady_set_tier_bitmask: "steady (db_set_tier_bitmask i bm)"
  by (rule steadyI [OF db_set_tier_bitmask_wf]) (auto simp: db_set_tier_bitmask_def dest!: update_files_fault)

lemma steady_record_access: "steady (db_record_access now i)"
  by (rule steadyI [OF db_record_access_wf]) (auto simp: db_record_access_def dest!: update_files_fault)

lemma steady_wal_complete: "steady (db_wal_complete i)"
  by (rule steadyI [OF db_wal_complete_wf]) (auto simp: db_wal_complete_def elim!: sql_cases)

lemma steady_wal_record_failure: "steady (db_wal_record_failure i e)"
  by (rule steadyI [OF db_wal_record_failure_wf]) (auto simp: db_wal_record_failure_def elim!: sql_cases)

lemmas steady_ops = steady_reads steady_set_tier_bitmask steady_record_access steady_wal_complete
  steady_wal_record_failure

text \<open>What closing a WAL entry leaves in the database.\<close>

lemma wal_complete_run:
  assumes "db_wal_complete i d = (res, d')"
  shows "files d' = files d" "w_id ` set (wal_table d') \<subseteq> w_id ` set (wal_table d)"
    "no_sql_fault d \<Longrightarrow> i \<notin> w_id ` set (wal_table d')"
  using assms unfolding db_wal_complete_def no_sql_fault_def
  by (auto simp: sql_def Let_def split: option.splits)

lemma wal_record_failure_run:
  assumes "db_wal_record_failure i e d = (res, d')"
  shows "files d' = files d" "w_id ` set (wal_table d') \<subseteq> w_id ` set (wal_table d)"
  using assms unfolding db_wal_record_failure_def
  by (auto simp: sql_def Let_def split: option.splits)

text \<open>No tier is taken away from a file, and no WAL entry appears.\<close>

definition more_tiers :: "db \<Rightarrow> db \<Rightarrow> bool" where
  "more_tiers d d' \<longleftrightarrow>
     (\<forall>q row. row_of d q = Some row \<longrightarrow> (\<exists>row'. row_of d' q = Some row' \<and> r_id row' = r_id row \<and>
        (\<forall>t. bm_has (row_bm row) t \<longrightarrow> bm_has (row_bm row') t))) \<and>
     w_id ` set (wal_table d') \<subseteq> w_id ` set (wal_table d)"

lemma more_tiers_refl [simp]: "more_tiers d d"
  by (simp add: more_tiers_def)

lemma more_tiers_row:
  assumes "more_tiers d d'" "row_of d q = Some row"
  obtains row' where "row_of d' q = Some row'" "r_id row' = r_id row"
    "\<And>t. bm_has (row_bm row) t \<Longrightarrow> bm_has (row_bm row') t"
  using assms unfolding more_tiers_def by blast

lemma more_tiers_wal: "more_tiers d d' \<Longrightarrow> w_id ` set (wal_table d') \<subseteq> w_id ` set (wal_table d)"
  by (simp add: more_tiers_def)

lemma more_tiers_trans:
  assumes "more_tiers a b" "more_tiers b c"
  shows "more_tiers a c"
  unfolding more_tiers_def
proof (intro conjI allI impI)
  fix q row assume "row_of a q = Some row"
  with assms(1) obtain row1 where 1: "row_of b q = Some row1" "r_id row1 = r_id row"
    "\<And>t. bm_has (row_bm row) t \<Longrightarrow> bm_has (row_bm row1) t" by (rule more_tiers_row) blast
  from assms(2) 1(1) obtain row2 where "row_of c q = Some row2" "r_id row2 = r_id row1"
    "\<And>t. bm_has (row_bm row1) t \<Longrightarrow> bm_has (row_bm row2) t" by (rule more_tiers_row) blast
  with 1 show "\<exists>row'. row_of c q = Some row' \<and> r_id row' = r_id row \<and>
      (\<forall>t. bm_has (row_bm row) t \<longrightarrow> bm_has (row_bm row') t)" by auto
next
  show "w_id ` set (wal_table c) \<subseteq> w_id ` set (wal_table a)"
    using assms [THEN more_tiers_wal] by (rule order_trans [rotated])
qed

lemma same_world_more_tiers: "same_world content w w' \<Longrightarrow> more_tiers (wdb w) (wdb w')"
  unfolding more_tiers_def
proof (intro conjI allI impI)
  fix q row assume same: "same_world content w w'" and "row_of (wdb w) q = Some row"
  then obtain row' where row': "row_of (wdb w') q = Some row'" "same_file row row'" by (rule same_world_row)
  from row'(1) same_file_bm [OF row'(2)] row'(2) show "\<exists>row'. row_of (wdb w') q = Some row' \<and> r_id row' = r_id row \<and>
      (\<forall>t. bm_has (row_bm row) t \<longrightarrow> bm_has (row_bm row') t)"
    by (simp add: same_file_def)
qed (simp add: same_world_def)

lemma files_more_tiers:
  "\<lbrakk>files d' = files d; w_id ` set (wal_table d') \<subseteq> w_id ` set (wal_table d)\<rbrakk> \<Longrightarrow> more_tiers d d'"
  by (auto simp: more_tiers_def row_of_def)

lemma same_world_intact: "\<lbrakk>same_world content w w'; intact content w p\<rbrakk> \<Longrightarrow> intact content w' p"
proof -
  assume same: "same_world content w w'" and w: "intact content w p"
  have "content t (stores w' t) p \<noteq> None"
    if row': "row_of (wdb w') p = Some row'" "r_is_dir row' = 0" "bm_has (row_bm row') t" for row' t
  proof -
    have "rel_option same_file (row_of (wdb w) p) (row_of (wdb w') p)"
      using same by (simp add: same_world_def)
    then obtain row where "row_of (wdb w) p = Some row" "same_file row row'"
      using row'(1) by (cases "row_of (wdb w) p") auto
    with w row' same same_file_bm [of row row'] show ?thesis
      by (auto simp: intact_def same_file_def same_world_def)
  qed
  then show ?thesis by (auto simp: intact_def)
qed

lemma intactD:
  "\<lbrakk>intact content w p; row_of (wdb w) p = Some row; r_is_dir row = 0; bm_has (row_bm row) t\<rbrakk>
   \<Longrightarrow> \<exists>x. content t (stores w t) p = Some x"
  unfolding intact_def by blast

lemma intactI:
  "(\<And>row t. \<lbrakk>row_of (wdb w) p = Some row; r_is_dir row = 0; bm_has (row_bm row) t\<rbrakk>
     \<Longrightarrow> \<exists>x. content t (stores w t) p = Some x) \<Longrightarrow> intact content w p"
  unfolding intact_def by blast

section \<open>One upload\<close>

locale upload_stack = live_stack r content tinv up
  for r :: "'b tier_router" and content :: "tier \<Rightarrow> 'b \<Rightarrow> fvfs_path \<Rightarrow> bytes option"
    and tinv :: "tier \<Rightarrow> 'b \<Rightarrow> bool" and up :: "tier \<Rightarrow> 'b \<Rightarrow> bool" +
  assumes s3_put_live: "\<lbrakk>tinv S3 s; up S3 s; normal_path p\<rbrakk> \<Longrightarrow> \<exists>s'. be_put (rt_s3 r) p data s = (Inr (), s')"
begin

abbreviation good :: "'b world \<Rightarrow> bool" where
  "good w \<equiv> ok w \<and> all_up up w"

abbreviation sound :: "'b world \<Rightarrow> bool" where
  "sound w \<equiv> good w \<and> (\<forall>p. intact content w p)"

lemma good_sel [simp]:
  "all_up up (w\<lparr>promote_q := q\<rparr>) = all_up up w" "all_up up (w\<lparr>ticks := n\<rparr>) = all_up up w"
  by (simp_all add: all_up_def)

lemma good_on_db: "steady m \<Longrightarrow> preserves good (on_db m)"
  unfolding steady_def
  by (rule preserves_on_db_I) (auto simp: world_ok_def all_up_def dest: preservesD)

lemma good_store:
  assumes "preserves (\<lambda>s. tinv t s \<and> up t s) m"
  shows "preserves good (on_store t m)"
proof (rule preservesI)
  fix w res w' assume w: "good w" and "on_store t m w = (res, w')"
  then obtain b where run: "m (stores w t) = (res, b)" and w': "w' = w\<lparr>stores := (stores w)(t := b)\<rparr>"
    by (auto simp: on_store_run)
  have "tinv t b \<and> up t b" using preservesD [OF assms _ run] w by (simp add: world_ok_def all_up_def)
  with w w' show "good w'" by (simp add: world_ok_def all_up_def)
qed

lemmas good_intros = preserves_intros good_on_db steady_ops good_store
  live_backend.up_put [OF tier_live] live_backend.up_get [OF tier_live]

lemma good_get:
  "preserves good (on_store Local (be_get (rt_local r) p))" "preserves good (on_store t (be_get (backend_of r t) p))"
  using good_store [OF live_backend.up_get [OF tier_live, of Local p]]
    good_store [OF live_backend.up_get [OF tier_live, of t p]] by simp_all

lemma good_promote: "preserves good (get_and_promote r t p)"
  unfolding get_and_promote_def by (intro preserves_intros good_get) simp_all

lemma good_read_tiers: "preserves good (read_tiers r p bm)"
  unfolding read_tiers_def read_from_nas_or_s3_def by (intro preserves_intros good_get good_promote)

lemma good_touch: "preserves good (touch i)"
  unfolding touch_def by (intro preserves_intros good_on_db steady_ops) simp_all

lemma good_read: "preserves good (router_read r p)"
  unfolding router_read_def require_metadata_def
  by (intro preserves_intros good_on_db steady_ops good_read_tiers good_touch)

lemma sound_same_world: "\<lbrakk>good w'; sound w; same_world content w w'\<rbrakk> \<Longrightarrow> sound w'"
  using same_world_intact by blast

lemma sound_db:
  assumes "steady m" "m (wdb w) = (res, d)" "sound w" "row_of d = row_of (wdb w)"
  shows "sound (w\<lparr>wdb := d\<rparr>)"
proof -
  have "good (w\<lparr>wdb := d\<rparr>)"
    by (rule preservesD [OF good_on_db [OF assms(1)], of w res]) (use assms in \<open>simp_all add: on_db_run\<close>)
  moreover have "intact content (w\<lparr>wdb := d\<rparr>) p" for p
    using assms(3) intactD [of content w p] by (auto intro!: intactI simp: assms(4))
  ultimately show ?thesis by blast
qed

text \<open>Storing a copy on S3 and recording it.\<close>

lemma record_upload:
  assumes w: "sound w" and row: "row_of (wdb w) p = Some row" and i: "i = r_id row" "bm = row_bm row"
  obtains w' where
    "andThen (on_store S3 (be_put (backend_of r S3) p data)) (\<lambda>_. on_db (db_set_tier_bitmask i (bm_set S3 bm))) w = (Inr (), w')"
    "sound w'" "more_tiers (wdb w) (wdb w')" "row_of (wdb w') p = Some (row\<lparr>r_tier_bitmask := u8_as_i64 (as_u8 (bm_set S3 bm))\<rparr>)"
proof -
  have wf: "db_wf (wdb w)" and fault: "no_sql_fault (wdb w)" using w by (auto simp: world_ok_def all_up_def)
  have p: "normal_path p" using row_of_normal [OF wf row] by simp
  have "\<exists>b. be_put (rt_s3 r) p data (stores w S3) = (Inr (), b)"
    using s3_put_live p w by (simp add: world_ok_def all_up_def)
  then obtain b where "be_put (rt_s3 r) p data (stores w S3) = (Inr (), b)" by blast
  then have put: "on_store S3 (be_put (backend_of r S3) p data) w = (Inr (), w\<lparr>stores := (stores w)(S3 := b)\<rparr>)"
    (is "_ = (_, ?w1)") by (auto simp: on_store_run)
  have ok: "ok w" using w by blast
  have good1: "good ?w1"
    using preservesD [OF good_store [OF live_backend.up_put [OF tier_live]] _ put] w by blast
  have here: "copy ?w1 S3 p = Some data" using put_run(5) [OF put ok p] by blast
  have copies: "\<exists>x. copy ?w1 t q = Some x" if "\<exists>x. copy w t q = Some x" for t q
    using put_run(4) [OF put ok p, of t q] here that by (cases "t = S3 \<and> q = p") auto
  obtain d where upd: "db_set_tier_bitmask (r_id row) (bm_set S3 (row_bm row)) (wdb w) = (Inr (), d)"
    using update_files_ok [OF fault] unfolding db_set_tier_bitmask_def by blast
  let ?row = "row\<lparr>r_tier_bitmask := u8_as_i64 (as_u8 (bm_set S3 (row_bm row)))\<rparr>"
  have rows: "row_of d q = (if q = p then Some ?row else row_of (wdb w) q)" for q
    using db_set_tier_bitmask_row_of [OF upd wf row refl, of q] by simp
  have wal: "wal_table d = wal_table (wdb w)"
    using update_files_run [OF upd [unfolded db_set_tier_bitmask_def]] by simp
  show thesis
  proof (rule that)
    show "andThen (on_store S3 (be_put (backend_of r S3) p data)) (\<lambda>_. on_db (db_set_tier_bitmask i (bm_set S3 bm))) w =
        (Inr (), ?w1\<lparr>wdb := d\<rparr>)"
      using put upd i by (auto simp: andThen_Inr on_db_run)
    have "good (?w1\<lparr>wdb := d\<rparr>)"
      by (rule preservesD [OF good_on_db [OF steady_set_tier_bitmask] good1]) (use upd in \<open>auto simp: on_db_run\<close>)
    moreover have "intact content (?w1\<lparr>wdb := d\<rparr>) q" for q
    proof (rule intactI)
      fix row' t
      assume a: "row_of (wdb (?w1\<lparr>wdb := d\<rparr>)) q = Some row'" "r_is_dir row' = 0" "bm_has (row_bm row') t"
      show "\<exists>x. copy (?w1\<lparr>wdb := d\<rparr>) t q = Some x"
      proof (cases "t = S3 \<and> q = p")
        case False
        then have "\<exists>row0. row_of (wdb w) q = Some row0 \<and> r_is_dir row0 = 0 \<and> bm_has (row_bm row0) t"
          using a rows [of q] row by (auto split: if_splits)
        then have "\<exists>x. copy w t q = Some x" using intactD w by blast
        from copies [OF this] show ?thesis by simp
      qed (use here in simp)
    qed
    ultimately show "sound (?w1\<lparr>wdb := d\<rparr>)" by blast
    show "more_tiers (wdb w) (wdb (?w1\<lparr>wdb := d\<rparr>))"
      using rows row wal by (auto simp: more_tiers_def)
    show "row_of (wdb (?w1\<lparr>wdb := d\<rparr>)) p = Some (row\<lparr>r_tier_bitmask := u8_as_i64 (as_u8 (bm_set S3 bm))\<rparr>)"
      using rows i by simp
  qed
qed

text \<open>
  Uploading any file of a sound world, held or not, ends in a sound world; uploading a file whose
  current version is \<open>d\<close> succeeds and records S3.
\<close>

lemma upload_sound:
  assumes w: "sound w" and row: "row_of (wdb w) p = Some row" "m = row_to_metadata row"
  shows "\<exists>res w'. upload_s3 r m w = (res, w') \<and> sound w' \<and> more_tiers (wdb w) (wdb w') \<and>
    (holds content sha w p d \<longrightarrow> res = Inr () \<and> (\<exists>row'. row_of (wdb w') p = Some row' \<and> bm_has (row_bm row') S3))"
proof -
  have wf: "db_wf (wdb w)" and ok: "ok w" using w by (auto simp: world_ok_def)
  have m: "fm_path m = p" "fm_id m = r_id row" "fm_tier_bitmask m = row_bm row"
    using fm_path_row_of [OF wf row(1)] row(2) by simp_all
  obtain r1 w1 where read: "router_read r p w = (r1, w1)" by fastforce
  have look: "same_world content w w1" using read_run(1) [OF read ok] by blast
  have w1: "sound w1"
    using sound_same_world [OF preservesD [OF good_read _ read] w look] w by blast
  obtain row1 where row1: "row_of (wdb w1) p = Some row1" "same_file row row1"
    using same_world_row [OF look row(1)] .
  have run: "upload_s3 r m w = (case r1 of Inl e \<Rightarrow> (Inl e, w1) | Inr data \<Rightarrow>
      andThen (on_store S3 (be_put (backend_of r S3) p data))
        (\<lambda>_. on_db (db_set_tier_bitmask (fm_id m) (bm_set S3 (fm_tier_bitmask m)))) w1)"
    using read by (simp add: upload_s3_def copy_to_def andThen_def m(1) split: sum.splits)
  show ?thesis
  proof (cases r1)
    case (Inl e)
    moreover have "\<not> holds content sha w p d" using read_live [of w p sha d] w read Inl by auto
    ultimately show ?thesis using run w1 same_world_more_tiers [OF look] by auto
  next
    case (Inr data)
    have "fm_id m = r_id row1" "fm_tier_bitmask m = row_bm row1"
      using m row1(2) same_file_bm [OF row1(2)] by (simp_all add: same_file_def)
    from record_upload [OF w1 row1(1) this, of data] obtain w2 where w2:
      "upload_s3 r m w = (Inr (), w2)" "sound w2" "more_tiers (wdb w1) (wdb w2)"
      "row_of (wdb w2) p = Some (row1\<lparr>r_tier_bitmask := u8_as_i64 (as_u8 (bm_set S3 (fm_tier_bitmask m)))\<rparr>)"
      unfolding run Inr sum.case .
    with more_tiers_trans [OF same_world_more_tiers [OF look] w2(3)] show ?thesis by auto
  qed
qed

lemma close_sound:
  assumes w: "sound w" and m: "steady m" "\<And>d res d'. m d = (res, d') \<Longrightarrow> files d' = files d"
    "\<And>d res d'. m d = (res, d') \<Longrightarrow> w_id ` set (wal_table d') \<subseteq> w_id ` set (wal_table d)"
  shows "sound (ignoring (on_db m) w) \<and> more_tiers (wdb w) (wdb (ignoring (on_db m) w))"
proof -
  obtain res d where run: "m (wdb w) = (res, d)" by fastforce
  then have "on_db m w = (res, w\<lparr>wdb := d\<rparr>)" by (auto simp: on_db_run)
  moreover have "row_of d = row_of (wdb w)" using m(2) [OF run] by (simp add: row_of_def fun_eq_iff)
  ultimately show ?thesis
    using sound_db [OF m(1) run w] files_more_tiers [OF m(2,3) [OF run]] by (simp add: ignoring_def)
qed

lemma complete_sound:
  assumes "sound w"
  shows "sound (ignoring (on_db (db_wal_complete i)) w) \<and>
    more_tiers (wdb w) (wdb (ignoring (on_db (db_wal_complete i)) w)) \<and>
    i \<notin> w_id ` set (wal_table (wdb (ignoring (on_db (db_wal_complete i)) w)))"
proof -
  obtain res d where run: "db_wal_complete i (wdb w) = (res, d)" by fastforce
  then have "wdb (ignoring (on_db (db_wal_complete i)) w) = d" by (auto simp: ignoring_def on_db_def zoom_def)
  moreover have "no_sql_fault (wdb w)" using assms by (simp add: all_up_def)
  ultimately show ?thesis
    using close_sound [OF assms steady_wal_complete, of i] wal_complete_run(3) [OF run]
    by (simp add: wal_complete_run(1,2))
qed

lemma failure_sound:
  assumes "sound w"
  shows "sound (ignoring (on_db (db_wal_record_failure i e)) w) \<and>
    more_tiers (wdb w) (wdb (ignoring (on_db (db_wal_record_failure i e)) w))"
  by (rule close_sound [OF assms steady_wal_record_failure]) (rule wal_record_failure_run, assumption)+

lemma flush_entry_sound:
  assumes w: "sound w"
  shows "sound (flush_entry r e w)" "more_tiers (wdb w) (wdb (flush_entry r e w))"
    and "\<lbrakk>holds content sha w p d; row_of (wdb w) p = Some row; we_file_id e = r_id row\<rbrakk> \<Longrightarrow>
      we_id e \<notin> w_id ` set (wal_table (wdb (flush_entry r e w))) \<and>
      (\<exists>row'. row_of (wdb (flush_entry r e w)) p = Some row' \<and> bm_has (row_bm row') S3)"
proof -
  have fault: "no_sql_fault (wdb w)" and wf: "db_wf (wdb w)" using w by (auto simp: world_ok_def all_up_def)
  let ?found = "find (\<lambda>x. r_id x = we_file_id e) (files (wdb w))"
  have "\<exists>db. db_get_by_id (we_file_id e) (wdb w) = (Inr (map_option row_to_metadata ?found), db) \<and>
      same_tables (wdb w) db"
    unfolding db_get_by_id_def by (rule query_ok [OF fault]) simp
  then obtain db where get: "db_get_by_id (we_file_id e) (wdb w) = (Inr (map_option row_to_metadata ?found), db)"
    and same: "same_tables (wdb w) db" by blast
  define w1 where "w1 = w\<lparr>wdb := db\<rparr>"
  have load: "on_db (db_get_by_id (we_file_id e)) w = (Inr (map_option row_to_metadata ?found), w1)"
    using get by (auto simp: on_db_run w1_def)
  have rows: "row_of (wdb w1) = row_of (wdb w)" using same_tables_row_of [OF same] by (simp add: w1_def)
  have w1: "sound w1"
    using sound_db [OF steady_reads(2) get w] rows by (simp add: w1_def)
  have more1: "more_tiers (wdb w) (wdb w1)"
    using same by (intro files_more_tiers) (auto simp: same_tables_def w1_def)
  have "sound (flush_entry r e w) \<and> more_tiers (wdb w1) (wdb (flush_entry r e w)) \<and>
    (holds content sha w p d \<and> row_of (wdb w) p = Some row \<and> we_file_id e = r_id row \<longrightarrow>
      we_id e \<notin> w_id ` set (wal_table (wdb (flush_entry r e w))) \<and>
      (\<exists>row'. row_of (wdb (flush_entry r e w)) p = Some row' \<and> bm_has (row_bm row') S3))"
  proof (cases ?found)
    case None
    then have "row_of (wdb w) p \<noteq> Some row \<or> we_file_id e \<noteq> r_id row" using row_of_SomeD [of "wdb w" p row]
      by (auto simp: find_None_iff)
    then show ?thesis using load None complete_sound [OF w1, of "we_id e"] by (auto simp: flush_entry_def)
  next
    case (Some x)
    then have x: "x \<in> set (files (wdb w))" "r_id x = we_file_id e" by (auto dest: find_Some_in)
    let ?q = "FvfsPath (r_path x)" and ?m = "row_to_metadata x"
    have row_q: "row_of (wdb w) ?q = Some x" using row_of_in_files [OF wf x(1)] .
    have "\<exists>res w2. upload_s3 r ?m w1 = (res, w2) \<and> sound w2 \<and> more_tiers (wdb w1) (wdb w2) \<and>
        (holds content sha w1 ?q d \<longrightarrow> res = Inr () \<and> (\<exists>row'. row_of (wdb w2) ?q = Some row' \<and> bm_has (row_bm row') S3))"
      by (rule upload_sound [OF w1 _ refl]) (simp add: rows row_q)
    then obtain res w2 where up: "upload_s3 r ?m w1 = (res, w2)" "sound w2" "more_tiers (wdb w1) (wdb w2)"
      "holds content sha w1 ?q d \<Longrightarrow> res = Inr () \<and> (\<exists>row'. row_of (wdb w2) ?q = Some row' \<and> bm_has (row_bm row') S3)"
      by blast
    have run: "flush_entry r e w = (case res of Inl err \<Rightarrow>
        ignoring (on_db (db_wal_record_failure (we_id e) (display_error err))) w2
      | Inr _ \<Rightarrow> ignoring (on_db (db_wal_complete (we_id e))) w2)"
      using load Some up(1) by (simp add: flush_entry_def)
    note closed = complete_sound [OF up(2), of "we_id e"]
    note failed = failure_sound [OF up(2), of "we_id e"]
    have result: "sound (flush_entry r e w) \<and> more_tiers (wdb w2) (wdb (flush_entry r e w))"
      using run closed failed by (cases res) auto
    have "we_id e \<notin> w_id ` set (wal_table (wdb (flush_entry r e w))) \<and>
        (\<exists>row'. row_of (wdb (flush_entry r e w)) p = Some row' \<and> bm_has (row_bm row') S3)"
      if q: "holds content sha w p d" "row_of (wdb w) p = Some row" "we_file_id e = r_id row"
    proof -
      have "p = ?q" using row_of_id_inj [OF wf q(2) row_q] x(2) q(3) by simp
      moreover have "holds content sha w1 p d"
        using q(1) by (rule holds_row_copies) (simp_all add: rows, simp add: w1_def)
      ultimately obtain row' where "res = Inr ()" "row_of (wdb w2) p = Some row'" "bm_has (row_bm row') S3"
        using up(4) by blast
      with result run closed show ?thesis by (auto elim: more_tiers_row)
    qed
    with result more_tiers_trans [OF up(3)] show ?thesis by blast
  qed
  then show "sound (flush_entry r e w)" "more_tiers (wdb w) (wdb (flush_entry r e w))"
    "\<lbrakk>holds content sha w p d; row_of (wdb w) p = Some row; we_file_id e = r_id row\<rbrakk> \<Longrightarrow>
      we_id e \<notin> w_id ` set (wal_table (wdb (flush_entry r e w))) \<and>
      (\<exists>row'. row_of (wdb (flush_entry r e w)) p = Some row' \<and> bm_has (row_bm row') S3)"
    using more_tiers_trans [OF more1] by blast+
qed

section \<open>A flush\<close>

lemma fold_flush_sound:
  assumes "sound w"
  shows "sound (fold (flush_entry r) es w) \<and> more_tiers (wdb w) (wdb (fold (flush_entry r) es w))"
  using assms
proof (induction es arbitrary: w)
  case (Cons e es)
  show ?case
    using Cons.IH [OF flush_entry_sound(1) [OF Cons.prems, of e]]
      more_tiers_trans [OF flush_entry_sound(2) [OF Cons.prems, of e]] by simp
next
  case Nil
  then show ?case by (simp only: fold_simps id_apply more_tiers_refl simp_thms)
qed

lemma fold_flush_uploads:
  assumes "sound w" "holds content sha w p d" "row_of (wdb w) p = Some row" "e \<in> set es" "we_file_id e = r_id row"
  shows "we_id e \<notin> w_id ` set (wal_table (wdb (fold (flush_entry r) es w))) \<and>
    (\<exists>row'. row_of (wdb (fold (flush_entry r) es w)) p = Some row' \<and> bm_has (row_bm row') S3)"
  using assms
proof (induction es arbitrary: w row)
  case (Cons f fs)
  note w = Cons.prems(1) and h = Cons.prems(2)
  note step = flush_entry_sound(1) [OF w, of f] flush_entry_keeps [OF conjI [OF _ h], of f]
  note rest = fold_flush_sound [OF step(1), of fs]
  obtain row1 where row1: "row_of (wdb (flush_entry r f w)) p = Some row1" "r_id row1 = r_id row"
    using more_tiers_row [OF flush_entry_sound(2) [OF w] Cons.prems(3)] .
  show ?case
  proof (cases "e = f")
    case True
    obtain row2 where done2: "we_id e \<notin> w_id ` set (wal_table (wdb (flush_entry r f w)))"
      "row_of (wdb (flush_entry r f w)) p = Some row2" "bm_has (row_bm row2) S3"
      using flush_entry_sound(3) [OF w h Cons.prems(3), of f] Cons.prems(5) True by blast
    obtain row3 where "row_of (wdb (fold (flush_entry r) fs (flush_entry r f w))) p = Some row3" "bm_has (row_bm row3) S3"
      using more_tiers_row [OF rest [THEN conjunct2] done2(2)] done2(3) by metis
    with done2(1) more_tiers_wal [OF rest [THEN conjunct2]] show ?thesis by auto
  next
    case False
    with Cons.IH [OF step(1) _ row1(1)] step(2) w Cons.prems(4,5) row1(2) show ?thesis by simp
  qed
qed simp

lemma flush_uploads:
  assumes w: "sound w" and h: "holds content sha w p d" and row: "row_of (wdb w) p = Some row"
    and x: "x \<in> set (wal_table (wdb w))" "w_file_id x = r_id row" "w_op x = ''upload_s3''" "w_attempts x < 10"
  shows "copy (flush_pending r n w) S3 p = Some d \<and> w_id x \<notin> w_id ` set (wal_table (wdb (flush_pending r n w))) \<and>
    (\<exists>row'. row_of (wdb (flush_pending r n w)) p = Some row' \<and> bm_has (row_bm row') S3) \<and>
    sound (flush_pending r n w) \<and> holds content sha (flush_pending r n w) p d"
proof -
  let ?es = "List.map_filter wal_entry_of_row (sort_key w_enqueued_at (wal_table (wdb w)))"
  have "\<exists>db. db_wal_pending (wdb w) = (Inr ?es, db) \<and> same_tables (wdb w) db"
    unfolding db_wal_pending_def by (rule query_ok) (use w in \<open>simp_all add: all_up_def\<close>)
  then obtain db where get: "db_wal_pending (wdb w) = (Inr ?es, db)" and same: "same_tables (wdb w) db" by blast
  let ?w1 = "w\<lparr>wdb := db\<rparr>"
  have run: "flush_pending r n w = fold (flush_entry r) (filter to_flush ?es) ?w1"
    using get by (simp add: flush_pending_def on_db_def zoom_def)
  have rows: "row_of db = row_of (wdb w)" using same_tables_row_of [OF same] .
  have w1: "sound ?w1" using sound_db [OF steady_reads(3) get w rows] .
  have h1: "holds content sha ?w1 p d" using h by (rule holds_row_copies) (simp_all add: rows)
  have "0 \<le> w_attempts x" using w x(1) by (auto simp: world_ok_def db_wf_def wal_wf_def)
  then have tries: "i64_as_u32 (w_attempts x) < MAX_ATTEMPTS"
    using x(4) by (simp add: i64_as_u32_def word_less_nat_alt unsigned_of_int take_bit_int_eq_self)
  define e where "e = \<lparr> we_id = w_id x, we_file_id = w_file_id x, we_op = UploadS3,
      we_enqueued_at = w_enqueued_at x, we_attempts = i64_as_u32 (w_attempts x), we_last_error = w_last_error x \<rparr>"
  have "wal_entry_of_row x = Some e" by (simp add: wal_entry_of_row_def x(3) wal_op_try_from_def e_def)
  then have "e \<in> set (filter to_flush ?es)"
    using x(1) tries by (auto simp: List.map_filter_def to_flush_def e_def intro!: image_eqI [where x = x])
  from fold_flush_uploads [OF w1 h1 _ this, of row] rows row x(2)
  have up: "w_id x \<notin> w_id ` set (wal_table (wdb (flush_pending r n w)))"
    "\<exists>row'. row_of (wdb (flush_pending r n w)) p = Some row' \<and> bm_has (row_bm row') S3"
    by (simp_all add: run e_def)
  have keep: "holds content sha (flush_pending r n w) p d" using flush_pending_keeps [OF conjI [OF _ h]] w by blast
  moreover from keep up(2) have "copy (flush_pending r n w) S3 p = Some d" by (auto simp: holds_def copies_ok_def)
  moreover have "sound (flush_pending r n w)" using fold_flush_sound [OF w1] run by simp
  ultimately show ?thesis using up by blast
qed

end

section \<open>What a write leaves for the uploader\<close>

context tier_stack
begin

text \<open>A write of a path that was not there leaves a fresh WAL entry for each of the two copies.\<close>

lemma write_enqueues:
  assumes run: "router_write sha r p data w = (Inr (), w')" and w: "ok w" and p: "normal_path p"
    and new: "row_of (wdb w) p = None"
  obtains row x where "row_of (wdb w') p = Some row" "x \<in> set (wal_table (wdb w'))" "w_file_id x = r_id row"
    "w_op x = ''upload_s3''" "w_attempts x = 0"
proof -
  obtain w1 w2 i w3 w4 j w5 k where
    put: "on_store Local (be_put (backend_of r Local) p data) w = (Inr (), w1)" and
    ups: "on_db (db_upsert (written_meta sha (clock w1 (ticks w1)) p data)) (w1\<lparr>ticks := Suc (ticks w1)\<rparr>) = (Inr i, w2)" and
    parents: "ensure_parent_dirs p w2 = (Inr (), w3)" and
    e1: "enqueue i ReplicateNas w3 = (Inr j, w4)" and e2: "enqueue i UploadS3 w4 = (Inr k, w5)" and w5: "w' = w5"
    using run by (auto simp: router_write_def andThen_Inr now_unix_def okR_def)
  let ?m = "written_meta sha (clock w1 (ticks w1)) p data"
  from ups obtain d where d: "db_upsert ?m (wdb w1) = (Inr i, d)"
    and w2: "w2 = w1\<lparr>ticks := Suc (ticks w1), wdb := d\<rparr>" by (auto simp: on_db_run)
  have "row_of (wdb w1) p = None" using put_run(2) [OF put w p] new by simp
  then have "i = r_id (upserted_row (wdb w1) ?m)" "row_of (wdb w2) p = Some (upserted_row (wdb w1) ?m)"
    using db_upsert_files(2) [OF d] db_upsert_row_of [OF d, of p] w2 by (simp_all add: upserted_row_id)
  then have "row_of (wdb w') p = Some (upserted_row (wdb w1) ?m)"
    using ensure_parent_dirs_run [OF parents p] enqueue_run(1) [OF e1] enqueue_run(1) [OF e2] w5
    by (simp add: adds_rows_def)
  from that [OF this, of "\<lparr> w_id = k, w_file_id = i, w_op = ''upload_s3'', w_enqueued_at = clock w4 (ticks w4),
      w_attempts = 0, w_last_error = None \<rparr>"]
  show thesis using enqueue_run(5) [OF e2 refl] w5 \<open>i = _\<close> by simp
qed

text \<open>An overwrite keeps the row's id, but its WAL entries are for the last row inserted anywhere.\<close>

lemma overwrite_enqueues:
  assumes run: "router_write sha r p data w = (Inr (), w')" and w: "ok w" and p: "normal_path p"
    and old: "row_of (wdb w) p = Some old"
  obtains row e1 e2 where "row_of (wdb w') p = Some row" "r_id row = r_id old" "r_sha256 row = sha data"
    "row_bm row = bm_set Local bm_NONE" "wal_table (wdb w') = wal_table (wdb w) @ [e1, e2]"
    "w_file_id e1 = last_insert_rowid (wdb w)" "w_file_id e2 = last_insert_rowid (wdb w)"
proof -
  obtain w1 w2 i w3 w4 j k where
    put: "on_store Local (be_put (backend_of r Local) p data) w = (Inr (), w1)" and
    ups: "on_db (db_upsert (written_meta sha (clock w1 (ticks w1)) p data)) (w1\<lparr>ticks := Suc (ticks w1)\<rparr>) = (Inr i, w2)" and
    parents: "ensure_parent_dirs p w2 = (Inr (), w3)" and
    e1: "enqueue i ReplicateNas w3 = (Inr j, w4)" and e2: "enqueue i UploadS3 w4 = (Inr k, w')"
    using run by (auto simp: router_write_def andThen_Inr now_unix_def okR_def)
  let ?m = "written_meta sha (clock w1 (ticks w1)) p data"
  from ups obtain d where d: "db_upsert ?m (wdb w1) = (Inr i, d)"
    and w2: "w2 = w1\<lparr>ticks := Suc (ticks w1), wdb := d\<rparr>" by (auto simp: on_db_run)
  have same: "wdb w1 = wdb w" using put_run(2) [OF put w p] .
  then have i: "i = last_insert_rowid (wdb w)" using db_upsert_files(2) [OF d] old by simp
  have "row_of (wdb w2) p = Some (upserted_row (wdb w) ?m)"
    using db_upsert_row_of [OF d, of p] w2 same by simp
  then have row: "row_of (wdb w') p = Some (upserted_row (wdb w) ?m)"
    using ensure_parent_dirs_run [OF parents p] enqueue_run(1) [OF e1] enqueue_run(1) [OF e2]
    by (simp add: adds_rows_def)
  have wal: "wal_table (wdb w3) = wal_table (wdb w)"
    using ensure_parent_dirs_run [OF parents p] db_upsert_files(3) [OF d] w2 same by (simp add: adds_rows_def)
  show thesis
    by (rule that [OF row, of
          "\<lparr> w_id = j, w_file_id = i, w_op = wal_op_as_str ReplicateNas, w_enqueued_at = clock w3 (ticks w3),
             w_attempts = 0, w_last_error = None \<rparr>"
          "\<lparr> w_id = k, w_file_id = i, w_op = wal_op_as_str UploadS3, w_enqueued_at = clock w4 (ticks w4),
             w_attempts = 0, w_last_error = None \<rparr>"])
      (use enqueue_run(5) [OF e1 refl] enqueue_run(5) [OF e2 refl] wal old i in \<open>simp_all add: upserted_row_id\<close>)
qed

end

end
