(* ===== verification/Promotion.thy ===== *)
theory Promotion
  imports Wal_Replay
begin

text \<open>
  The promotion task that \<open>run_serve\<close> (\<open>fvfsd/src/main.rs\<close>) spawns: it takes the signals
  the router sent, one after the other, reads the file again, stores it on the local tier and then
  sets the local bit in the row that it finds at that moment.
\<close>

definition mark_local :: "'b tier_router \<Rightarrow> fvfs_path \<Rightarrow> 'b world \<Rightarrow> 'b world" where
  "mark_local r path w =
     (case on_db (db_get path) w of
        (Inl e, w1) \<Rightarrow> w1
      | (Inr None, w1) \<Rightarrow> w1
      | (Inr (Some meta), w1) \<Rightarrow>
          ignoring (on_db (db_set_tier_bitmask (fm_id meta) (bm_set Local (fm_tier_bitmask meta)))) w1)"

definition promote :: "'b tier_router \<Rightarrow> fvfs_path \<Rightarrow> 'b world \<Rightarrow> 'b world" where
  "promote r path w =
     (case router_read r path w of
        (Inl e, w1) \<Rightarrow> w1
      | (Inr data, w1) \<Rightarrow>
          (case on_store Local (be_put (rt_local r) path data) w1 of
             (Inl e, w2) \<Rightarrow> w2
           | (Inr _, w2) \<Rightarrow> mark_local r path w2))"

definition promote_next :: "'b tier_router \<Rightarrow> 'b world \<Rightarrow> 'b world" where
  "promote_next r w =
     (case promote_q w of
        [] \<Rightarrow> w
      | sig # rest \<Rightarrow> promote r (sig_path sig) (w\<lparr>promote_q := rest\<rparr>))"

context tier_stack
begin

lemma mark_local_keeps:
  assumes w: "keeps sha q d w" and local: "p = q \<Longrightarrow> copy w Local q = Some d"
  shows "keeps sha q d (mark_local r p w)"
proof -
  obtain r1 db where get: "db_get p (wdb w) = (r1, db)" by fastforce
  let ?w1 = "w\<lparr>wdb := db\<rparr>"
  have run: "on_db (db_get p) w = (r1, ?w1)" using get by (auto simp: on_db_run)
  have "preserves (keeps sha q d) (on_db (db_get p))"
    by (rule on_db_keeps [OF db_queries_wf(1)]) (rule same_tables_row_of [OF db_get_run(1)])
  note w1 = preservesD [OF this w run]
  show ?thesis
  proof (cases "\<exists>m. r1 = Inr (Some m)")
    case False
    with run w1 show ?thesis by (auto simp: mark_local_def split: sum.splits option.splits)
  next
    case True
    then obtain m where m: "r1 = Inr (Some m)" by blast
    then obtain row where row: "row_of (wdb w) p = Some row" "m = row_to_metadata row"
      using db_get_run(2) [OF get, of "Some m"] by (cases "row_of (wdb w) p") auto
    have row1: "row_of (wdb ?w1) p = Some row"
      using db_get_run(1) [OF get] row(1) by (simp add: same_tables_row_of)
    obtain r2 db2 where upd: "db_set_tier_bitmask (r_id row) (bm_set Local (row_bm row)) (wdb ?w1) = (r2, db2)"
      by fastforce
    have "keeps sha q d (?w1\<lparr>wdb := db2\<rparr>)"
    proof (rule set_bitmask_keeps [OF w1 [THEN conjunct1] row1 upd])
      show "holds content sha ?w1 q d" "holds content sha ?w1 q d" using w1 by simp_all
      show "r_is_dir row = 0 \<and> r_sha256 row = sha d \<and>
          r_size_bytes row = u64_as_i64 (of_nat (length d)) \<and>
          copies_ok (\<lambda>t. copy ?w1 t p) (bm_set Local (row_bm row)) d" if "p = q"
        using w1 row1 that local [OF that] by (auto simp: holds_def copies_ok_def)
    qed
    then show ?thesis
      using run m row(2) upd by (simp add: mark_local_def ignoring_def on_db_def zoom_def)
  qed
qed

lemma read_normal:
  assumes "router_read r p w = (Inr data, w1)" "ok w"
  shows "normal_path p"
  using read_run(2) [OF assms refl] assms(2) by (auto simp: world_ok_def dest: row_of_normal)

lemma promote_keeps:
  assumes w: "keeps sha q d w"
  shows "keeps sha q d (promote r p w)"
proof -
  obtain r1 w1 where read: "router_read r p w = (r1, w1)" by fastforce
  note w1 = preservesD [OF read_keeps w read]
  show ?thesis
  proof (cases r1)
    case (Inl e)
    with read w1 show ?thesis by (simp add: promote_def)
  next
    case (Inr data)
    have p: "normal_path p" using read [unfolded Inr] w by (blast intro: read_normal)
    obtain r2 w2 where put: "on_store Local (be_put (backend_of r Local) p data) w1 = (r2, w2)" by fastforce
    have data: "p = q \<Longrightarrow> data = d"
      using read_current [OF read [unfolded Inr] w [THEN conjunct1]] w by blast
    note w2 = preservesD [OF put_keeps [OF p data] w1 put]
    show ?thesis
    proof (cases r2)
      case (Inl e)
      with read Inr put w2 \<open>r1 = _\<close> show ?thesis by (simp add: promote_def)
    next
      case (Inr u)
      have "p = q \<Longrightarrow> copy w2 Local q = Some d"
        using put_run(5) [OF put w1 [THEN conjunct1] p] Inr data by auto
      from mark_local_keeps [OF w2 this] show ?thesis
        using read \<open>r1 = _\<close> put Inr by (simp add: promote_def)
    qed
  qed
qed

lemma mark_local_ok:
  assumes "ok w"
  shows "ok (mark_local r p w)"
proof -
  obtain r1 w1 where get: "on_db (db_get p) w = (r1, w1)" by fastforce
  have "ok w1" using preservesD [OF preserves_on_db [OF db_queries_wf(1)] assms get] .
  then show ?thesis
    using get ignoring_preserves [OF preserves_on_db [OF db_set_tier_bitmask_wf], of tinv w1]
    by (auto simp: mark_local_def split: sum.splits option.splits)
qed

lemma promote_ok:
  assumes w: "ok w"
  shows "ok (promote r p w)"
proof -
  obtain r1 w1 where read: "router_read r p w = (r1, w1)" by fastforce
  note w1 = preservesD [OF read_preserves_ok w read]
  show ?thesis
  proof (cases r1)
    case (Inr data)
    have p: "normal_path p" using read [unfolded Inr] w by (blast intro: read_normal)
    obtain r2 w2 where put: "on_store Local (be_put (backend_of r Local) p data) w1 = (r2, w2)" by fastforce
    then have "ok w2" using put_run(1) w1 p by blast
    then show ?thesis using read Inr put mark_local_ok by (cases r2) (simp_all add: promote_def)
  qed (use read w1 in \<open>simp add: promote_def\<close>)
qed

lemma promote_next_keeps: "keeps sha q d w \<Longrightarrow> keeps sha q d (promote_next r w)"
  using promote_keeps by (auto simp: promote_next_def split: list.splits)

lemma promote_next_ok: "ok w \<Longrightarrow> ok (promote_next r w)"
  by (auto simp: promote_next_def intro!: promote_ok split: list.splits)

end

end
