(* ===== verification/Float64.thy ===== *)
theory Float64
  imports Prelude "HOL-Library.Log_Nat"
begin

text \<open>
  The part of Rust's \<open>f64\<close> (IEEE 754 binary64, round to nearest, ties to even) that the eviction
  policy uses: conversion from integers, division, multiplication, addition and comparison. A
  finite value is the rational number it stands for; the sign of zero is not kept, which no
  operation here can observe as the policy never divides by zero. The lemmas show that rounding is
  monotone, hence so are the operations on non-negative numbers.
\<close>

datatype f64 = NaN | Infinity bool | Finite rat

definition round_ties_even :: "rat \<Rightarrow> int" where
  "round_ties_even q =
     (let f = \<lfloor>q\<rfloor>; r = q - of_int f
      in if r < 1 / 2 then f else if 1 / 2 < r then f + 1 else if even f then f else f + 1)"

text \<open>\<open>2 ^ binary_exponent x \<le> x < 2 ^ (binary_exponent x + 1)\<close> for positive \<open>x\<close>.\<close>

definition binary_exponent :: "rat \<Rightarrow> int" where
  "binary_exponent x =
     (let (a, b) = quotient_of x; e = int (floorlog 2 (nat a)) - int (floorlog 2 (nat b))
      in if (2 :: rat) powi e \<le> x then e else e - 1)"

definition ulp_exponent :: "rat \<Rightarrow> int" where
  "ulp_exponent x = max (binary_exponent x) (- 1022) - 52"

definition round_pos :: "rat \<Rightarrow> rat" where
  "round_pos x = of_int (round_ties_even (x / 2 powi ulp_exponent x)) * 2 powi ulp_exponent x"

definition f64_of_rat :: "rat \<Rightarrow> f64" where
  "f64_of_rat x =
     (if x = 0 then Finite 0
      else let y = round_pos \<bar>x\<bar>
           in if 2 ^ 1024 \<le> y then Infinity (x < 0) else Finite (if x < 0 then - y else y))"

definition f64_of_int :: "int \<Rightarrow> f64" where
  "f64_of_int i = f64_of_rat (of_int i)"

fun f64_div :: "f64 \<Rightarrow> f64 \<Rightarrow> f64" where
  "f64_div (Finite a) (Finite b) =
     (if b = 0 then if a = 0 then NaN else Infinity (a < 0) else f64_of_rat (a / b))"
| "f64_div (Finite a) (Infinity s) = Finite 0"
| "f64_div (Infinity s) (Finite b) = Infinity (s \<noteq> (b < 0))"
| "f64_div _ _ = NaN"

fun f64_mul :: "f64 \<Rightarrow> f64 \<Rightarrow> f64" where
  "f64_mul (Finite a) (Finite b) = f64_of_rat (a * b)"
| "f64_mul (Finite a) (Infinity s) = (if a = 0 then NaN else Infinity (s \<noteq> (a < 0)))"
| "f64_mul (Infinity s) (Finite b) = (if b = 0 then NaN else Infinity (s \<noteq> (b < 0)))"
| "f64_mul (Infinity s) (Infinity t) = Infinity (s \<noteq> t)"
| "f64_mul _ _ = NaN"

fun f64_add :: "f64 \<Rightarrow> f64 \<Rightarrow> f64" where
  "f64_add (Finite a) (Finite b) = f64_of_rat (a + b)"
| "f64_add (Finite a) (Infinity s) = Infinity s"
| "f64_add (Infinity s) (Finite b) = Infinity s"
| "f64_add (Infinity s) (Infinity t) = (if s = t then Infinity s else NaN)"
| "f64_add _ _ = NaN"

datatype ordering = Less | Equal | Greater

definition rat_cmp :: "rat \<Rightarrow> rat \<Rightarrow> ordering" where
  "rat_cmp a b = (if a < b then Less else if a = b then Equal else Greater)"

fun f64_partial_cmp :: "f64 \<Rightarrow> f64 \<Rightarrow> ordering option" where
  "f64_partial_cmp (Finite a) (Finite b) = Some (rat_cmp a b)"
| "f64_partial_cmp (Finite a) (Infinity s) = Some (if s then Greater else Less)"
| "f64_partial_cmp (Infinity s) (Finite b) = Some (if s then Less else Greater)"
| "f64_partial_cmp (Infinity s) (Infinity t) =
     Some (if s = t then Equal else if s then Less else Greater)"
| "f64_partial_cmp _ _ = None"

section \<open>Rounding is monotone\<close>

lemma round_ties_even_mono: "x \<le> y \<Longrightarrow> round_ties_even x \<le> round_ties_even y"
proof (cases "\<lfloor>x\<rfloor> = \<lfloor>y\<rfloor>")
  case True
  moreover assume "x \<le> y"
  ultimately show ?thesis by (auto simp: round_ties_even_def Let_def)
next
  case False
  assume "x \<le> y"
  then have "\<lfloor>x\<rfloor> \<le> \<lfloor>y\<rfloor>" by (rule floor_mono)
  with False have "\<lfloor>x\<rfloor> + 1 \<le> \<lfloor>y\<rfloor>" by simp
  then show ?thesis by (auto simp: round_ties_even_def Let_def)
qed

lemma round_ties_even_int [simp]: "round_ties_even (of_int n) = n"
  by (simp add: round_ties_even_def)

lemma binary_exponent:
  assumes "0 < x"
  shows "2 powi binary_exponent x \<le> x" "x < 2 powi (binary_exponent x + 1)"
proof -
  obtain a b where ab: "quotient_of x = (a, b)" by fastforce
  then have b: "0 < b" by (rule quotient_of_denom_pos)
  have x: "x = of_int a / of_int b" using ab by (rule quotient_of_div)
  with assms b have a: "0 < a" by (simp add: zero_less_divide_iff)
  let ?la = "floorlog 2 (nat a)" and ?lb = "floorlog 2 (nat b)"
  let ?e = "int ?la - int ?lb"
  have pow: "(2 :: rat) ^ (floorlog 2 (nat c) - 1) \<le> of_int c \<and> of_int c < (2 :: rat) ^ floorlog 2 (nat c) \<and>
      1 \<le> floorlog 2 (nat c)" if "0 < c" for c
  proof -
    have "2 ^ (floorlog 2 (nat c) - 1) \<le> nat c \<and> nat c < 2 ^ floorlog 2 (nat c)"
      using floorlog_bounds [of "nat c" 2] that by simp
    then have "(of_nat (2 ^ (floorlog 2 (nat c) - 1)) :: rat) \<le> of_nat (nat c) \<and>
        (of_nat (nat c) :: rat) < of_nat (2 ^ floorlog 2 (nat c))"
      by (simp only: of_nat_le_iff of_nat_less_iff simp_thms)
    moreover have "1 \<le> floorlog 2 (nat c)" using that by (simp add: floorlog_def)
    ultimately show ?thesis using that by simp
  qed
  have quot: "(2 :: rat) powi (int m - int n) = 2 ^ m / 2 ^ n" for m n
    by (simp add: power_int_diff)
  have "?e + 1 = int ?la - int (?lb - 1)" "?e - 1 = int (?la - 1) - int ?lb"
    using pow [OF a] pow [OF b] by linarith+
  then have "x < 2 powi (?e + 1)" "2 powi (?e - 1) \<le> x"
    using pow [OF a] pow [OF b] a b unfolding x
    by (auto simp only: quot intro!: frac_less frac_le) (auto simp: less_imp_le)
  then show "2 powi binary_exponent x \<le> x" "x < 2 powi (binary_exponent x + 1)"
    by (auto simp: binary_exponent_def ab Let_def)
qed

lemma round_pos_bounds:
  assumes "0 < x" "binary_exponent x < e" "- 1022 \<le> e"
  shows "round_pos x \<le> 2 powi e"
proof -
  let ?u = "ulp_exponent x"
  have ule: "?u \<le> e" using assms by (simp add: ulp_exponent_def)
  then obtain n where n: "e = ?u + int n" using zle_iff_zadd by blast
  have "x < 2 powi (binary_exponent x + 1)" using assms(1) by (rule binary_exponent)
  also have "\<dots> \<le> 2 powi e" using assms(2) by (intro power_int_increasing) auto
  finally have "x \<le> 2 powi ?u * 2 ^ n" by (simp add: n power_int_add)
  then have "x / 2 powi ?u \<le> of_int (2 ^ n)" by (simp add: field_simps)
  from round_ties_even_mono [OF this] have "round_ties_even (x / 2 powi ?u) \<le> 2 ^ n"
    by (simp only: round_ties_even_int)
  then have "(of_int (round_ties_even (x / 2 powi ?u)) :: rat) \<le> 2 ^ n"
    by (metis of_int_le_iff of_int_numeral of_int_power)
  then show ?thesis by (simp add: round_pos_def n power_int_add mult.commute mult_right_mono)
qed

lemma round_pos_ge:
  assumes "0 < x" "- 1022 \<le> binary_exponent x"
  shows "2 powi binary_exponent x \<le> round_pos x"
proof -
  let ?u = "ulp_exponent x"
  have e: "binary_exponent x = ?u + int 52" using assms by (simp add: ulp_exponent_def)
  have "(2 :: rat) powi (?u + int 52) = 2 powi ?u * 2 ^ 52"
    by (subst power_int_add) (simp_all only: power_int_of_nat, simp)
  with binary_exponent(1) [OF assms(1)] have "2 powi ?u * 2 ^ 52 \<le> x" by (simp only: e)
  then have "of_int (2 ^ 52) \<le> x / 2 powi ?u" by (simp add: field_simps)
  from round_ties_even_mono [OF this] have "2 ^ 52 \<le> round_ties_even (x / 2 powi ?u)"
    by (simp only: round_ties_even_int)
  then have "(2 :: rat) ^ 52 \<le> of_int (round_ties_even (x / 2 powi ?u))"
    by (metis of_int_le_iff of_int_numeral of_int_power)
  then have "2 ^ 52 * 2 powi ?u \<le> of_int (round_ties_even (x / 2 powi ?u)) * (2 :: rat) powi ?u"
    by (intro mult_right_mono) auto
  then show ?thesis unfolding round_pos_def e by (simp add: power_int_add mult.commute)
qed

lemma binary_exponent_mono:
  assumes "0 < x" "x \<le> y"
  shows "binary_exponent x \<le> binary_exponent y"
proof (rule ccontr)
  assume "\<not> binary_exponent x \<le> binary_exponent y"
  then have "(2 :: rat) powi (binary_exponent y + 1) \<le> 2 powi binary_exponent x"
    by (intro power_int_increasing) auto
  with binary_exponent [of x] binary_exponent [of y] assms show False by linarith
qed

lemma round_pos_mono:
  assumes "0 < x" "x \<le> y"
  shows "round_pos x \<le> round_pos y"
proof (cases "ulp_exponent x = ulp_exponent y")
  case True
  have "x / 2 powi ulp_exponent y \<le> y / 2 powi ulp_exponent y"
    using assms(2) by (intro divide_right_mono) auto
  from round_ties_even_mono [OF this] show ?thesis
    unfolding round_pos_def True by (intro mult_right_mono) auto
next
  case False
  with binary_exponent_mono [OF assms] have "binary_exponent x < binary_exponent y" "- 1022 \<le> binary_exponent y"
    by (auto simp: ulp_exponent_def)
  with assms round_pos_bounds [of x "binary_exponent y"] round_pos_ge [of y] show ?thesis by simp
qed

lemma round_pos_nonneg: "0 < x \<Longrightarrow> 0 \<le> round_pos x"
  using round_ties_even_mono [of 0 "x / 2 powi ulp_exponent x"] round_ties_even_int [of 0]
  by (simp add: round_pos_def)

section \<open>Non-negative numbers\<close>

text \<open>The order of the extended numbers, and the values the policy works with.\<close>

fun f64_le :: "f64 \<Rightarrow> f64 \<Rightarrow> bool" where
  "f64_le (Finite a) (Finite b) = (a \<le> b)"
| "f64_le (Finite a) (Infinity s) = (\<not> s)"
| "f64_le (Infinity s) (Finite b) = s"
| "f64_le (Infinity s) (Infinity t) = (s \<or> \<not> t)"
| "f64_le _ _ = False"

abbreviation nonneg :: "f64 \<Rightarrow> bool" where
  "nonneg x \<equiv> f64_le (Finite 0) x"

lemma partial_cmp_le: "f64_le x y \<Longrightarrow> f64_partial_cmp x y \<noteq> Some Greater \<and> f64_partial_cmp x y \<noteq> None"
  by (cases "(x, y)" rule: f64_le.cases) (auto simp: rat_cmp_def)

lemma f64_of_rat_mono:
  assumes "0 \<le> x" "x \<le> y"
  shows "f64_le (f64_of_rat x) (f64_of_rat y)"
proof (cases "x = 0")
  case True
  with assms round_pos_nonneg [of y] show ?thesis by (auto simp: f64_of_rat_def Let_def)
next
  case False
  with assms round_pos_mono [of x y] show ?thesis by (auto simp: f64_of_rat_def Let_def)
qed

lemma f64_of_rat_nonneg: "0 \<le> x \<Longrightarrow> nonneg (f64_of_rat x)"
  using f64_of_rat_mono [of 0 x] by (simp add: f64_of_rat_def)

lemma f64_of_rat_le_Infinity: "0 \<le> x \<Longrightarrow> f64_le (f64_of_rat x) (Infinity False)"
  by (simp add: f64_of_rat_def Let_def)

lemma f64_add_mono:
  assumes "nonneg a" "f64_le a b" "nonneg c" "f64_le c d"
  shows "f64_le (f64_add a c) (f64_add b d)"
  using assms
  by (cases a; cases b; cases c; cases d) (auto intro!: f64_of_rat_mono f64_of_rat_le_Infinity add_mono)

end
