(* ===== verification/Eviction_Policy.thy ===== *)
theory Eviction_Policy
  imports Fvfs_Types Float64 "HOL-Library.Multiset"
begin

text \<open>
  \<open>fvfs-core/src/eviction.rs\<close>: the score of a file and the order in which files are evicted.
  \<open>score\<close> reads the clock at every call; here the readings of one sort are one value
  \<open>now\<close> (a Unix time in seconds), an argument of the definitions. The lemmas show that with
  non-negative finite weights a score is a number, that a file which was used later and more often
  never scores lower, and that the sort puts the lowest score first.
\<close>

record arc_policy =
  recency_weight :: f64
  frequency_weight :: f64

definition arc_default :: arc_policy where
  "arc_default = \<lparr> recency_weight = f64_of_rat (7 / 10), frequency_weight = f64_of_rat (3 / 10) \<rparr>"

definition score :: "arc_policy \<Rightarrow> i64 \<Rightarrow> file_metadata \<Rightarrow> f64" where
  "score policy now entry =
     (let seconds_since_access = f64_of_int (max 1 (now - fm_accessed_at entry));
          frequency = f64_of_int (uint (fm_access_count_30d entry))
      in f64_add (f64_div (recency_weight policy) seconds_since_access)
                 (f64_mul (frequency_weight policy) frequency))"

definition score_greater :: "arc_policy \<Rightarrow> i64 \<Rightarrow> file_metadata \<Rightarrow> file_metadata \<Rightarrow> bool" where
  "score_greater policy now a b \<longleftrightarrow>
     (case f64_partial_cmp (score policy now a) (score policy now b) of
        Some c \<Rightarrow> c | None \<Rightarrow> Equal) = Greater"

definition rank_for_eviction :: "arc_policy \<Rightarrow> i64 \<Rightarrow> file_metadata list \<Rightarrow> file_metadata list" where
  "rank_for_eviction policy now entries = sort_by (score_greater policy now) entries"

section \<open>Scores\<close>

definition weights_ok :: "arc_policy \<Rightarrow> bool" where
  "weights_ok policy \<longleftrightarrow>
     (\<exists>a b. recency_weight policy = Finite a \<and> frequency_weight policy = Finite b \<and> 0 \<le> a \<and> 0 \<le> b)"

lemma f64_of_int_pos:
  assumes "1 \<le> i"
  obtains (finite) s where "f64_of_int i = Finite s" "1 \<le> s" | (inf) "f64_of_int i = Infinity False"
proof -
  have "quotient_of (1 :: rat) = (1, 1)" by simp
  then have be: "binary_exponent 1 = 0" by (simp add: binary_exponent_def)
  have "(1 :: rat) / 2 powi (- 52) = of_int (2 ^ 52)" by (simp add: power_int_minus)
  moreover have "round_ties_even (of_int (2 ^ 52)) = 2 ^ 52" by (rule round_ties_even_int)
  ultimately have "round_ties_even (1 / 2 powi (- 52)) = 2 ^ 52" by (simp only:)
  then have one: "round_pos 1 = 1"
    by (simp add: round_pos_def ulp_exponent_def be power_int_minus)
  have "round_pos 1 \<le> round_pos (of_int i)" using assms by (intro round_pos_mono) auto
  moreover have "f64_of_int i = (if 2 ^ 1024 \<le> round_pos (of_int i) then Infinity False
      else Finite (round_pos (of_int i)))"
    using assms by (simp add: f64_of_int_def f64_of_rat_def Let_def)
  ultimately show ?thesis using one that by (cases "2 ^ 1024 \<le> round_pos (of_int i)") simp_all
qed

lemma f64_of_int_mono: "\<lbrakk>0 \<le> i; i \<le> j\<rbrakk> \<Longrightarrow> f64_le (f64_of_int i) (f64_of_int j)"
  by (simp add: f64_of_int_def f64_of_rat_mono)

lemma recency_term:
  assumes "0 \<le> a" "1 \<le> i" "i \<le> j"
  shows "nonneg (f64_div (Finite a) (f64_of_int j))"
    and "f64_le (f64_div (Finite a) (f64_of_int j)) (f64_div (Finite a) (f64_of_int i))"
proof -
  have le: "f64_le (f64_of_int i) (f64_of_int j)" using assms by (intro f64_of_int_mono) auto
  have "1 \<le> j" using assms by simp
  then show "nonneg (f64_div (Finite a) (f64_of_int j))"
    by (rule f64_of_int_pos) (use assms(1) in \<open>auto intro!: f64_of_rat_nonneg\<close>)
  show "f64_le (f64_div (Finite a) (f64_of_int j)) (f64_div (Finite a) (f64_of_int i))"
    using le
    by (rule_tac f64_of_int_pos [OF \<open>1 \<le> j\<close>]; rule_tac f64_of_int_pos [OF assms(2)])
      (use assms(1) in \<open>auto intro!: f64_of_rat_mono divide_left_mono f64_of_rat_nonneg\<close>)
qed

lemma f64_of_int_nonneg:
  assumes "0 \<le> i"
  obtains (finite) s where "f64_of_int i = Finite s" "0 \<le> s" | (inf) "f64_of_int i = Infinity False" "0 < i"
proof (cases "i = 0")
  case True
  then show ?thesis using that(1) [of 0] by (simp add: f64_of_int_def f64_of_rat_def)
next
  case False
  with assms have "1 \<le> i" by simp
  then show ?thesis by (rule f64_of_int_pos) (use that assms False in auto)
qed

text \<open>An access count is a 32-bit number, which \<open>f64\<close> represents as a finite value.\<close>

lemma round_pos_le_pow:
  assumes "0 < x" "x < 2 ^ n"
  shows "round_pos x \<le> 2 ^ n"
proof -
  have "(2 :: rat) powi binary_exponent x \<le> x" using assms(1) by (rule binary_exponent)
  with assms(2) have "(2 :: rat) powi binary_exponent x < 2 powi int n" by simp
  then have "binary_exponent x < int n"
    using power_int_increasing [of "int n" "binary_exponent x" "2 :: rat"] by linarith
  from round_pos_bounds [OF assms(1) this] show ?thesis by simp
qed

lemma f64_of_u32:
  obtains s where "f64_of_int (uint (c :: u32)) = Finite s" "0 \<le> s"
proof -
  have "uint c < 2 ^ 32" using uint_lt2p [of c] by simp
  then have small: "(of_int (uint c) :: rat) < 2 ^ 32"
    by (metis of_int_less_iff of_int_numeral of_int_power)
  show ?thesis
  proof (cases "uint c = 0")
    case True
    then show ?thesis using that [of 0] by (simp add: f64_of_int_def f64_of_rat_def)
  next
    case False
    then have "0 < uint c" using uint_ge_0 [of c] by linarith
    then have pos: "0 < (of_int (uint c) :: rat)" by (simp only: of_int_0_less_iff)
    from round_pos_le_pow [OF this small] have "\<not> 2 ^ 1024 \<le> round_pos (of_int (uint c))"
      by (simp add: not_le)
    with pos round_pos_nonneg [OF pos] that show ?thesis
      by (simp add: f64_of_int_def f64_of_rat_def Let_def)
  qed
qed

lemma frequency_term:
  assumes "0 \<le> b" "m \<le> (n :: u32)"
  shows "nonneg (f64_mul (Finite b) (f64_of_int (uint m)))"
    and "f64_le (f64_mul (Finite b) (f64_of_int (uint m))) (f64_mul (Finite b) (f64_of_int (uint n)))"
proof -
  obtain s where s: "f64_of_int (uint m) = Finite s" "0 \<le> s" by (rule f64_of_u32)
  obtain t where t: "f64_of_int (uint n) = Finite t" "0 \<le> t" by (rule f64_of_u32)
  have "s \<le> t" using f64_of_int_mono [of "uint m" "uint n"] s t assms(2) by (simp add: word_le_def)
  with s t assms(1) show "nonneg (f64_mul (Finite b) (f64_of_int (uint m)))"
    and "f64_le (f64_mul (Finite b) (f64_of_int (uint m))) (f64_mul (Finite b) (f64_of_int (uint n)))"
    by (auto intro!: f64_of_rat_mono f64_of_rat_nonneg mult_left_mono)
qed

lemma score_le:
  assumes "weights_ok policy" "fm_accessed_at f \<le> fm_accessed_at g"
    "fm_access_count_30d f \<le> fm_access_count_30d g"
  shows "f64_le (score policy now f) (score policy now g)"
proof -
  obtain a b where w: "recency_weight policy = Finite a" "frequency_weight policy = Finite b" "0 \<le> a" "0 \<le> b"
    using assms(1) by (auto simp: weights_ok_def)
  let ?i = "max 1 (now - fm_accessed_at g)" and ?j = "max 1 (now - fm_accessed_at f)"
  have "1 \<le> ?i" "?i \<le> ?j" using assms(2) by auto
  from recency_term [OF w(3) this] frequency_term [OF w(4) assms(3)] show ?thesis
    unfolding score_def Let_def w by (intro f64_add_mono)
qed

section \<open>The order of eviction\<close>

lemma f64_le_refl_nan: "f64_le x x \<longleftrightarrow> x \<noteq> NaN"
  by (cases x) auto

lemma f64_le_trans: "\<lbrakk>f64_le x y; f64_le y z\<rbrakk> \<Longrightarrow> f64_le x z"
  by (cases x; cases y; cases z) auto

lemma partial_cmp_Greater:
  "\<lbrakk>x \<noteq> NaN; y \<noteq> NaN\<rbrakk> \<Longrightarrow> f64_partial_cmp x y = Some Greater \<longleftrightarrow> \<not> f64_le x y"
  "\<lbrakk>x \<noteq> NaN; y \<noteq> NaN\<rbrakk> \<Longrightarrow> f64_le x y \<or> f64_le y x"
  by (cases x; cases y; auto simp: rat_cmp_def)+

lemma score_not_nan: "weights_ok policy \<Longrightarrow> score policy now f \<noteq> NaN"
  using score_le [of policy f f now] by (simp add: f64_le_refl_nan)

lemma score_greater_iff:
  "weights_ok policy \<Longrightarrow> score_greater policy now a b \<longleftrightarrow> \<not> f64_le (score policy now a) (score policy now b)"
  using partial_cmp_Greater [of "score policy now a" "score policy now b"] score_not_nan
  by (auto simp: score_greater_def split: option.splits)

lemma sorted_wrt_sort_by:
  assumes gt: "\<And>x y. gt x y \<longleftrightarrow> \<not> le x y" and total: "\<And>x y. le x y \<or> le y x"
    and trans: "\<And>x y z. le x y \<Longrightarrow> le y z \<Longrightarrow> le x z"
  shows "sorted_wrt le (sort_by gt xs)"
proof -
  have "sorted_wrt le ys \<Longrightarrow> sorted_wrt le (insert_by gt x ys)" for x ys
    by (induction ys) (use total in \<open>auto simp: gt intro: trans\<close>)
  then show ?thesis by (induction xs) auto
qed

lemma rank_for_eviction_sorted:
  assumes "weights_ok policy"
  shows "sorted_wrt (\<lambda>a b. f64_le (score policy now a) (score policy now b))
           (rank_for_eviction policy now entries)"
  unfolding rank_for_eviction_def
  using partial_cmp_Greater(2) [OF score_not_nan [OF assms] score_not_nan [OF assms]]
  by (intro sorted_wrt_sort_by score_greater_iff [OF assms]) (auto intro: f64_le_trans)

lemma mset_insert_by [simp]: "mset (insert_by gt x ys) = add_mset x (mset ys)"
  by (induction ys) auto

lemma mset_sort_by [simp]: "mset (sort_by gt xs) = mset xs"
  by (induction xs) auto

lemma arc_default_weights: "weights_ok arc_default"
proof -
  have "\<exists>a. f64_of_rat x = Finite a \<and> 0 \<le> a" if "0 < x" "x < 1" for x
  proof -
    have "round_pos x \<le> 1" "0 \<le> round_pos x" using round_pos_le_pow [of x 0] round_pos_nonneg [of x] that by simp_all
    moreover have "(1 :: rat) < 2 ^ 1024" by (rule one_less_power) simp_all
    ultimately show ?thesis using that by (simp add: f64_of_rat_def Let_def)
  qed
  from this [of "7 / 10"] this [of "3 / 10"] show ?thesis
    unfolding weights_ok_def arc_default_def by fastforce
qed





end
