(* ===== verification/Eviction_Progress.thy ===== *)
theory Eviction_Progress
  imports Eviction_Task Tier_Liveness
begin

text \<open>
  The purpose of an eviction cycle: when nothing fails, a tier above its high watermark is brought
  down to the low watermark, or every file that is left on it is one that must not be evicted. The
  accounting in wrapping 64-bit arithmetic is exact on the way: bytes freed plus bytes still on the
  tier stay constant.
\<close>

section \<open>Bytes on a tier\<close>

definition tier_bytes :: "tier \<Rightarrow> db \<Rightarrow> int" where
  "tier_bytes t d = sum_list (map r_size_bytes (filter (on_tier (bitmask t)) (files d)))"

definition sized :: "db \<Rightarrow> bool" where
  "sized d \<longleftrightarrow> (\<forall>row\<in>set (files d). 0 \<le> r_size_bytes row)"

lemma on_tier_iff:
  assumes "row_wf row"
  shows "on_tier (bitmask t) row \<longleftrightarrow> bm_has (row_bm row) t \<and> r_is_dir row = 0"
proof -
  have "r_tier_bitmask row = u8_as_i64 (i64_as_u8 (r_tier_bitmask row))" using assms by (simp add: row_wf_def)
  then show ?thesis
    using sql_tier_test [of "i64_as_u8 (r_tier_bitmask row)" t]
    by (simp add: on_tier_def row_bm_def bm_of_i64_def)
qed

lemma tier_bytes_alt:
  "tier_bytes t d = sum_list (map (\<lambda>x. if on_tier (bitmask t) x then r_size_bytes x else 0) (files d))"
  unfolding tier_bytes_def by (induction "files d" rule: rev_induct) (auto simp: sum_list_map_filter')

lemma tier_bytes_nonneg: "sized d \<Longrightarrow> 0 \<le> tier_bytes t d"
  unfolding tier_bytes_def by (rule sum_list_nonneg) (auto simp: sized_def)

lemma sum_list_update_one:
  assumes "distinct (map k xs)" "x \<in> set xs"
  shows "sum_list (map g (map (\<lambda>y. if k y = k x then f y else y) xs)) = sum_list (map g xs) - g x + (g (f x) :: int)"
  using assms
proof (induction xs)
  case (Cons y ys)
  have same: "map (\<lambda>y. if k y = k x then f y else y) ys = ys" if "k x \<notin> k ` set ys"
    using that by (intro map_idI) (metis imageI)
  show ?case
  proof (cases "x = y")
    case True
    with Cons.prems same show ?thesis by simp
  next
    case False
    with Cons.prems have "x \<in> set ys" "k y \<noteq> k x" by auto
    with Cons show ?thesis by simp
  qed
qed simp

lemma tier_bytes_clear:
  assumes wf: "db_wf d" and row: "row_of d p = Some row" "bm_has (row_bm row) t" "r_is_dir row = 0"
    and files: "files d' = map (\<lambda>x. if r_id x = r_id row
        then x\<lparr>r_tier_bitmask := u8_as_i64 (as_u8 (bm_clear t (row_bm row)))\<rparr> else x) (files d)"
  shows "tier_bytes t d' = tier_bytes t d - r_size_bytes row"
proof -
  let ?f = "\<lambda>x. x\<lparr>r_tier_bitmask := u8_as_i64 (as_u8 (bm_clear t (row_bm row)))\<rparr>"
  have in_files: "row \<in> set (files d)" and rwf: "row_wf row"
    using row_of_SomeD [OF row(1)] row_of_normal [OF wf row(1)] by auto
  have "on_tier (bitmask t) row" using rwf row by (simp add: on_tier_iff)
  moreover have "\<not> on_tier (bitmask t) (?f row)"
  proof -
    have "row_wf (?f row)" using rwf by (simp add: row_wf_def)
    then show ?thesis by (simp add: on_tier_iff)
  qed
  ultimately show ?thesis
    using sum_list_update_one [OF _ in_files, where f = ?f and k = r_id] wf
    by (simp add: tier_bytes_alt files db_wf_def files_wf_def)
qed

lemma unat_i64_as_u64: "\<lbrakk>0 \<le> n; n < 2 ^ 63\<rbrakk> \<Longrightarrow> int (unat (i64_as_u64 n)) = n"
  by (simp add: i64_as_u64_def unsigned_of_int take_bit_int_eq_self)

lemma sql_sum_exact:
  "\<lbrakk>0 \<le> acc; \<forall>x\<in>set xs. 0 \<le> x; acc + sum_list xs < 2 ^ 63\<rbrakk> \<Longrightarrow> sql_sum acc xs = Inr (acc + sum_list xs)"
proof (induction xs arbitrary: acc)
  case (Cons x xs)
  have "0 \<le> sum_list xs" using Cons.prems(2) by (intro sum_list_nonneg) auto
  with Cons.prems have "i64_range (acc + x)" by (simp add: i64_range_def)
  with Cons show ?case by (simp add: add.assoc)
qed simp

lemma bytes_on_tier_live:
  assumes "no_sql_fault d" "sized d" "tier_bytes t d < 2 ^ 63"
  obtains d' where "db_bytes_on_tier (bitmask t) d = (Inr (i64_as_u64 (tier_bytes t d)), d')" "same_tables d d'"
proof -
  have "sql_sum 0 (map r_size_bytes (filter (on_tier (bitmask t)) (files d))) = Inr (tier_bytes t d)"
    using sql_sum_exact [of 0 "map r_size_bytes (filter (on_tier (bitmask t)) (files d))"] assms(2,3)
    by (auto simp: tier_bytes_def sized_def)
  then have "db_bytes_on_tier (bitmask t) d = (Inr (i64_as_u64 (tier_bytes t d)), d\<lparr>stmts := Suc (stmts d)\<rparr>)"
    unfolding db_bytes_on_tier_def using assms(1) by (intro sql_ok) auto
  then show ?thesis using that by simp
qed

lemma files_on_tier_live:
  assumes "no_sql_fault d"
  obtains fs d' where "db_files_on_tier b d = (Inr fs, d')" "same_tables d d'"
  using query_ok [OF assms, of "\<lambda>d. map row_to_metadata (sort_key r_accessed_at (filter (on_tier b) (files d)))"]
  by (auto simp: db_files_on_tier_def)

lemma same_tables_bytes: "same_tables d d' \<Longrightarrow> tier_bytes t d' = tier_bytes t d"
  by (simp add: same_tables_def tier_bytes_def)

section \<open>One cycle\<close>

definition pending ::
    "(tier \<Rightarrow> 'b \<Rightarrow> fvfs_path \<Rightarrow> bytes option) \<Rightarrow> tier \<Rightarrow> 'b world \<Rightarrow> file_metadata list \<Rightarrow> bool" where
  "pending content t w fs \<longleftrightarrow>
     distinct (map fm_path fs) \<and>
     (\<forall>f\<in>set fs. \<exists>row. row_of (wdb w) (fm_path f) = Some row \<and> f = row_to_metadata row \<and>
        r_is_dir row = 0 \<and> bm_has (row_bm row) t \<and> intact content w (fm_path f))"

definition evictable :: "tier \<Rightarrow> 'b world \<Rightarrow> fvfs_path \<Rightarrow> file_row \<Rightarrow> bool" where
  "evictable t w p row \<longleftrightarrow>
     row_of (wdb w) p = Some row \<and> r_is_dir row = 0 \<and> bm_has (row_bm row) t \<and>
     safe_to_evict_from (row_bm row) t"

context live_stack
begin

lemma evict_step_pending:
  assumes fs: "pending content t w (f # fs)"
    and rows: "\<And>q. q \<noteq> fm_path f \<Longrightarrow> row_of (wdb w') q = row_of (wdb w) q"
    and copies: "\<And>u q. q \<noteq> fm_path f \<Longrightarrow> copy w' u q = copy w u q"
  shows "pending content t w' fs"
  unfolding pending_def
proof (intro conjI ballI)
  show "distinct (map fm_path fs)" using fs by (simp add: pending_def)
  fix g assume g: "g \<in> set fs"
  have "distinct (map fm_path (f # fs))" using fs by (simp only: pending_def)
  with g have "fm_path g \<noteq> fm_path f" by (metis distinct.simps(2) image_eqI list.map(2) list.set_map)
  moreover have "\<exists>row. row_of (wdb w) (fm_path g) = Some row \<and> g = row_to_metadata row \<and>
      r_is_dir row = 0 \<and> bm_has (row_bm row) t \<and> intact content w (fm_path g)"
    using fs [unfolded pending_def, THEN conjunct2, THEN bspec, of g] g by simp
  then obtain row where "row_of (wdb w) (fm_path g) = Some row" "g = row_to_metadata row"
    "r_is_dir row = 0" "bm_has (row_bm row) t" "intact content w (fm_path g)" by (elim exE conjE)
  ultimately show "\<exists>row. row_of (wdb w') (fm_path g) = Some row \<and> g = row_to_metadata row \<and>
        r_is_dir row = 0 \<and> bm_has (row_bm row) t \<and> intact content w' (fm_path g)"
    using rows copies by (intro exI [of _ row]) (simp add: intact_def)
qed

lemma evict_files_progress:
  assumes "ok w" "all_up up w" "pending content t w fs" "sized (wdb w)"
    "int (unat freed) + tier_bytes t (wdb w) = U" "U < 2 ^ 63"
    "evict_files r t target fs freed w = (freed', w')"
  shows "ok w' \<and> all_up up w' \<and> sized (wdb w') \<and> int (unat freed') + tier_bytes t (wdb w') = U \<and>
    (target \<le> freed' \<or>
     (\<forall>p row. evictable t w' p row \<longrightarrow> row_of (wdb w) p = Some row \<and> p \<notin> fm_path ` set fs))"
  using assms
proof (induction fs arbitrary: freed w)
  case Nil
  then show ?case by (auto simp: evictable_def)
next
  case (Cons f fs)
  from Cons.prems(3) obtain row where row: "row_of (wdb w) (fm_path f) = Some row" "f = row_to_metadata row"
    "r_is_dir row = 0" "bm_has (row_bm row) t" "intact content w (fm_path f)" by (auto simp: pending_def)
  have wf: "db_wf (wdb w)" using Cons.prems(1) by (simp add: world_ok_def)
  consider (stop) "target \<le> freed" | (unsafe) "\<not> target \<le> freed" "\<not> safe_to_evict_from (row_bm row) t"
    | (evict) "\<not> target \<le> freed" "safe_to_evict_from (row_bm row) t" by blast
  then show ?case
  proof cases
    case stop
    with Cons.prems show ?thesis by auto
  next
    case unsafe
    have "pending content t w fs" using Cons.prems(3) by (simp add: pending_def)
    moreover have "evict_files r t target fs freed w = (freed', w')"
      using Cons.prems(7) unsafe row(2) by simp
    ultimately have IH: "ok w' \<and> all_up up w' \<and> sized (wdb w') \<and>
      int (unat freed') + tier_bytes t (wdb w') = U \<and> (target \<le> freed' \<or>
       (\<forall>p row. evictable t w' p row \<longrightarrow> row_of (wdb w) p = Some row \<and> p \<notin> fm_path ` set fs))"
      using Cons by blast
    with unsafe row(1) show ?thesis by (auto simp: evictable_def)
  next
    case evict
    obtain w1 where run: "evict_from_tier r (fm_path f) t w = (Inr (), w1)" and w1: "ok w1" "all_up up w1"
      and files1: "files (wdb w1) = map (\<lambda>x. if r_id x = r_id row
        then x\<lparr>r_tier_bitmask := u8_as_i64 (as_u8 (bm_clear t (row_bm row)))\<rparr> else x) (files (wdb w))"
      and rows1: "\<And>q. row_of (wdb w1) q = (if q = fm_path f
        then Some (row\<lparr>r_tier_bitmask := u8_as_i64 (as_u8 (bm_clear t (row_bm row)))\<rparr>) else row_of (wdb w) q)"
      and copies1: "\<And>u q. u \<noteq> t \<or> q \<noteq> fm_path f \<Longrightarrow> copy w1 u q = copy w u q"
      using evict_live [OF Cons.prems(1,2) row(5,1,3,4) evict(2)] by blast
    let ?n = "r_size_bytes row"
    have bytes: "tier_bytes t (wdb w1) = tier_bytes t (wdb w) - ?n"
      using tier_bytes_clear [OF wf row(1,4,3) files1] .
    have sized1: "sized (wdb w1)" using Cons.prems(4) by (auto simp: sized_def files1)
    have n: "0 \<le> ?n" using Cons.prems(4) row_of_SomeD [OF row(1)] by (simp add: sized_def)
    have le: "int (unat freed) + ?n \<le> U"
      using bytes tier_bytes_nonneg [OF sized1, of t] Cons.prems(5) by linarith
    then have small: "?n < 2 ^ 63" using Cons.prems(6) by linarith
    have size: "int (unat (fm_size_bytes f)) = ?n" using unat_i64_as_u64 [OF n small] row(2) by simp
    have "unat (freed + fm_size_bytes f) = unat freed + unat (fm_size_bytes f)"
    proof -
      have "int (unat freed) + int (unat (fm_size_bytes f)) < 9223372036854775808"
        using le size Cons.prems(6) by simp
      then have "unat freed + unat (fm_size_bytes f) < 18446744073709551616" by linarith
      then show ?thesis by (simp add: unat_word_ariths(1))
    qed
    then have "int (unat (freed + fm_size_bytes f)) + tier_bytes t (wdb w1) = U"
      using bytes size Cons.prems(5) by simp
    moreover have "pending content t w1 fs"
      using evict_step_pending [OF Cons.prems(3)] rows1 copies1 by simp
    moreover have "evict_files r t target fs (freed + fm_size_bytes f) w1 = (freed', w')"
      using Cons.prems(7) evict row(2) run by simp
    ultimately have IH: "ok w' \<and> all_up up w' \<and> sized (wdb w') \<and>
      int (unat freed') + tier_bytes t (wdb w') = U \<and> (target \<le> freed' \<or>
       (\<forall>p row. evictable t w' p row \<longrightarrow> row_of (wdb w1) p = Some row \<and> p \<notin> fm_path ` set fs))"
      using Cons.IH w1 sized1 Cons.prems(6) by blast
    have "row_of (wdb w) p = Some row' \<and> p \<notin> fm_path ` set (f # fs)"
      if "\<not> target \<le> freed'" and ev: "evictable t w' p row'" for p row'
    proof -
      have row': "row_of (wdb w1) p = Some row'" "p \<notin> fm_path ` set fs" using IH that by blast+
      moreover have "p \<noteq> fm_path f"
      proof
        assume "p = fm_path f"
        with row'(1) rows1 [of p] have "\<not> bm_has (row_bm row') t" by auto
        with ev show False by (simp add: evictable_def)
      qed
      ultimately show ?thesis using rows1 [of p] by simp
    qed
    with IH show ?thesis by blast
  qed
qed

text \<open>The rows that \<open>files_on_tier\<close> loads are exactly the files on the tier.\<close>

lemma pending_loaded:
  assumes ok: "ok w" and intact: "\<And>p. intact content w p"
    and fs: "set fs = row_to_metadata ` {row \<in> set (files (wdb w)). on_tier (bitmask t) row}"
      "distinct (map fm_path fs)"
  shows "pending content t w fs"
  unfolding pending_def
proof (intro conjI ballI)
  show "distinct (map fm_path fs)" by (rule fs)
  have wf: "db_wf (wdb w)" using ok by (simp add: world_ok_def)
  fix f assume "f \<in> set fs"
  then obtain row where row: "row \<in> set (files (wdb w))" "on_tier (bitmask t) row" "f = row_to_metadata row"
    using fs(1) by auto
  note at = row_of_in_files [OF wf row(1)]
  have "row_wf row" using row_of_normal [OF wf at] by simp
  moreover have "fm_path f = FvfsPath (r_path row)" using fm_path_row_of [OF wf at] row(3) by simp
  ultimately show "\<exists>row. row_of (wdb w) (fm_path f) = Some row \<and> f = row_to_metadata row \<and>
      r_is_dir row = 0 \<and> bm_has (row_bm row) t \<and> intact content w (fm_path f)"
    using at row on_tier_iff intact by (intro exI [of _ row]) auto
qed

lemma loaded_paths_distinct:
  assumes "db_wf d" "db_files_on_tier b d = (Inr fs, d')"
  shows "distinct (map fm_path (sort_by gt fs))"
    "set (sort_by gt fs) = row_to_metadata ` {row \<in> set (files d). on_tier b row}"
proof -
  have fs: "fs = map row_to_metadata (sort_key r_accessed_at (filter (on_tier b) (files d)))"
    using query_run [OF assms(2) [unfolded db_files_on_tier_def]] by simp
  have "inj_on (fm_path \<circ> row_to_metadata) (set (files d))"
    using assms(1) fm_path_row
    by (auto simp: inj_on_def db_wf_def files_wf_def list_all_iff distinct_map dest!: inj_onD)
  moreover have "distinct (files d)" using assms(1) by (simp add: db_wf_def files_wf_def distinct_map)
  ultimately have "distinct (map (fm_path \<circ> row_to_metadata) (sort_key r_accessed_at (filter (on_tier b) (files d))))"
    by (simp add: distinct_map inj_on_subset [where A = "set (files d)"] subset_iff)
  with fs show "distinct (map fm_path (sort_by gt fs))" by simp
  show "set (sort_by gt fs) = row_to_metadata ` {row \<in> set (files d). on_tier b row}"
    using fs by simp
qed

lemma eviction_cycle_goal:
  assumes w: "ok w" "all_up up w" "sized (wdb w)" and intact: "\<And>p. intact content w p"
    and fits: "tier_bytes t (wdb w) < 2 ^ 63"
  shows "let w' = run_eviction_cycle r policy t wm w in
    tier_bytes t (wdb w') \<le> int (unat (low_bytes wm)) \<or>
    tier_bytes t (wdb w') = tier_bytes t (wdb w) \<and> tier_bytes t (wdb w) \<le> int (unat (high_bytes wm)) \<or>
    (\<forall>p row. \<not> evictable t w' p row)"
proof -
  have fault: "no_sql_fault (wdb w)" using w(2) by (simp add: all_up_def)
  obtain d1 where used: "db_bytes_on_tier (bitmask t) (wdb w) = (Inr (i64_as_u64 (tier_bytes t (wdb w))), d1)"
    and same1: "same_tables (wdb w) d1" using bytes_on_tier_live [OF fault w(3) fits] .
  have fault1: "no_sql_fault d1" using same_tables_faults [OF same1] fault by simp
  obtain fs d2 where load: "db_files_on_tier (bitmask t) d1 = (Inr fs, d2)" and same2: "same_tables d1 d2"
    using files_on_tier_live [OF fault1] .
  have same: "same_tables (wdb w) d2" using same1 same2 by (rule same_tables_trans)
  let ?used = "i64_as_u64 (tier_bytes t (wdb w))"
  have unat_used: "int (unat ?used) = tier_bytes t (wdb w)"
    using unat_i64_as_u64 [OF tier_bytes_nonneg [OF w(3)] fits] .
  let ?w2 = "w\<lparr>wdb := d2\<rparr>"
  let ?w3 = "?w2\<lparr>ticks := Suc (ticks w)\<rparr>"
  let ?target = "u64_saturating_sub ?used (low_bytes wm)"
  let ?fs = "sort_by (score_greater policy (clock w (ticks w))) fs"
  obtain freed w' where ev: "evict_files r t ?target ?fs 0 ?w3 = (freed, w')" by fastforce
  have cycle: "run_eviction_cycle r policy t wm w = (if ?used \<le> high_bytes wm then w\<lparr>wdb := d1\<rparr> else w')"
    using used load ev by (simp add: run_eviction_cycle_def on_db_def zoom_def Let_def)
  have files_same: "files d2 = files (wdb w)" using same by (simp add: same_tables_def)
  have w3: "ok ?w3" "all_up up ?w3" "sized (wdb ?w3)"
    "int (unat (0 :: u64)) + tier_bytes t (wdb ?w3) = tier_bytes t (wdb w)"
    using w same_tables_wf [OF same] same_tables_faults [OF same] files_same
    by (simp_all add: world_ok_def all_up_def sized_def same_tables_bytes [OF same])
  have intact3: "intact content ?w3 p" for p
    using intact [of p] by (simp add: intact_def same_tables_row_of [OF same])
  have wf1: "db_wf d1" using w(1) same_tables_wf [OF same1] by (simp add: world_ok_def)
  have files2: "files d2 = files d1" using same2 by (simp add: same_tables_def)
  note loaded = loaded_paths_distinct [OF wf1 load, of "score_greater policy (clock w (ticks w))"]
  have pend: "pending content t ?w3 ?fs"
    by (rule pending_loaded [OF w3(1) intact3]) (use loaded files2 in simp_all)
  note goal = evict_files_progress [OF w3(1,2) pend w3(3,4) fits ev]
  have low: "tier_bytes t (wdb w') \<le> int (unat (low_bytes wm))" if "?target \<le> freed"
  proof -
    have "unat ?used - unat (low_bytes wm) \<le> unat freed"
      using that by (simp add: word_le_nat_alt unat_u64_saturating_sub)
    then show ?thesis using goal unat_used by linarith
  qed
  have none: "\<not> evictable t w' p row" if "\<not> ?target \<le> freed" for p row
  proof
    assume e: "evictable t w' p row"
    then have at: "row_of d2 p = Some row" "p \<notin> fm_path ` set ?fs" using goal that by auto
    have wf2: "db_wf d2" using w3(1) by (simp add: world_ok_def)
    have "on_tier (bitmask t) row"
      using e row_of_normal [OF wf2 at(1)] by (simp add: evictable_def on_tier_iff)
    then have "row_to_metadata row \<in> set ?fs"
      using loaded(2) row_of_SomeD [OF at(1)] files2 by auto
    with at(2) fm_path_row_of [OF wf2 at(1)] show False by (metis imageI)
  qed
  have "tier_bytes t d1 = tier_bytes t (wdb w)" using same_tables_bytes [OF same1] .
  moreover have "tier_bytes t (wdb w) \<le> int (unat (high_bytes wm))" if "?used \<le> high_bytes wm"
    using that unat_used unfolding word_le_nat_alt by linarith
  ultimately show ?thesis using cycle low none by (auto simp: Let_def)
qed

end

end
