(* ===== verification/Daemon.thy ===== *)
theory Daemon
  imports Uploader_Progress Promotion Eviction_Progress
begin

text \<open>
  The daemon as a whole: the router that \<open>run_serve\<close> (\<open>fvfsd/src/main.rs\<close>) wires up from
  two disk backends and S3, the one the benchmarks use (\<open>fvfs-bench/src/setup.rs\<close>), and the
  step relation of everything that runs against it: requests, start-up replay and the three
  background tasks. A trait object hides the type of its state; here the hidden states of the three
  backends share the type \<open>disk \<times> 's\<close>, of which each backend uses one part.
\<close>

section \<open>Trait objects\<close>

definition via :: "('c \<Rightarrow> 'b) \<Rightarrow> ('b \<Rightarrow> 'c \<Rightarrow> 'c) \<Rightarrow> 'b backend \<Rightarrow> 'c backend" where
  "via getc putc be =
     \<lparr> be_put = (\<lambda>p data. zoom getc putc (be_put be p data)),
       be_get = (\<lambda>p. zoom getc putc (be_get be p)),
       be_delete = (\<lambda>p. zoom getc putc (be_delete be p)),
       be_exists = (\<lambda>p. zoom getc putc (be_exists be p)),
       be_list = (\<lambda>p s. map_option (\<lambda>(res, b). (res, putc b s)) (be_list be p (getc s))),
       be_metadata = (\<lambda>p. zoom getc putc (be_metadata be p)),
       be_tier = be_tier be \<rparr>"

lemma zoom_run: "zoom getc putc m s = (res, s') \<longleftrightarrow> (\<exists>b. m (getc s) = (res, b) \<and> s' = putc b s)"
  by (auto simp: zoom_def split: prod.splits)

lemma preserves_zoom_comp:
  assumes "preserves I m" "\<And>b s. getc (putc b s) = b"
  shows "preserves (\<lambda>s. I (getc s)) (zoom getc putc m)"
proof (rule preservesI)
  fix s res s' assume "I (getc s)" "zoom getc putc m s = (res, s')"
  then show "I (getc s')" using assms(2) by (auto simp: zoom_run intro: preservesD [OF assms(1)])
qed

lemma via_atomic:
  assumes be: "atomic_backend be content tinv" and lens: "\<And>b s. getc (putc b s) = b"
  shows "atomic_backend (via getc putc be) (\<lambda>s. content (getc s)) (\<lambda>s. tinv (getc s))"
proof -
  note st = atomic_backend.axioms(1) [OF be]
  note laws = storage_backend.put_ok [OF st] storage_backend.put_err [OF st]
    storage_backend.get_same [OF st] storage_backend.get_ok [OF st]
    storage_backend.delete_ok [OF st] storage_backend.delete_err [OF st] atomic_backend.put_atomic [OF be]
  note invs = storage_backend.put_inv [OF st] storage_backend.get_inv [OF st] storage_backend.delete_inv [OF st]
  show ?thesis
    by (unfold_locales)
      (auto simp: via_def zoom_run lens intro!: preserves_zoom_comp invs dest: laws)
qed

lemma via_live:
  assumes be: "live_backend be content tinv up" and lens: "\<And>b s. getc (putc b s) = b"
    and st: "storage_backend (via getc putc be) (\<lambda>s. content (getc s)) (\<lambda>s. tinv (getc s))"
  shows "live_backend (via getc putc be) (\<lambda>s. content (getc s)) (\<lambda>s. tinv (getc s)) (\<lambda>s. up (getc s))"
proof (intro live_backend.intro live_backend_axioms.intro st)
  note ups = live_backend.up_put [OF be] live_backend.up_get [OF be] live_backend.up_delete [OF be]
  fix p data s
  show "preserves (\<lambda>s. tinv (getc s) \<and> up (getc s)) (be_put (via getc putc be) p data)"
    "preserves (\<lambda>s. tinv (getc s) \<and> up (getc s)) (be_get (via getc putc be) p)"
    "preserves (\<lambda>s. tinv (getc s) \<and> up (getc s)) (be_delete (via getc putc be) p)"
    using preserves_zoom_comp [OF ups(1), of getc putc] preserves_zoom_comp [OF ups(2), of getc putc]
      preserves_zoom_comp [OF ups(3), of getc putc] lens by (simp_all add: via_def)
  show "\<lbrakk>tinv (getc s); up (getc s); normal_path p; content (getc s) p = Some data\<rbrakk>
      \<Longrightarrow> \<exists>s'. be_get (via getc putc be) p s = (Inr data, s')"
    using live_backend.get_live [OF be, of "getc s" p data] by (auto simp: via_def zoom_run)
  show "\<lbrakk>tinv (getc s); up (getc s); normal_path p; content (getc s) p = Some data\<rbrakk>
      \<Longrightarrow> \<exists>s'. be_delete (via getc putc be) p s = (Inr (), s')"
    using live_backend.delete_live [OF be, of "getc s" p data] by (auto simp: via_def zoom_run)
qed

definition dyn_disk :: "local_disk \<Rightarrow> (disk \<times> 's) backend" where
  "dyn_disk lb = via fst (\<lambda>d s. (d, snd s)) (local_backend lb)"

definition dyn_s3 :: "'s s3 \<Rightarrow> (disk \<times> 's) backend" where
  "dyn_s3 b = via snd (\<lambda>x s. (fst s, x)) (s3_backend b)"

section \<open>The routers\<close>

definition serve_router :: "string list \<Rightarrow> string list \<Rightarrow> 's s3 \<Rightarrow> (disk \<times> 's) tier_router" where
  "serve_router local_path nas_path b =
     \<lparr> rt_local = dyn_disk (local_disk_new local_path Local),
       rt_nas = dyn_disk (new_nas_backend nas_path),
       rt_s3 = dyn_s3 b \<rparr>"

definition bench_router :: "string list \<Rightarrow> disk tier_router" where
  "bench_router tmp =
     \<lparr> rt_local = local_backend (local_disk_new (tmp @ [''local'']) Local),
       rt_nas = local_backend (local_disk_new (tmp @ [''nas'']) Nas),
       rt_s3 = local_backend (local_disk_new (tmp @ [''s3'']) S3) \<rparr>"

text \<open>The abstraction of the states of the three backends.\<close>

fun serve_content ::
    "string list \<Rightarrow> string list \<Rightarrow> 's s3 \<Rightarrow> ('s \<Rightarrow> string \<Rightarrow> string \<Rightarrow> bytes option) \<Rightarrow>
     tier \<Rightarrow> disk \<times> 's \<Rightarrow> fvfs_path \<Rightarrow> bytes option" where
  "serve_content lp np b objs Local s = disk_content (local_disk_new lp Local) (fst s)"
| "serve_content lp np b objs Nas s = disk_content (new_nas_backend np) (fst s)"
| "serve_content lp np b objs S3 s = s3_content objs b (snd s)"

definition serve_inv :: "tier \<Rightarrow> disk \<times> 's \<Rightarrow> bool" where
  "serve_inv t s \<longleftrightarrow> t = S3 \<or> reliable_disk (fst s)"

fun serve_up :: "('s \<Rightarrow> bool) \<Rightarrow> tier \<Rightarrow> disk \<times> 's \<Rightarrow> bool" where
  "serve_up s3up S3 s = s3up (snd s)"
| "serve_up s3up t s = no_io_fault (fst s)"

definition bench_lb :: "string list \<Rightarrow> tier \<Rightarrow> local_disk" where
  "bench_lb tmp t = local_disk_new (tmp @ [tier_label t]) t"

lemma serve_content_fun:
  "serve_content lp np b objs Local = (\<lambda>s. disk_content (local_disk_new lp Local) (fst s))"
  "serve_content lp np b objs Nas = (\<lambda>s. disk_content (new_nas_backend np) (fst s))"
  "serve_content lp np b objs S3 = (\<lambda>s. s3_content objs b (snd s))"
  "serve_up s3up S3 = (\<lambda>s. s3up (snd s))" "t \<noteq> S3 \<Longrightarrow> serve_up s3up t = (\<lambda>s. no_io_fault (fst s))"
  by (cases t; simp add: fun_eq_iff)+

lemma dyn_disk_atomic:
  "atomic_backend (dyn_disk lb) (\<lambda>s. disk_content lb (fst s)) (\<lambda>s. reliable_disk (fst s))"
  unfolding dyn_disk_def by (rule via_atomic [OF local_atomic.atomic_backend_axioms]) simp

lemma dyn_s3_atomic:
  "s3_service (s3_client b) objs \<Longrightarrow> atomic_backend (dyn_s3 b) (\<lambda>s. s3_content objs b (snd s)) (\<lambda>_. True)"
  unfolding dyn_s3_def by (rule via_atomic [OF s3_atomic_backend, where getc = snd]) simp_all

lemma serve_stack:
  assumes "s3_service (s3_client b) objs"
  shows "tier_stack (serve_router lp np b) (serve_content lp np b objs) serve_inv"
proof (rule tier_stack.intro)
  fix t
  show "atomic_backend (backend_of (serve_router lp np b) t) (serve_content lp np b objs t) (serve_inv t)"
    using dyn_disk_atomic dyn_s3_atomic [OF assms]
    by (cases t) (simp_all add: serve_router_def serve_inv_def [abs_def] serve_content_fun)
qed

lemma serve_live:
  assumes "s3_live_service (s3_client b) objs s3up"
  shows "live_stack (serve_router lp np b) (serve_content lp np b objs) serve_inv (serve_up s3up)"
proof (intro live_stack.intro live_stack_axioms.intro)
  show "tier_stack (serve_router lp np b) (serve_content lp np b objs) serve_inv"
    by (rule serve_stack [OF s3_live_service.axioms(1) [OF assms]])
  have disk: "live_backend (dyn_disk lb) (\<lambda>s. disk_content lb (fst s)) (\<lambda>s. reliable_disk (fst s))
      (\<lambda>s. no_io_fault (fst s))" for lb :: local_disk
    using via_live [OF local_live_reliable [of lb], where getc = fst and putc = "\<lambda>d s. (d, snd s)"]
      atomic_backend.axioms(1) [OF dyn_disk_atomic [of lb]] by (simp add: dyn_disk_def)
  have s3: "live_backend (dyn_s3 b) (\<lambda>s. s3_content objs b (snd s)) (\<lambda>_. True) (\<lambda>s. s3up (snd s))"
    using via_live [OF s3_live_backend [OF assms], where getc = snd and putc = "\<lambda>x s. (fst s, x)"]
      atomic_backend.axioms(1) [OF dyn_s3_atomic [OF s3_live_service.axioms(1) [OF assms]]]
    by (simp add: dyn_s3_def)
  fix t
  show "live_backend (backend_of (serve_router lp np b) t) (serve_content lp np b objs t) (serve_inv t) (serve_up s3up t)"
    using disk s3 by (cases t) (simp_all add: serve_router_def serve_inv_def [abs_def] serve_content_fun)
qed

lemma serve_upload:
  assumes "s3_writable_service (s3_client b) objs s3up"
  shows "upload_stack (serve_router lp np b) (serve_content lp np b objs) serve_inv (serve_up s3up)"
proof (intro upload_stack.intro upload_stack_axioms.intro)
  show "live_stack (serve_router lp np b) (serve_content lp np b objs) serve_inv (serve_up s3up)"
    by (rule serve_live [OF s3_writable_service.axioms(1) [OF assms]])
  fix s p data assume "serve_up s3up S3 s"
  then obtain x where "put_object (s3_client b) (s3_bucket b) (s3_key (s3_prefix b) p) data (snd s) = (Inr (), x)"
    using s3_writable_service.put_object_live [OF assms, of "snd s"] by fastforce
  then show "\<exists>s'. be_put (rt_s3 (serve_router lp np b)) p data s = (Inr (), s')"
    by (auto simp: serve_router_def dyn_s3_def via_def zoom_run s3_backend_def s3_put_def map_errR_Inr)
qed

text \<open>The daemon's router over an S3 kept in memory.\<close>

interpretation mem_stack: upload_stack "serve_router lp np (s3_new mem_client bucket pre)"
    "serve_content lp np (s3_new mem_client bucket pre) (\<lambda>s. s)" serve_inv "serve_up (\<lambda>_. True)"
  for lp np :: "string list" and bucket pre :: string
  by (rule serve_upload) (simp add: s3_new_def mem_writable.s3_writable_service_axioms)

interpretation bench: live_stack "bench_router tmp" "\<lambda>t. disk_content (bench_lb tmp t)" "\<lambda>_. reliable_disk"
    "\<lambda>_. no_io_fault"
  for tmp :: "string list"
proof (intro live_stack.intro live_stack_axioms.intro)
  show "tier_stack (bench_router tmp) (\<lambda>t. disk_content (bench_lb tmp t)) (\<lambda>_. reliable_disk)"
  proof (rule tier_stack.intro)
    show "atomic_backend (backend_of (bench_router tmp) t) (disk_content (bench_lb tmp t)) reliable_disk" for t
      using local_atomic.atomic_backend_axioms by (cases t) (simp_all add: bench_router_def bench_lb_def)
  qed
  fix t
  show "live_backend (backend_of (bench_router tmp) t) (disk_content (bench_lb tmp t)) reliable_disk no_io_fault"
    using local_live_reliable by (cases t) (simp_all add: bench_router_def bench_lb_def)
qed

end
