(* ===== verification/Daemon_Steps.thy ===== *)
theory Daemon_Steps
  imports Daemon
begin

text \<open>
  Everything that can happen to a running daemon, as a step relation: a request (from HTTP or FUSE)
  that calls the router or queries the database, start-up replay, a flush of the uploader, a wake-up of the eviction task, a
  promotion. Any order and any number of steps is possible, and any storage, database or network
  failure that the models of those components allow. \<open>runs\<close> collects the events of a run.
\<close>

record settings =
  set_policy :: arc_policy
  set_local_wm :: tier_watermarks
  set_nas_wm :: tier_watermarks
  set_flush_size :: u64

datatype event =
    EvWrite fvfs_path bytes "unit fvfs_result"
  | EvMkdir fvfs_path "unit fvfs_result"
  | EvRead fvfs_path "bytes fvfs_result"
  | EvDelete fvfs_path "unit fvfs_result"
  | EvStat fvfs_path "file_metadata fvfs_result"
  | EvList fvfs_path "file_entry list fvfs_result"
  | EvQuery
  | EvReplay
  | EvFlush
  | EvPromote
  | EvEvict

inductive step ::
    "(bytes \<Rightarrow> string) \<Rightarrow> 'b tier_router \<Rightarrow> settings \<Rightarrow> 'b world \<Rightarrow> event \<Rightarrow> 'b world \<Rightarrow> bool"
  for sha r cfg where
  step_write: "\<lbrakk>normal_path p; router_write sha r p data w = (res, w')\<rbrakk> \<Longrightarrow> step sha r cfg w (EvWrite p data res) w'"
| step_mkdir: "\<lbrakk>normal_path p; router_mkdir p w = (res, w')\<rbrakk> \<Longrightarrow> step sha r cfg w (EvMkdir p res) w'"
| step_read: "\<lbrakk>normal_path p; router_read r p w = (res, w')\<rbrakk> \<Longrightarrow> step sha r cfg w (EvRead p res) w'"
| step_delete: "\<lbrakk>normal_path p; router_delete r p w = (res, w')\<rbrakk> \<Longrightarrow> step sha r cfg w (EvDelete p res) w'"
| step_stat: "\<lbrakk>normal_path p; router_stat p w = (res, w')\<rbrakk> \<Longrightarrow> step sha r cfg w (EvStat p res) w'"
| step_list: "\<lbrakk>normal_path p; router_list p w = (res, w')\<rbrakk> \<Longrightarrow> step sha r cfg w (EvList p res) w'"
| step_query: "same_tables (wdb w) d \<Longrightarrow> step sha r cfg w EvQuery (w\<lparr>wdb := d\<rparr>)"
| step_replay: "step sha r cfg w EvReplay (snd (replay_wal r w))"
| step_flush: "step sha r cfg w EvFlush (flush_pending r (set_flush_size cfg) w)"
| step_promote: "step sha r cfg w EvPromote (promote_next r w)"
| step_evict: "step sha r cfg w EvEvict
    (run_eviction_wakeup r (set_policy cfg) (set_local_wm cfg) (set_nas_wm cfg) w)"

inductive_cases step_readE: "step sha r cfg w (EvRead p res) w'"
inductive_cases step_writeE: "step sha r cfg w (EvWrite p data res) w'"

inductive runs ::
    "(bytes \<Rightarrow> string) \<Rightarrow> 'b tier_router \<Rightarrow> settings \<Rightarrow> 'b world \<Rightarrow> event list \<Rightarrow> 'b world \<Rightarrow> bool"
  for sha r cfg where
  runs_none: "runs sha r cfg w [] w"
| runs_step: "\<lbrakk>step sha r cfg w ev v; runs sha r cfg v evs w'\<rbrakk> \<Longrightarrow> runs sha r cfg w (ev # evs) w'"

inductive_cases runs_ConsE: "runs sha r cfg w (ev # evs) w'"
inductive_cases runs_NilE: "runs sha r cfg w [] w'"

lemma runs_append: "\<lbrakk>runs sha r cfg u es v; runs sha r cfg v fs w\<rbrakk> \<Longrightarrow> runs sha r cfg u (es @ fs) w"
  by (induction rule: runs.induct) (auto intro: runs.intros)

lemma runs_one: "step sha r cfg w ev w' \<Longrightarrow> runs sha r cfg w [ev] w'"
  by (auto intro: runs.intros)

text \<open>The events that are meant to change what is stored at a path.\<close>

fun changes :: "fvfs_path \<Rightarrow> event \<Rightarrow> bool" where
  "changes q (EvWrite p data res) = (p = q)"
| "changes q (EvMkdir p res) = (p = q)"
| "changes q (EvDelete p res) = (p = q)"
| "changes q _ = False"

context tier_stack
begin

lemma list_dir_same: "db_list_dir p d = (res, d') \<Longrightarrow> same_tables d d'"
  unfolding db_list_dir_def Let_def query_def by (erule sql_cases) auto

lemma list_keeps:
  "preserves (keeps sha q d) (router_list p)" "preserves ok (router_list p)"
  unfolding router_list_def
  by (intro preserves_intros on_db_same_keeps; blast intro: list_dir_same)+

lemma query_keeps:
  assumes "same_tables (wdb w) d"
  shows "ok w \<Longrightarrow> ok (w\<lparr>wdb := d\<rparr>)" "keeps sha q x w \<Longrightarrow> keeps sha q x (w\<lparr>wdb := d\<rparr>)"
proof -
  show ok: "ok (w\<lparr>wdb := d\<rparr>)" if "ok w" using that same_tables_wf [OF assms] by (simp add: world_ok_def)
  show "keeps sha q x (w\<lparr>wdb := d\<rparr>)" if "keeps sha q x w"
    using that ok same_world_holds [OF same_world_tables [OF assms]] by simp
qed

lemma step_ok: "\<lbrakk>step sha r cfg w ev w'; ok w\<rbrakk> \<Longrightarrow> ok w'"
  by (induction rule: step.induct)
    (auto simp: router_stat_def
      intro: query_keeps(1) replay_wal_ok flush_pending_ok promote_next_ok eviction_wakeup_ok
      dest: preservesD [OF write_preserves_ok] preservesD [OF mkdir_preserves_ok]
        preservesD [OF read_preserves_ok] preservesD [OF delete_preserves_ok]
        preservesD [OF require_metadata_preserves_ok] preservesD [OF list_keeps(2)])

lemma step_keeps:
  assumes "step sha r cfg w ev w'" "keeps sha q d w" "\<not> changes q ev"
  shows "keeps sha q d w'"
  using assms
proof (induction rule: step.induct)
  case (step_write p data w res w')
  then show ?case using preservesD [OF write_other [of p q sha d data] _ step_write(2)] by simp
next
  case (step_mkdir p w res w')
  then show ?case using preservesD [OF mkdir_other [of p q sha d] _ step_mkdir(2)] by simp
next
  case (step_read p w res w')
  then show ?case using preservesD [OF read_keeps _ step_read(2)] by blast
next
  case (step_delete p w res w')
  then show ?case using preservesD [OF delete_other [of p q sha d] _ step_delete(2)] by auto
next
  case (step_stat p w res w')
  then show ?case using preservesD [OF require_metadata_keeps] by (metis router_stat_def)
next
  case (step_list p w res w')
  then show ?case using preservesD [OF list_keeps(1) _ step_list(2)] by blast
next
  case (step_query w d)
  then show ?case using query_keeps(2) by blast
qed (rule replay_wal_keeps flush_pending_keeps promote_next_keeps eviction_wakeup_keeps, assumption)+

lemma runs_ok: "\<lbrakk>runs sha r cfg w evs w'; ok w\<rbrakk> \<Longrightarrow> ok w'"
  by (induction rule: runs.induct) (auto dest: step_ok)

lemma runs_keeps:
  "\<lbrakk>runs sha r cfg w evs w'; keeps sha q d w; \<forall>ev\<in>set evs. \<not> changes q ev\<rbrakk> \<Longrightarrow> keeps sha q d w'"
proof (induction rule: runs.induct)
  case (runs_step w ev v evs w')
  then show ?case using step_keeps [OF runs_step(1,4)] by simp
qed simp

text \<open>The file system property: a read returns the data of the last write.\<close>

lemma read_last_write:
  assumes w: "ok w" and wr: "step sha r cfg w (EvWrite p data (Inr ())) w1"
    and between: "runs sha r cfg w1 evs w2" "\<forall>ev\<in>set evs. \<not> changes p ev"
    and read: "step sha r cfg w2 (EvRead p (Inr x)) w3"
  shows "x = data"
proof -
  from wr have run: "normal_path p" "router_write sha r p data w = (Inr (), w1)"
    by (auto elim: step_writeE)
  have "keeps sha p data w1"
    using step_ok [OF wr w] write_new_version(1) [OF run(2) w run(1)] by blast
  from runs_keeps [OF between(1) this between(2)] have w2: "keeps sha p data w2" .
  from read have "router_read r p w2 = (Inr x, w3)" by (auto elim: step_readE)
  with w2 show ?thesis using read_current by blast
qed

end

end
