(* ===== verification/Daemon_Fuse.thy ===== *)
theory Daemon_Fuse
  imports Fuse_Common Directory_Listing Daemon_Steps
begin

text \<open>
  \<open>VfsdFuse\<close> (\<open>fvfsd/src/fuse_handler.rs\<close>): every FUSE call of the daemon as a state transformer
  on the world of the router and the inode table. \<open>now\<close> is the reading of \<open>SystemTime::now()\<close>
  that a reply carries. \<open>fuse_handle_moves\<close> shows that a call does to the world only what a sequence of router
  operations does, so that the results on the steps of the daemon apply to FUSE clients as well.
\<close>

record 'b vfsd_fuse =
  vf_world :: "'b world"
  vf_inodes :: inode_table

definition fuse_new :: "'b world \<Rightarrow> 'b vfsd_fuse" where
  "fuse_new w = \<lparr> vf_world = w, vf_inodes = table_new \<rparr>"

text \<open>\<open>spawn_blocking(|| meta.get(path))\<close> with every error turned into \<open>None\<close>.\<close>

definition stored_meta :: "fvfs_path \<Rightarrow> 'b world \<Rightarrow> file_metadata option \<times> 'b world" where
  "stored_meta path w =
     (case on_db (db_get path) w of (Inr meta_opt, w') \<Rightarrow> (meta_opt, w') | (Inl _, w') \<Rightarrow> (None, w'))"

definition fuse_lookup :: "u64 \<Rightarrow> string \<Rightarrow> 'b vfsd_fuse \<Rightarrow> reply \<times> 'b vfsd_fuse" where
  "fuse_lookup parent name s =
     (case child_path (vf_inodes s) parent name of
        Inl e \<Rightarrow> (ReplyError e, s)
      | Inr path \<Rightarrow>
          (case stored_meta path (vf_world s) of
             (None, w) \<Rightarrow> (ReplyError ENOENT, s\<lparr>vf_world := w\<rparr>)
           | (Some meta, w) \<Rightarrow>
               (case get_or_alloc_hint path (Some (i64_as_u64 (fm_id meta) + 10)) (vf_inodes s) of
                  (ino, t) \<Rightarrow> (attr_reply ReplyEntry ino meta, s\<lparr>vf_world := w, vf_inodes := t\<rparr>))))"

definition fuse_getattr :: "i64 \<Rightarrow> u64 \<Rightarrow> 'b vfsd_fuse \<Rightarrow> reply \<times> 'b vfsd_fuse" where
  "fuse_getattr now ino s =
     (if ino = ROOT_INO then (ReplyAttr (root_attr now), s)
      else case table_path (vf_inodes s) ino of
             None \<Rightarrow> (ReplyError ENOENT, s)
           | Some path \<Rightarrow>
               (case stored_meta path (vf_world s) of
                  (None, w) \<Rightarrow> (ReplyError ENOENT, s\<lparr>vf_world := w\<rparr>)
                | (Some meta, w) \<Rightarrow> (attr_reply ReplyAttr ino meta, s\<lparr>vf_world := w\<rparr>)))"

definition fuse_read ::
    "'b tier_router \<Rightarrow> u64 \<Rightarrow> i64 \<Rightarrow> u32 \<Rightarrow> 'b vfsd_fuse \<Rightarrow> reply \<times> 'b vfsd_fuse" where
  "fuse_read r ino offset len s =
     (case table_path (vf_inodes s) ino of
        None \<Rightarrow> (ReplyError ENOENT, s)
      | Some path \<Rightarrow>
          (case router_read r path (vf_world s) of
             (res, w) \<Rightarrow>
               (case res of
                  Inr data \<Rightarrow> ReplyData (read_slice offset len data)
                | Inl e \<Rightarrow> read_error e, s\<lparr>vf_world := w\<rparr>)))"

definition fuse_write ::
    "(bytes \<Rightarrow> string) \<Rightarrow> 'b tier_router \<Rightarrow> u64 \<Rightarrow> i64 \<Rightarrow> bytes \<Rightarrow> 'b vfsd_fuse \<Rightarrow> reply \<times> 'b vfsd_fuse" where
  "fuse_write sha r ino offset data s =
     (case table_path (vf_inodes s) ino of
        None \<Rightarrow> (ReplyError ENOENT, s)
      | Some path \<Rightarrow>
          (case router_read r path (vf_world s) of
             (res, w) \<Rightarrow>
               (case write_splice offset data (unwrap_or_default res) of
                  None \<Rightarrow> (Panicked, s\<lparr>vf_world := w\<rparr>)
                | Some buf \<Rightarrow>
                    (case router_write sha r path buf w of
                       (Inr _, w') \<Rightarrow> (ReplyWritten (of_nat (length data)), s\<lparr>vf_world := w'\<rparr>)
                     | (Inl _, w') \<Rightarrow> (ReplyError EIO, s\<lparr>vf_world := w'\<rparr>)))))"

definition fuse_create ::
    "(bytes \<Rightarrow> string) \<Rightarrow> 'b tier_router \<Rightarrow> i64 \<Rightarrow> u64 \<Rightarrow> string \<Rightarrow> 'b vfsd_fuse \<Rightarrow> reply \<times> 'b vfsd_fuse" where
  "fuse_create sha r now parent name s =
     (case child_path (vf_inodes s) parent name of
        Inl e \<Rightarrow> (ReplyError e, s)
      | Inr path \<Rightarrow>
          (case router_write sha r path [] (vf_world s) of
             (Inl _, w) \<Rightarrow> (ReplyError EIO, s\<lparr>vf_world := w\<rparr>)
           | (Inr _, w) \<Rightarrow>
               (case get_or_alloc_hint path None (vf_inodes s) of
                  (ino, t) \<Rightarrow> (ReplyCreated (fresh_attr now ino RegularFile),
                               s\<lparr>vf_world := w, vf_inodes := t\<rparr>))))"

definition fuse_unlink :: "'b tier_router \<Rightarrow> u64 \<Rightarrow> string \<Rightarrow> 'b vfsd_fuse \<Rightarrow> reply \<times> 'b vfsd_fuse" where
  "fuse_unlink r parent name s =
     (case child_path (vf_inodes s) parent name of
        Inl e \<Rightarrow> (ReplyError e, s)
      | Inr path \<Rightarrow>
          (case router_delete r path (vf_world s) of
             (Inr _, w) \<Rightarrow> (ReplyOk, s\<lparr>vf_world := w, vf_inodes := table_remove path (vf_inodes s)\<rparr>)
           | (Inl (NotFound _), w) \<Rightarrow> (ReplyError ENOENT, s\<lparr>vf_world := w\<rparr>)
           | (Inl _, w) \<Rightarrow> (ReplyError EIO, s\<lparr>vf_world := w\<rparr>)))"

definition fuse_mkdir :: "i64 \<Rightarrow> u64 \<Rightarrow> string \<Rightarrow> 'b vfsd_fuse \<Rightarrow> reply \<times> 'b vfsd_fuse" where
  "fuse_mkdir now parent name s =
     (case child_path (vf_inodes s) parent name of
        Inl e \<Rightarrow> (ReplyError e, s)
      | Inr path \<Rightarrow>
          (case router_mkdir path (vf_world s) of
             (Inl _, w) \<Rightarrow> (ReplyError EIO, s\<lparr>vf_world := w\<rparr>)
           | (Inr _, w) \<Rightarrow>
               (case get_or_alloc_hint path None (vf_inodes s) of
                  (ino, t) \<Rightarrow> (ReplyEntry (fresh_attr now ino DirectoryType),
                               s\<lparr>vf_world := w, vf_inodes := t\<rparr>))))"

definition fuse_rmdir :: "'b tier_router \<Rightarrow> u64 \<Rightarrow> string \<Rightarrow> 'b vfsd_fuse \<Rightarrow> reply \<times> 'b vfsd_fuse" where
  "fuse_rmdir r parent name = fuse_unlink r parent name"

definition fuse_readdir ::
    "(dirent list \<Rightarrow> dirent \<Rightarrow> bool) \<Rightarrow> u64 \<Rightarrow> i64 \<Rightarrow> 'b vfsd_fuse \<Rightarrow> reply \<times> 'b vfsd_fuse" where
  "fuse_readdir full ino offset s =
     (case table_path (vf_inodes s) ino of
        None \<Rightarrow> (ReplyError ENOENT, s)
      | Some dir_path \<Rightarrow>
          (case router_list dir_path (vf_world s) of
             (Inl _, w) \<Rightarrow> (ReplyError EIO, s\<lparr>vf_world := w\<rparr>)
           | (Inr entries, w) \<Rightarrow>
               (case readdir_reply (\<lambda>p. get_or_alloc_hint p None) full ino offset entries (vf_inodes s) of
                  (ds, t) \<Rightarrow> (ReplyDirectory ds, s\<lparr>vf_world := w, vf_inodes := t\<rparr>))))"

definition fuse_setattr ::
    "(bytes \<Rightarrow> string) \<Rightarrow> 'b tier_router \<Rightarrow> i64 \<Rightarrow> u64 \<Rightarrow> u64 option \<Rightarrow> 'b vfsd_fuse \<Rightarrow> reply \<times> 'b vfsd_fuse" where
  "fuse_setattr sha r now ino new_size s =
     (case new_size of
        None \<Rightarrow> fuse_getattr now ino s
      | Some n \<Rightarrow>
          (case table_path (vf_inodes s) ino of
             None \<Rightarrow> (ReplyError ENOENT, s)
           | Some path \<Rightarrow>
               fuse_getattr now ino
                 (if n = 0 then s\<lparr>vf_world := snd (router_write sha r path [] (vf_world s))\<rparr> else s)))"

datatype fuse_call =
    FLookup u64 string
  | FGetattr u64
  | FRead u64 i64 u32
  | FWrite u64 i64 bytes
  | FCreate u64 string
  | FUnlink u64 string
  | FMkdir u64 string
  | FRmdir u64 string
  | FReaddir u64 i64
  | FSetattr u64 "u64 option"

text \<open>The dispatch of \<open>fuser\<close> from a kernel request to the handler of the trait \<open>Filesystem\<close>.\<close>

fun fuse_handle ::
    "(bytes \<Rightarrow> string) \<Rightarrow> 'b tier_router \<Rightarrow> (dirent list \<Rightarrow> dirent \<Rightarrow> bool) \<Rightarrow> i64 \<Rightarrow>
     fuse_call \<Rightarrow> 'b vfsd_fuse \<Rightarrow> reply \<times> 'b vfsd_fuse" where
  "fuse_handle sha r full now (FLookup parent name) = fuse_lookup parent name"
| "fuse_handle sha r full now (FGetattr ino) = fuse_getattr now ino"
| "fuse_handle sha r full now (FRead ino offset len) = fuse_read r ino offset len"
| "fuse_handle sha r full now (FWrite ino offset data) = fuse_write sha r ino offset data"
| "fuse_handle sha r full now (FCreate parent name) = fuse_create sha r now parent name"
| "fuse_handle sha r full now (FUnlink parent name) = fuse_unlink r parent name"
| "fuse_handle sha r full now (FMkdir parent name) = fuse_mkdir now parent name"
| "fuse_handle sha r full now (FRmdir parent name) = fuse_rmdir r parent name"
| "fuse_handle sha r full now (FReaddir ino offset) = fuse_readdir full ino offset"
| "fuse_handle sha r full now (FSetattr ino new_size) = fuse_setattr sha r now ino new_size"

section \<open>The paths of the table\<close>

definition paths_normal :: "inode_table \<Rightarrow> bool" where
  "paths_normal t \<longleftrightarrow> (\<forall>i p. table_path t i = Some p \<longrightarrow> normal_path p)"

lemma paths_normalD: "\<lbrakk>paths_normal t; table_path t i = Some p\<rbrakk> \<Longrightarrow> normal_path p"
  by (auto simp: paths_normal_def)

lemma table_new_normal: "paths_normal table_new"
  by (auto simp: paths_normal_def table_path_def table_new_def split: if_splits)

lemma get_or_alloc_hint_normal:
  "\<lbrakk>get_or_alloc_hint p h t = (i, t'); paths_normal t; normal_path p\<rbrakk> \<Longrightarrow> paths_normal t'"
  by (auto simp: paths_normal_def table_path_def get_or_alloc_hint_def table_insert_def
      split: option.splits if_splits)

lemma table_remove_normal: "paths_normal t \<Longrightarrow> paths_normal (table_remove p t)"
  by (auto simp: paths_normal_def table_path_def table_remove_def split: option.splits if_splits)

lemma child_path_normal: "child_path t parent name = Inr p \<Longrightarrow> normal_path p"
  by (auto simp: child_path_def split: option.splits sum.splits intro: path_join_normal)

lemma emit_entries_table:
  assumes "\<forall>e\<in>set entries. \<forall>t i t'. P t \<longrightarrow> alloc (fe_path e) t = (i, t') \<longrightarrow> P t'"
    and "emit_entries alloc full offset idx entries acc t = (ds, t')" "P t"
  shows "P t'"
  using assms
proof (induction entries arbitrary: idx acc t)
  case (Cons e es)
  obtain i t1 where a: "alloc (fe_path e) t = (i, t1)" by fastforce
  have t1: "P t1" using Cons.prems(1,3) a by (meson list.set_intros(1))
  have "P t'" if "emit_entries alloc full offset idx' es acc' u = (ds, t')" "P u" for idx' acc' u
    by (rule Cons.IH [OF _ that]) (use Cons.prems(1) in \<open>simp only: list.set ball_simps, blast\<close>)
  with Cons.prems(2,3) a t1 show ?case by (auto simp: Let_def split: if_splits)
qed simp

lemma readdir_reply_table:
  assumes "\<forall>e\<in>set entries. \<forall>t i t'. P t \<longrightarrow> alloc (fe_path e) t = (i, t') \<longrightarrow> P t'"
    and "readdir_reply alloc full ino offset entries t = (ds, t')" "P t"
  shows "P t'"
proof -
  have "P t'" if "emit_entries alloc full offset 2 entries acc t = (ds, t')" for acc
    by (rule emit_entries_table [OF assms(1) that assms(3)])
  with assms(2,3) show ?thesis by (auto simp only: readdir_reply_def Let_def split: if_splits)
qed

lemma router_list_normal:
  assumes "router_list p w = (Inr es, w')" "e \<in> set es"
  shows "normal_path (fe_path e)"
proof -
  obtain ms where "db_list_dir p (wdb w) = (Inr ms, wdb w')" "es = map entry_of_metadata ms"
    using assms(1) by (auto simp: router_list_def andThen_Inr on_db_run okR_def)
  with db_list_dir_run(2) [OF this(1) refl] assms(2) obtain row where "fe_path e = fm_path (row_to_metadata row)"
    by (auto simp: entry_of_metadata_def)
  moreover have "normal_path (fm_path (row_to_metadata row))"
    by (auto simp: row_to_metadata_def split: sum.splits intro: path_new_normal)
  ultimately show ?thesis by simp
qed

section \<open>A call is a run of router operations\<close>

lemma stored_meta_stat:
  assumes "stored_meta p w = (m, w')"
  shows "\<exists>res. router_stat p w = (res, w') \<and> (\<forall>x. res = Inr x \<longleftrightarrow> m = Some x)"
  using assms
  by (auto simp: stored_meta_def router_stat_def require_metadata_def andThen_def okR_def errR_def
      split: prod.splits sum.splits option.splits)

lemma runs_two: "\<lbrakk>step sha r cfg w ev v; step sha r cfg v ev' w'\<rbrakk> \<Longrightarrow> runs sha r cfg w [ev, ev'] w'"
  by (auto intro: runs.intros)

text \<open>What one call may do: the paths stay normal, and the world moves by router operations.\<close>

definition fuse_moves ::
    "(bytes \<Rightarrow> string) \<Rightarrow> 'b tier_router \<Rightarrow> settings \<Rightarrow> 'b vfsd_fuse \<Rightarrow> 'b vfsd_fuse \<Rightarrow> bool" where
  "fuse_moves sha r cfg s s' \<longleftrightarrow>
     paths_normal (vf_inodes s') \<and> (\<exists>evs. runs sha r cfg (vf_world s) evs (vf_world s'))"

lemma fuse_moves_refl: "paths_normal (vf_inodes s) \<Longrightarrow> fuse_moves sha r cfg s s"
  by (auto simp: fuse_moves_def intro: runs.intros)

lemma fuse_moves_trans:
  assumes "fuse_moves sha r cfg s u" "fuse_moves sha r cfg u v"
  shows "fuse_moves sha r cfg s v"
  using assms unfolding fuse_moves_def by (blast intro: runs_append)

lemma fuse_moves_step:
  "\<lbrakk>step sha r cfg (vf_world s) ev (vf_world s'); paths_normal (vf_inodes s')\<rbrakk> \<Longrightarrow> fuse_moves sha r cfg s s'"
  unfolding fuse_moves_def by (blast intro: runs_one)

lemma stored_meta_step:
  "\<lbrakk>stored_meta p w = (m, w'); normal_path p\<rbrakk> \<Longrightarrow> \<exists>res. step sha r cfg w (EvStat p res) w'"
  by (metis stored_meta_stat step_stat)

lemma fuse_getattr_moves:
  assumes "fuse_getattr now ino s = (rep, s')" "paths_normal (vf_inodes s)"
  shows "fuse_moves sha r cfg s s'"
proof (cases "\<exists>p m w. ino \<noteq> ROOT_INO \<and> table_path (vf_inodes s) ino = Some p \<and> stored_meta p (vf_world s) = (m, w)")
  case True
  then obtain p m w where p: "ino \<noteq> ROOT_INO" "table_path (vf_inodes s) ino = Some p"
    and m: "stored_meta p (vf_world s) = (m, w)" by blast
  then have "s' = s\<lparr>vf_world := w\<rparr>" using assms(1) by (auto simp: fuse_getattr_def split: option.splits)
  moreover obtain res where "step sha r cfg (vf_world s) (EvStat p res) w"
    using stored_meta_step [OF m paths_normalD [OF assms(2) p(2)]] by blast
  ultimately show ?thesis using assms(2) by (auto intro: fuse_moves_step)
next
  case False
  then have "s' = s" using assms(1)
    by (auto simp: fuse_getattr_def split: if_splits option.splits)
  with assms(2) show ?thesis by (simp add: fuse_moves_refl)
qed

lemma fuse_lookup_moves:
  assumes "fuse_lookup parent name s = (rep, s')" "paths_normal (vf_inodes s)"
  shows "fuse_moves sha r cfg s s'"
proof (cases "child_path (vf_inodes s) parent name")
  case (Inl e)
  with assms show ?thesis by (simp add: fuse_lookup_def fuse_moves_refl)
next
  case (Inr p)
  note p = child_path_normal [OF Inr]
  obtain m w where m: "stored_meta p (vf_world s) = (m, w)" by fastforce
  have "vf_world s' = w" "paths_normal (vf_inodes s')"
    using assms Inr m p
    by (auto simp: fuse_lookup_def split: option.splits prod.splits intro: get_or_alloc_hint_normal)
  with stored_meta_step [OF m p] show ?thesis by (metis fuse_moves_step)
qed

lemma fuse_create_moves:
  assumes "fuse_create sha r now parent name s = (rep, s')" "paths_normal (vf_inodes s)"
  shows "fuse_moves sha r cfg s s'"
proof (cases "child_path (vf_inodes s) parent name")
  case (Inl e)
  with assms show ?thesis by (simp add: fuse_create_def fuse_moves_refl)
next
  case (Inr p)
  note p = child_path_normal [OF Inr]
  obtain res w where run: "router_write sha r p [] (vf_world s) = (res, w)" by fastforce
  have "vf_world s' = w" "paths_normal (vf_inodes s')"
    using assms Inr run p
    by (auto simp: fuse_create_def split: sum.splits prod.splits intro: get_or_alloc_hint_normal)
  with step_write [OF p run] show ?thesis by (metis fuse_moves_step)
qed

lemma fuse_mkdir_moves:
  assumes "fuse_mkdir now parent name s = (rep, s')" "paths_normal (vf_inodes s)"
  shows "fuse_moves sha r cfg s s'"
proof (cases "child_path (vf_inodes s) parent name")
  case (Inl e)
  with assms show ?thesis by (simp add: fuse_mkdir_def fuse_moves_refl)
next
  case (Inr p)
  note p = child_path_normal [OF Inr]
  obtain res w where run: "router_mkdir p (vf_world s) = (res, w)" by fastforce
  have "vf_world s' = w" "paths_normal (vf_inodes s')"
    using assms Inr run p
    by (auto simp: fuse_mkdir_def split: sum.splits prod.splits intro: get_or_alloc_hint_normal)
  with step_mkdir [OF p run] show ?thesis by (metis fuse_moves_step)
qed

lemma fuse_unlink_moves:
  assumes "fuse_unlink r parent name s = (rep, s')" "paths_normal (vf_inodes s)"
  shows "fuse_moves sha r cfg s s'"
proof (cases "child_path (vf_inodes s) parent name")
  case (Inl e)
  with assms show ?thesis by (simp add: fuse_unlink_def fuse_moves_refl)
next
  case (Inr p)
  note p = child_path_normal [OF Inr]
  obtain res w where run: "router_delete r p (vf_world s) = (res, w)" by fastforce
  have "vf_world s' = w" "paths_normal (vf_inodes s')"
    using assms Inr run
    by (auto simp: fuse_unlink_def split: sum.splits prod.splits fvfs_error.splits intro: table_remove_normal)
  with step_delete [OF p run] show ?thesis by (metis fuse_moves_step)
qed

lemma fuse_read_moves:
  assumes "fuse_read r ino offset len s = (rep, s')" "paths_normal (vf_inodes s)"
  shows "fuse_moves sha r cfg s s'"
proof (cases "table_path (vf_inodes s) ino")
  case None
  with assms show ?thesis by (simp add: fuse_read_def fuse_moves_refl)
next
  case (Some p)
  obtain res w where run: "router_read r p (vf_world s) = (res, w)" by fastforce
  with assms Some have "vf_world s' = w" "vf_inodes s' = vf_inodes s" by (auto simp: fuse_read_def)
  with step_read [OF paths_normalD [OF assms(2) Some] run] assms(2) show ?thesis by (metis fuse_moves_step)
qed

lemma fuse_write_moves:
  assumes "fuse_write sha r ino offset data s = (rep, s')" "paths_normal (vf_inodes s)"
  shows "fuse_moves sha r cfg s s'"
proof (cases "table_path (vf_inodes s) ino")
  case None
  with assms show ?thesis by (simp add: fuse_write_def fuse_moves_refl)
next
  case (Some p)
  note p = paths_normalD [OF assms(2) Some]
  obtain res w where run: "router_read r p (vf_world s) = (res, w)" by fastforce
  note first = step_read [where cfg = cfg and sha = sha, OF p run]
  show ?thesis
  proof (cases "write_splice offset data (unwrap_or_default res)")
    case None
    with assms Some run have "s' = s\<lparr>vf_world := w\<rparr>" by (simp add: fuse_write_def)
    with first assms(2) show ?thesis by (auto intro: fuse_moves_step)
  next
    case buf: (Some buf)
    obtain res' w' where wr: "router_write sha r p buf w = (res', w')" by fastforce
    have "s' = s\<lparr>vf_world := w'\<rparr>"
      using assms(1) Some run buf wr by (auto simp: fuse_write_def split: sum.splits)
    with runs_two [OF first step_write [where cfg = cfg, OF p wr]] assms(2) show ?thesis
      by (auto simp: fuse_moves_def)
  qed
qed

lemma fuse_readdir_moves:
  assumes "fuse_readdir full ino offset s = (rep, s')" "paths_normal (vf_inodes s)"
  shows "fuse_moves sha r cfg s s'"
proof (cases "table_path (vf_inodes s) ino")
  case None
  with assms show ?thesis by (simp add: fuse_readdir_def fuse_moves_refl)
next
  case (Some p)
  obtain res w where run: "router_list p (vf_world s) = (res, w)" by fastforce
  have "paths_normal t'"
    if "res = Inr entries" "readdir_reply (\<lambda>p. get_or_alloc_hint p None) full ino offset entries (vf_inodes s) = (ds, t')"
    for entries ds t'
  proof (rule readdir_reply_table [where P = paths_normal, OF _ that(2) assms(2)])
    have "normal_path (fe_path e)" if "e \<in> set entries" for e
      using router_list_normal [OF run [unfolded \<open>res = Inr entries\<close>] that] .
    then show "\<forall>e\<in>set entries. \<forall>t i t'. paths_normal t \<longrightarrow>
        get_or_alloc_hint (fe_path e) None t = (i, t') \<longrightarrow> paths_normal t'"
      using get_or_alloc_hint_normal by blast
  qed
  then have "vf_world s' = w" "paths_normal (vf_inodes s')"
    using assms Some run by (auto simp: fuse_readdir_def split: sum.splits prod.splits)
  with step_list [OF paths_normalD [OF assms(2) Some] run] show ?thesis by (metis fuse_moves_step)
qed

lemma fuse_setattr_moves:
  assumes "fuse_setattr sha r now ino new_size s = (rep, s')" "paths_normal (vf_inodes s)"
  shows "fuse_moves sha r cfg s s'"
proof (cases "\<exists>p n. new_size = Some n \<and> table_path (vf_inodes s) ino = Some p")
  case True
  then obtain p n where p: "new_size = Some n" "table_path (vf_inodes s) ino = Some p" by blast
  obtain res w where run: "router_write sha r p [] (vf_world s) = (res, w)" by fastforce
  let ?u = "if n = 0 then s\<lparr>vf_world := w\<rparr> else s"
  have "fuse_moves sha r cfg s ?u"
    using step_write [where cfg = cfg, OF paths_normalD [OF assms(2) p(2)] run] assms(2)
    by (auto intro: fuse_moves_step fuse_moves_refl)
  moreover have "fuse_getattr now ino ?u = (rep, s')" using assms(1) p run by (auto simp: fuse_setattr_def)
  then have "fuse_moves sha r cfg ?u s'" by (rule fuse_getattr_moves) (use assms(2) in simp)
  ultimately show ?thesis by (rule fuse_moves_trans)
next
  case False
  then consider "fuse_getattr now ino s = (rep, s')" | "s' = s"
    using assms(1) by (auto simp: fuse_setattr_def split: option.splits)
  then show ?thesis using assms(2) by cases (auto intro: fuse_getattr_moves fuse_moves_refl)
qed

lemma fuse_handle_moves:
  assumes "fuse_handle sha r full now call s = (rep, s')" "paths_normal (vf_inodes s)"
  shows "fuse_moves sha r cfg s s'"
  using assms
  by (cases call)
    (auto simp: fuse_rmdir_def intro: fuse_lookup_moves fuse_getattr_moves fuse_read_moves fuse_write_moves
      fuse_create_moves fuse_unlink_moves fuse_mkdir_moves fuse_readdir_moves fuse_setattr_moves)

section \<open>Contents through FUSE\<close>

context tier_stack
begin

lemma fuse_handle_ok:
  assumes "fuse_handle sha r full now call s = (rep, s')" "paths_normal (vf_inodes s)" "ok (vf_world s)"
  shows "ok (vf_world s')"
proof -
  obtain evs where "runs sha r undefined (vf_world s) evs (vf_world s')"
    using fuse_handle_moves [OF assms(1,2)] by (auto simp: fuse_moves_def)
  then show ?thesis using assms(3) by (rule runs_ok)
qed

lemma fuse_read_version:
  assumes "fuse_read r ino offset len s = (ReplyData x, s')" "table_path (vf_inodes s) ino = Some p"
    and "keeps sha p d (vf_world s)"
  shows "x = read_slice offset len d"
proof -
  obtain res w where run: "router_read r p (vf_world s) = (res, w)" by fastforce
  with assms(1,2) obtain y where "res = Inr y" "x = read_slice offset len y"
    by (auto simp: fuse_read_def read_error_def split: sum.splits fvfs_error.splits)
  with read_current [of p "vf_world s" y w sha d] run assms(3) show ?thesis by simp
qed

text \<open>
  A write that is acknowledged stores the splice into the bytes the handler could read: the
  current version, or nothing.
\<close>

lemma fuse_write_version:
  assumes run: "fuse_write sha r ino offset data s = (ReplyWritten n, s')"
    and p: "table_path (vf_inodes s) ino = Some p" "normal_path p" and w: "ok (vf_world s)"
  shows "\<exists>old buf. write_splice offset data old = Some buf \<and> keeps sha p buf (vf_world s') \<and>
    vf_inodes s' = vf_inodes s \<and>
    (old = [] \<or> (\<exists>w1. router_read r p (vf_world s) = (Inr old, w1)))"
    and "\<exists>w1. router_read r p (vf_world s) = (Inr d, w1) \<Longrightarrow>
      \<exists>buf. write_splice offset data d = Some buf \<and> keeps sha p buf (vf_world s')"
proof -
  obtain res w1 where rd: "router_read r p (vf_world s) = (res, w1)" by fastforce
  let ?old = "unwrap_or_default res"
  obtain buf w2 where buf: "write_splice offset data ?old = Some buf"
    and wr: "router_write sha r p buf w1 = (Inr (), w2)" and s': "s' = s\<lparr>vf_world := w2\<rparr>"
    using run p(1) rd by (auto simp: fuse_write_def split: option.splits prod.splits sum.splits)
  have "ok w1" using preservesD [OF read_preserves_ok w rd] .
  then have new: "keeps sha p buf (vf_world s')"
    using preservesD [OF write_preserves_ok [OF p(2)] _ wr] write_new_version(1) [OF wr _ p(2)] s' by simp
  show "\<exists>old buf. write_splice offset data old = Some buf \<and> keeps sha p buf (vf_world s') \<and>
      vf_inodes s' = vf_inodes s \<and>
      (old = [] \<or> (\<exists>w1. router_read r p (vf_world s) = (Inr old, w1)))"
    using buf new rd s' by (intro exI [of _ ?old] exI [of _ buf]) (auto simp: unwrap_or_default_def split: sum.splits)
  show "\<exists>w1. router_read r p (vf_world s) = (Inr d, w1) \<Longrightarrow>
      \<exists>buf. write_splice offset data d = Some buf \<and> keeps sha p buf (vf_world s')"
    using buf new rd by (auto simp: unwrap_or_default_def)
qed

text \<open>Read your writes, through FUSE.\<close>

lemma fuse_read_back:
  assumes wr: "fuse_write sha r ino offset data s = (ReplyWritten n, s1)"
    and p: "table_path (vf_inodes s) ino = Some p" "normal_path p" and w: "ok (vf_world s)"
    and between: "runs sha r cfg (vf_world s1) evs w2" "\<forall>ev\<in>set evs. \<not> changes p ev"
    and rd: "fuse_read r ino offset (of_nat (length data)) (s1\<lparr>vf_world := w2\<rparr>) = (ReplyData x, s3)"
    and range: "0 \<le> offset" "offset < 2 ^ 63" "length data < 2 ^ 32"
  shows "x = data"
proof -
  obtain old buf where buf: "write_splice offset data old = Some buf"
    and new: "keeps sha p buf (vf_world s1)" and t: "vf_inodes s1 = vf_inodes s"
    using fuse_write_version(1) [OF wr p w] by auto
  have "keeps sha p buf w2" using runs_keeps [OF between(1) new between(2)] .
  then have x: "x = read_slice offset (of_nat (length data)) buf"
    using fuse_read_version [OF rd, of p sha buf] p(1) t by simp
  have "unat (of_nat (length data) :: u32) = length data" using range(3) by (simp add: unat_of_nat)
  with x read_slice_eq [OF range(1,2)] have "x = take (length data) (drop (nat offset) buf)" by simp
  with write_splice_range [OF range(1,2) buf] show ?thesis by simp
qed

end

context live_stack
begin

text \<open>When every store is up, an acknowledged write changes the addressed bytes and no others.\<close>

lemma fuse_write_live:
  assumes run: "fuse_write sha r ino offset data s = (ReplyWritten n, s')"
    and p: "table_path (vf_inodes s) ino = Some p" and w: "ok (vf_world s)" "all_up up (vf_world s)"
      "intact content (vf_world s) p" and d: "holds content sha (vf_world s) p d"
  shows "\<exists>buf. write_splice offset data d = Some buf \<and> keeps sha p buf (vf_world s')"
proof -
  from d w(1) have "normal_path p" by (auto simp: holds_def world_ok_def dest: row_of_normal)
  with fuse_write_version(2) [OF run p _ w(1)] read_live [OF w d] show ?thesis by blast
qed

end

text \<open>An entry that was unlinked is gone.\<close>

lemma fuse_unlink_gone:
  assumes run: "fuse_unlink r parent name s = (ReplyOk, s')"
  shows "fst (fuse_lookup parent name s') = ReplyError ENOENT"
proof -
  obtain p w where p: "child_path (vf_inodes s) parent name = Inr p"
    and del: "router_delete r p (vf_world s) = (Inr (), w)"
    and s': "s' = s\<lparr>vf_world := w, vf_inodes := table_remove p (vf_inodes s)\<rparr>"
    using run by (auto simp: fuse_unlink_def split: sum.splits prod.splits fvfs_error.splits)
  have "row_of (wdb w) p = None"
    using del db_delete_row_of [of p _ "Inr ()" _ p]
    by (auto simp: router_delete_def andThen_Inr on_db_run)
  then have gone: "\<exists>w'. stored_meta p w = (None, w')"
  proof -
    obtain res d where get: "db_get p (wdb w) = (res, d)" by fastforce
    have "res = Inr None \<or> (\<exists>e. res = Inl e)"
      using db_get_run(2) [OF get] \<open>row_of (wdb w) p = None\<close> by (cases res) auto
    with get show ?thesis by (auto simp: stored_meta_def on_db_def zoom_def)
  qed
  have "table_path (vf_inodes s') parent = None \<or> table_path (vf_inodes s') parent = table_path (vf_inodes s) parent"
    using s' by (auto simp: table_remove_def table_path_def split: option.splits)
  then have "child_path (vf_inodes s') parent name = Inl ENOENT \<or> child_path (vf_inodes s') parent name = Inr p"
    using p by (auto simp: child_path_def)
  with gone s' show ?thesis by (auto simp: fuse_lookup_def)
qed

end
