(* ===== verification/Http_Api.thy ===== *)
theory Http_Api
  imports Tier_Coherence
begin

text \<open>
  The HTTP API of the daemon (\<open>fvfsd/src/http_api.rs\<close>): the table of routes, one definition per
  handler, and the response an error becomes. A request carries its decoded path and its body; a
  JSON body is the value it encodes. The server framework is represented by what it documents: a
  wildcard matches a non-empty rest of the path, an unknown path answers 404, a known path with
  another method 405, and the \<open>Bytes\<close> extractor answers 413 for a body longer than its limit,
  the parameter \<open>body_limit\<close>. \<open>Notify::notify_one\<close> stores at most one permit.
\<close>

datatype json =
    JError string
  | JMeta file_metadata
  | JEntries "file_entry list"
  | JStatus daemon_status
  | JDevices "device_info list"
  | JWal "wal_entry list"

datatype body = NoBody | Octets bytes | Json json

datatype header = ContentType string | ContentLength nat

record response =
  rs_status :: nat
  rs_headers :: "header list"
  rs_body :: body

datatype http_method = GET | PUT | DELETE | POST

record 'b app_state =
  app_world :: "'b world"
  evict_permit :: bool
  flush_permit :: bool

definition app_state_new :: "'b world \<Rightarrow> 'b app_state" where
  "app_state_new w = \<lparr> app_world = w, evict_permit = False, flush_permit = False \<rparr>"

definition on_world :: "('b world, 'e, 'a) op \<Rightarrow> ('b app_state, 'e, 'a) op" where
  "on_world = zoom app_world (\<lambda>w s. s\<lparr>app_world := w\<rparr>)"

section \<open>Errors\<close>

definition plain :: "nat \<Rightarrow> response" where
  "plain code = \<lparr> rs_status = code, rs_headers = [], rs_body = NoBody \<rparr>"

definition json_response :: "nat \<Rightarrow> json \<Rightarrow> response" where
  "json_response code j = \<lparr> rs_status = code, rs_headers = [], rs_body = Json j \<rparr>"

fun api_error :: "fvfs_error \<Rightarrow> nat \<times> string" where
  "api_error (NotFound path) = (404, ''not found: '' @ path)"
| "api_error (AlreadyExists path) = (409, ''already exists: '' @ path)"
| "api_error (IsADirectory path) = (400, ''is a directory: '' @ path)"
| "api_error (NotADirectory path) = (400, ''not a directory: '' @ path)"
| "api_error (PermissionDenied msg) = (403, msg)"
| "api_error e = (500, display_error e)"

definition error_response :: "fvfs_error \<Rightarrow> response" where
  "error_response e = (case api_error e of (code, message) \<Rightarrow> json_response code (JError message))"

definition respond :: "('s, fvfs_error, response) op \<Rightarrow> 's \<Rightarrow> response \<times> 's" where
  "respond m s = (case m s of (Inl e, s') \<Rightarrow> (error_response e, s') | (Inr r, s') \<Rightarrow> (r, s'))"

definition parse_path :: "string \<Rightarrow> fvfs_path fvfs_result" where
  "parse_path raw = path_new (''/'' @ trim_start_matches slash raw)"

section \<open>Handlers\<close>

definition handle_put_file ::
    "(bytes \<Rightarrow> string) \<Rightarrow> 'b tier_router \<Rightarrow> string \<Rightarrow> bytes \<Rightarrow> ('b app_state, fvfs_error, response) op" where
  "handle_put_file sha r path data =
     andThen (liftR (parse_path path)) (\<lambda>vfs_path.
     andThen (on_world (router_write sha r vfs_path data)) (\<lambda>_.
     okR (plain 204)))"

definition handle_get_file :: "'b tier_router \<Rightarrow> string \<Rightarrow> ('b app_state, fvfs_error, response) op" where
  "handle_get_file r path =
     andThen (liftR (parse_path path)) (\<lambda>vfs_path.
     andThen (on_world (router_read r vfs_path)) (\<lambda>data.
     okR \<lparr> rs_status = 200,
           rs_headers = [ContentType ''application/octet-stream'', ContentLength (length data)],
           rs_body = Octets data \<rparr>))"

definition handle_delete_file :: "'b tier_router \<Rightarrow> string \<Rightarrow> ('b app_state, fvfs_error, response) op" where
  "handle_delete_file r path =
     andThen (liftR (parse_path path)) (\<lambda>vfs_path.
     andThen (on_world (router_delete r vfs_path)) (\<lambda>_.
     okR (plain 204)))"

definition handle_get_meta :: "string \<Rightarrow> ('b app_state, fvfs_error, response) op" where
  "handle_get_meta path =
     andThen (liftR (parse_path path)) (\<lambda>vfs_path.
     andThen (on_world (router_stat vfs_path)) (\<lambda>meta.
     okR (json_response 200 (JMeta meta))))"

definition list_entries :: "fvfs_path \<Rightarrow> ('b app_state, fvfs_error, response) op" where
  "list_entries path =
     andThen (on_world (router_list path)) (\<lambda>entries. okR (json_response 200 (JEntries entries)))"

definition handle_list :: "string \<Rightarrow> ('b app_state, fvfs_error, response) op" where
  "handle_list pre = andThen (liftR (parse_path pre)) list_entries"

definition handle_list_root :: "('b app_state, fvfs_error, response) op" where
  "handle_list_root = andThen (liftR (path_new ''/'')) list_entries"

text \<open>\<open>\<dots>.ok().and_then(|r| r.ok()).unwrap_or(0)\<close>.\<close>

definition query_or_zero :: "(db, fvfs_error, u64) op \<Rightarrow> ('b app_state, fvfs_error, u64) op" where
  "query_or_zero m =
     andThen (attempt (on_world (on_db m))) (\<lambda>res.
     okR (case res of Inl e \<Rightarrow> 0 | Inr n \<Rightarrow> n))"

definition wal_count :: "(db, fvfs_error, u64) op" where
  "wal_count = andThen db_wal_pending (\<lambda>entries. okR (of_nat (length entries)))"

definition handle_status :: "u64 \<Rightarrow> ('b app_state, fvfs_error, response) op" where
  "handle_status elapsed_secs =
     andThen (query_or_zero (db_bytes_on_tier (bitmask Local))) (\<lambda>local_bytes.
     andThen (query_or_zero (db_count_on_tier (bitmask Local))) (\<lambda>local_count.
     andThen (query_or_zero (db_bytes_on_tier (bitmask Nas))) (\<lambda>nas_bytes.
     andThen (query_or_zero (db_count_on_tier (bitmask Nas))) (\<lambda>nas_count.
     andThen (query_or_zero (db_bytes_on_tier (bitmask S3))) (\<lambda>s3_bytes.
     andThen (query_or_zero (db_count_on_tier (bitmask S3))) (\<lambda>s3_count.
     andThen (query_or_zero wal_count) (\<lambda>wal_pending.
     okR (json_response 200 (JStatus
       \<lparr> ds_version = ''0.1.0'', ds_uptime_secs = elapsed_secs,
         ds_tiers =
           [\<lparr> ts_name = ''local'', ts_files = local_count, ts_bytes = local_bytes \<rparr>,
            \<lparr> ts_name = ''nas'', ts_files = nas_count, ts_bytes = nas_bytes \<rparr>,
            \<lparr> ts_name = ''s3'', ts_files = s3_count, ts_bytes = s3_bytes \<rparr>],
         ds_wal_pending = wal_pending \<rparr>)))))))))"

definition handle_devices :: "('b app_state, fvfs_error, response) op" where
  "handle_devices =
     andThen (on_world (on_db db_list_devices)) (\<lambda>devs. okR (json_response 200 (JDevices devs)))"

definition handle_admin_evict :: "('b app_state, fvfs_error, response) op" where
  "handle_admin_evict = andThen (modifyR (\<lambda>s. s\<lparr>evict_permit := True\<rparr>)) (\<lambda>_. okR (plain 202))"

definition handle_admin_flush :: "('b app_state, fvfs_error, response) op" where
  "handle_admin_flush = andThen (modifyR (\<lambda>s. s\<lparr>flush_permit := True\<rparr>)) (\<lambda>_. okR (plain 202))"

definition handle_admin_wal :: "('b app_state, fvfs_error, response) op" where
  "handle_admin_wal =
     andThen (on_world (on_db db_wal_pending)) (\<lambda>entries. okR (json_response 200 (JWal entries)))"

section \<open>Routes\<close>

datatype route =
    FilesRoute string
  | MetaRoute string
  | LsRoute string
  | LsRootRoute
  | StatusRoute
  | DevicesRoute
  | EvictRoute
  | FlushRoute
  | WalRoute

definition wildcard :: "string \<Rightarrow> string \<Rightarrow> string option" where
  "wildcard pre path =
     (case strip_prefix path pre of
        Some rest \<Rightarrow> if rest = [] then None else Some rest
      | None \<Rightarrow> None)"

definition find_route :: "string \<Rightarrow> route option" where
  "find_route path =
     (if path = ''/v1/ls/'' then Some LsRootRoute
      else if path = ''/v1/status'' then Some StatusRoute
      else if path = ''/v1/devices'' then Some DevicesRoute
      else if path = ''/v1/admin/evict'' then Some EvictRoute
      else if path = ''/v1/admin/flush'' then Some FlushRoute
      else if path = ''/v1/admin/wal'' then Some WalRoute
      else case wildcard ''/v1/files/'' path of
             Some rest \<Rightarrow> Some (FilesRoute rest)
           | None \<Rightarrow> (case wildcard ''/v1/meta/'' path of
                        Some rest \<Rightarrow> Some (MetaRoute rest)
                      | None \<Rightarrow> map_option LsRoute (wildcard ''/v1/ls/'' path)))"

fun route_handler ::
    "(bytes \<Rightarrow> string) \<Rightarrow> 'b tier_router \<Rightarrow> nat \<Rightarrow> u64 \<Rightarrow> route \<Rightarrow> http_method \<Rightarrow> bytes \<Rightarrow>
     ('b app_state, fvfs_error, response) op" where
  "route_handler sha r body_limit t (FilesRoute path) GET data = handle_get_file r path"
| "route_handler sha r body_limit t (FilesRoute path) PUT data =
     (if body_limit < length data then okR (plain 413) else handle_put_file sha r path data)"
| "route_handler sha r body_limit t (FilesRoute path) DELETE data = handle_delete_file r path"
| "route_handler sha r body_limit t (MetaRoute path) GET data = handle_get_meta path"
| "route_handler sha r body_limit t (LsRoute pre) GET data = handle_list pre"
| "route_handler sha r body_limit t LsRootRoute GET data = handle_list_root"
| "route_handler sha r body_limit t StatusRoute GET data = handle_status t"
| "route_handler sha r body_limit t DevicesRoute GET data = handle_devices"
| "route_handler sha r body_limit t EvictRoute POST data = handle_admin_evict"
| "route_handler sha r body_limit t FlushRoute POST data = handle_admin_flush"
| "route_handler sha r body_limit t WalRoute GET data = handle_admin_wal"
| "route_handler sha r body_limit t _ _ data = okR (plain 405)"

definition build_router ::
    "(bytes \<Rightarrow> string) \<Rightarrow> 'b tier_router \<Rightarrow> nat \<Rightarrow> u64 \<Rightarrow> http_method \<Rightarrow> string \<Rightarrow> bytes \<Rightarrow>
     'b app_state \<Rightarrow> response \<times> 'b app_state" where
  "build_router sha r body_limit t meth path data =
     (case find_route path of
        None \<Rightarrow> respond (okR (plain 404))
      | Some rt \<Rightarrow> respond (route_handler sha r body_limit t rt meth data))"

section \<open>Paths through the API\<close>

text \<open>Every path but the root is reached again from the rest of the URL that the wildcard captures.\<close>

lemma normal_path_slash:
  assumes "normal_path p"
  shows "as_str p = slash # trim_start_matches slash (as_str p)"
proof (rule normal_pathE [OF assms])
  fix ws assume p: "p = of_segs ws" and ws: "list_all proper_seg ws"
  show ?thesis
  proof (cases ws)
    case Nil
    with p show ?thesis by (simp add: of_segs_def trim_start_matches_def)
  next
    case (Cons w vs)
    then obtain c cs where "w = c # cs" "c \<noteq> slash"
      using ws by (cases w) (auto simp: proper_seg_def)
    with p Cons show ?thesis by (cases vs) (auto simp: of_segs_def trim_start_matches_def)
  qed
qed

lemma parse_path_captured:
  assumes "normal_path p" "as_str p = slash # rest"
  shows "parse_path rest = Inr p"
proof -
  have "trim_start_matches slash (as_str p) = rest"
    using normal_path_slash [OF assms(1)] assms(2) by simp
  then have "trim_start_matches slash rest = rest"
    using assms(2) by (simp add: trim_start_matches_def)
  then show ?thesis using path_new_as_str [OF assms(1)] assms(2) by (simp add: parse_path_def)
qed

lemma find_route_path:
  assumes "normal_path p" "p \<noteq> root_path"
  obtains rest where "as_str p = slash # rest" "rest \<noteq> []" "parse_path rest = Inr p"
    "find_route (''/v1/files'' @ as_str p) = Some (FilesRoute rest)"
    "find_route (''/v1/meta'' @ as_str p) = Some (MetaRoute rest)"
    "find_route (''/v1/ls'' @ as_str p) = Some (LsRoute rest)"
proof -
  obtain rest where rest: "as_str p = slash # rest" using normal_path_slash [OF assms(1)] by metis
  have "rest \<noteq> []" using assms(2) rest by (cases p) auto
  moreover have "parse_path rest = Inr p" using parse_path_captured [OF assms(1) rest] .
  ultimately show ?thesis using that rest
    by (auto simp: find_route_def wildcard_def strip_prefix_def starts_with_def split: option.splits)
qed

end
