(* ===== verification/Migrate.thy ===== *)
theory Migrate
  imports Daemon
begin

text \<open>
  The migration subcommand (\<open>fvfsd/src/migrate.rs\<close>): crawl the local disk and the NAS, hash every
  file in chunks, keep one file per digest, upload those to S3 and write their rows. The disks are the
  ones of the tiers, which is what \<open>run_migrate\<close> takes unless it is told otherwise. The parallel
  hashing collects its results in the order of the sources; the order in which its disk calls meet
  the fault schedule is immaterial, the schedule being arbitrary. File names are taken to be UTF-8, so
  that \<open>to_string_lossy\<close> changes nothing.
\<close>

definition on_disk :: "tier \<Rightarrow> (disk, 'e, 'a) op \<Rightarrow> ((disk \<times> 's) world, 'e, 'a) op" where
  "on_disk t m = on_store t (zoom fst (\<lambda>d s. (d, snd s)) m)"

section \<open>Crawling\<close>

text \<open>\<open>is_dir\<close>, \<open>is_file\<close> and \<open>exists\<close> answer false when the call fails.\<close>

definition probe :: "bool \<Rightarrow> (disk, 'e, bool) op" where
  "probe b d =
     (case syscall Stat (\<lambda>d. Inr ((), d)) d of (Inl _, d') \<Rightarrow> (Inr False, d') | (Inr _, d') \<Rightarrow> (Inr b, d'))"

text \<open>The loop over the entries of \<open>dir\<close>, with the recursive call inlined.\<close>

function (sequential) collect_loop ::
    "string list \<Rightarrow> (string \<times> fs_node) list \<Rightarrow> (disk, io_error, string list list) op" where
  "collect_loop dir [] = okR []"
| "collect_loop dir ((x, n) # es) =
     andThen (syscall ReadDir (\<lambda>d. Inr ((), d))) (\<lambda>_.
     andThen (probe (node_kind n = Directory)) (\<lambda>is_directory.
     andThen
       (case n of
          DirNode cs \<Rightarrow>
            if is_directory then
              andThen (probe True) (\<lambda>there.
              if \<not> there then okR []
              else andThen (syscall ReadDir (\<lambda>d. Inr ((), d))) (\<lambda>_. collect_loop (dir @ [x]) cs))
            else andThen (probe False) (\<lambda>_. okR [])
        | FileNode _ _ \<Rightarrow>
            andThen (probe True) (\<lambda>is_regular. okR (if is_regular then [dir @ [x]] else []))) (\<lambda>below.
     andThen (collect_loop dir es) (\<lambda>rest.
     okR (below @ rest)))))"
  by pat_completeness auto
termination
  by (relation "measure (\<lambda>(dir, es). size_list (size_prod (\<lambda>_. 0) size) es)") auto

definition collect_files :: "string list \<Rightarrow> (disk, io_error, string list list) op" where
  "collect_files base =
     andThen (fs_exists base) (\<lambda>there.
     if \<not> there then okR []
     else
       andThen (syscall ReadDir (\<lambda>d. case fs_lookup (tree d) base of
                   Some (DirNode es) \<Rightarrow> Inr (es, d)
                 | Some (FileNode _ _) \<Rightarrow> Inl (IoError IoNotADirectory ''Not a directory'')
                 | None \<Rightarrow> Inl (missing_error (tree d) base))) (\<lambda>es.
       collect_loop base es))"

section \<open>Hashing\<close>

text \<open>
  A file is read in pieces of at most 1 MiB until an empty one; the digest of the pieces fed one
  after the other is the digest of their concatenation.
\<close>

definition BUF_LEN :: nat where
  "BUF_LEN = 1024 * 1024"

fun split_int :: "int \<Rightarrow> 'a list \<Rightarrow> 'a list \<times> 'a list" where
  "split_int k [] = ([], [])"
| "split_int k (x # xs) =
     (if k \<le> 0 then ([], x # xs) else case split_int (k - 1) xs of (ys, zs) \<Rightarrow> (x # ys, zs))"

lemma split_int: "split_int k xs = (take (nat k) xs, drop (nat k) xs)"
  by (induction k xs rule: split_int.induct) (auto simp: take_Cons' drop_Cons' nat_diff_distrib)

definition next_chunk :: "bytes \<Rightarrow> bytes \<times> bytes" where
  "next_chunk rest = (take BUF_LEN rest, drop BUF_LEN rest)"

lemma next_chunk_code [code]: "next_chunk rest = split_int (1024 * 1024) rest"
  by (simp add: next_chunk_def split_int BUF_LEN_def)

function hash_loop :: "bytes \<Rightarrow> bytes \<Rightarrow> u64 \<Rightarrow> (disk, io_error, bytes \<times> u64) op" where
  "hash_loop rest fed n =
     (let chunk = fst (next_chunk rest)
      in andThen (syscall ReadFile (\<lambda>d. Inr ((), d))) (\<lambda>_.
         if chunk = [] then okR (fed, n)
         else hash_loop (snd (next_chunk rest)) (fed @ chunk) (n + of_nat (length chunk))))"
  by pat_completeness auto
termination
  by (relation "measure (\<lambda>(rest, fed, n). length rest)") (auto simp: next_chunk_def BUF_LEN_def)

declare hash_loop.simps [simp del]

definition hash_file :: "(bytes \<Rightarrow> string) \<Rightarrow> string list \<Rightarrow> (disk, io_error, string \<times> u64) op" where
  "hash_file sha path =
     andThen (fs_read path) (\<lambda>data.
     andThen (hash_loop data [] 0) (\<lambda>(fed, n).
     okR (sha fed, n)))"

section \<open>Deduplication\<close>

record mig_item =
  mi_root :: "string list"
  mi_file :: "string list"
  mi_tier :: tier
  mi_hash :: string
  mi_size :: u64

text \<open>The sources in order; a file that cannot be hashed is logged and dropped.\<close>

fun hash_sources ::
    "(bytes \<Rightarrow> string) \<Rightarrow> (string list \<times> string list \<times> tier) list \<Rightarrow> (disk \<times> 's) world \<Rightarrow>
     mig_item list \<times> (disk \<times> 's) world" where
  "hash_sources sha [] w = ([], w)"
| "hash_sources sha ((base, file, t) # srcs) w =
     (case on_disk t (hash_file sha file) w of
        (res, w1) \<Rightarrow>
          (case hash_sources sha srcs w1 of
             (items, w2) \<Rightarrow>
               (case res of
                  Inr (hash, n) \<Rightarrow>
                    \<lparr> mi_root = base, mi_file = file, mi_tier = t, mi_hash = hash, mi_size = n \<rparr> # items
                | Inl _ \<Rightarrow> items, w2)))"

fun dedup :: "mig_item list \<Rightarrow> string list \<Rightarrow> mig_item list \<times> u64" where
  "dedup [] seen = ([], 0)"
| "dedup (x # xs) seen =
     (if mi_hash x \<in> set seen
      then (case dedup xs seen of (to_upload, duplicates) \<Rightarrow> (to_upload, duplicates + 1))
      else (case dedup xs (mi_hash x # seen) of (to_upload, duplicates) \<Rightarrow> (x # to_upload, duplicates)))"

section \<open>Uploading\<close>

definition item_path :: "mig_item \<Rightarrow> fvfs_path fvfs_result" where
  "item_path x =
     path_new (''/'' @ replace_char (CHR 0x5C) ''/'' (join_with ''/'' (drop (length (mi_root x)) (mi_file x))))"

definition migrated_meta :: "mig_item \<Rightarrow> fvfs_path \<Rightarrow> i64 \<Rightarrow> i64 \<Rightarrow> i64 \<Rightarrow> file_metadata" where
  "migrated_meta x path created modified accessed =
     \<lparr> fm_id = 0, fm_path = path, fm_kind = File, fm_size_bytes = mi_size x, fm_sha256 = mi_hash x,
       fm_tier_bitmask = bm_set S3 (bm_set (mi_tier x) bm_NONE),
       fm_created_at = created, fm_modified_at = modified, fm_accessed_at = accessed,
       fm_access_count_30d = 0, fm_mime_type = None \<rparr>"

text \<open>
  One file: the bytes that were uploaded, whether an error was counted. A failing \<open>upsert\<close> is neither
  counted nor logged: only the error of the join handle is looked at.
\<close>

definition upload_item ::
    "(disk \<times> 's) backend \<Rightarrow> mig_item \<Rightarrow> (disk \<times> 's) world \<Rightarrow> (u64 \<times> bool) \<times> (disk \<times> 's) world" where
  "upload_item s3 x w =
     (case item_path x of
        Inl _ \<Rightarrow> ((0, True), w)
      | Inr path \<Rightarrow>
          (case on_disk (mi_tier x) (fs_read (mi_file x)) w of
             (Inl _, w1) \<Rightarrow> ((0, True), w1)
           | (Inr data, w1) \<Rightarrow>
               (case on_store S3 (be_put s3 path data) w1 of
                  (Inl _, w2) \<Rightarrow> ((0, True), w2)
                | (Inr _, w2) \<Rightarrow>
                    ((mi_size x, False),
                     snd (andThen now_unix (\<lambda>created.
                          andThen now_unix (\<lambda>modified.
                          andThen now_unix (\<lambda>accessed.
                          on_db (db_upsert (migrated_meta x path created modified accessed))))) w2)))))"

fun upload_items ::
    "(disk \<times> 's) backend \<Rightarrow> mig_item list \<Rightarrow> (disk \<times> 's) world \<Rightarrow> (u64 \<times> u64) \<times> (disk \<times> 's) world" where
  "upload_items s3 [] w = ((0, 0), w)"
| "upload_items s3 (x # xs) w =
     (case upload_item s3 x w of
        ((n, failed), w1) \<Rightarrow>
          (case upload_items s3 xs w1 of
             ((m, errors), w2) \<Rightarrow> ((n + m, (if failed then errors + 1 else errors)), w2)))"

record migrate_report =
  mr_total_files :: u64
  mr_total_bytes :: u64
  mr_duplicates :: u64
  mr_s3_upload_bytes :: u64
  mr_errors :: u64

definition crawled :: "tier \<Rightarrow> string list \<Rightarrow> io_error + string list list \<Rightarrow> (string list \<times> string list \<times> tier) list" where
  "crawled t base res = (case res of Inl _ \<Rightarrow> [] | Inr found \<Rightarrow> map (\<lambda>f. (base, f, t)) found)"

definition run_migration ::
    "(bytes \<Rightarrow> string) \<Rightarrow> (disk \<times> 's) backend \<Rightarrow> string list \<Rightarrow> string list \<Rightarrow> (disk \<times> 's) world \<Rightarrow>
     migrate_report \<times> (disk \<times> 's) world" where
  "run_migration sha s3 local_path nas_path w =
     (case on_disk Local (collect_files local_path) w of
        (local_files, w1) \<Rightarrow>
          (case on_disk Nas (collect_files nas_path) w1 of
             (nas_files, w2) \<Rightarrow>
               (case hash_sources sha (crawled Local local_path local_files @ crawled Nas nas_path nas_files) w2 of
                  (items, w3) \<Rightarrow>
                    (case dedup items [] of
                       (to_upload, duplicates) \<Rightarrow>
                         (case upload_items s3 to_upload w3 of
                            ((uploaded, errors), w4) \<Rightarrow>
                              (\<lparr> mr_total_files = of_nat (length items),
                                 mr_total_bytes = sum_list (map mi_size items),
                                 mr_duplicates = duplicates, mr_s3_upload_bytes = uploaded,
                                 mr_errors = errors \<rparr>, w4))))))"

section \<open>Chunked hashing\<close>

lemma syscall_unit:
  "syscall c (\<lambda>d. Inr ((), d)) d = (res, d') \<Longrightarrow> d' = d\<lparr>calls := Suc (calls d)\<rparr> \<and> (res = Inr () \<or> (\<exists>e. res = Inl e))"
  by (auto simp: syscall_def Let_def split: option.splits)

lemma hash_loop_whole:
  assumes "hash_loop rest fed n d = (Inr (out, m), d')"
  shows "out = fed @ rest \<and> m = n + of_nat (length rest)"
  using assms
proof (induction rest fed n arbitrary: d rule: hash_loop.induct)
  case (1 rest fed n)
  let ?chunk = "take BUF_LEN rest"
  obtain res d1 where s: "syscall ReadFile (\<lambda>d. Inr ((), d)) d = (res, d1)" by fastforce
  show ?case
  proof (cases "?chunk = []")
    case True
    then have "rest = []" by (simp add: BUF_LEN_def)
    with 1(2) s show ?thesis
      by (subst (asm) hash_loop.simps) (auto simp: andThen_def okR_def next_chunk_def split: sum.splits)
  next
    case False
    with 1(2) s have "hash_loop (drop BUF_LEN rest) (fed @ ?chunk) (n + of_nat (length ?chunk)) d1 = (Inr (out, m), d')"
      by (subst (asm) hash_loop.simps) (auto simp: andThen_def next_chunk_def Let_def split: sum.splits)
    from 1(1) [OF refl, unfolded next_chunk_def fst_conv snd_conv, OF False this] have out: "out = (fed @ ?chunk) @ drop BUF_LEN rest"
      and m: "m = n + of_nat (length ?chunk) + of_nat (length (drop BUF_LEN rest))" by auto
    have "length ?chunk + length (drop BUF_LEN rest) = length rest" by simp
    then have "of_nat (length ?chunk) + of_nat (length (drop BUF_LEN rest)) = (of_nat (length rest) :: u64)"
      by (metis of_nat_add)
    with out m show ?thesis by (simp add: add.assoc)
  qed
qed

lemma hash_file_whole:
  assumes "hash_file sha p d = (Inr (h, n), d')"
  shows "\<exists>data. file_at (tree d) p = Some data \<and> h = sha data \<and> n = of_nat (length data)"
proof -
  obtain data d1 fed where rd: "fs_read p d = (Inr data, d1)"
    and lp: "hash_loop data [] 0 d1 = (Inr (fed, n), d')" and h: "h = sha fed"
    using assms by (auto simp: hash_file_def andThen_Inr okR_def split: prod.splits)
  from fs_read_run(2) [OF rd refl] hash_loop_whole [OF lp] h show ?thesis by simp
qed

section \<open>Accounting\<close>

lemma dedup_spec:
  assumes "dedup xs seen = (us, n)"
  shows "of_nat (length xs) = of_nat (length us) + n"
    and "distinct (map mi_hash us)" "mi_hash ` set us = mi_hash ` set xs - set seen" "set us \<subseteq> set xs"
proof -
  have "of_nat (length xs) = of_nat (length us) + n \<and> distinct (map mi_hash us) \<and>
    mi_hash ` set us = mi_hash ` set xs - set seen \<and> set us \<subseteq> set xs"
    using assms
  proof (induction xs arbitrary: seen us n)
    case (Cons x xs)
    show ?case
    proof (cases "mi_hash x \<in> set seen")
      case True
      then obtain m where "dedup xs seen = (us, m)" "n = m + 1" using Cons.prems by (auto split: prod.splits)
      with Cons.IH [OF this(1)] True show ?thesis by auto
    next
      case False
      then obtain vs where vs: "dedup xs (mi_hash x # seen) = (vs, n)" "us = x # vs"
        using Cons.prems by (auto split: prod.splits)
      from Cons.IH [OF vs(1)] have IH: "mi_hash ` set vs = mi_hash ` set xs - insert (mi_hash x) (set seen)"
        "distinct (map mi_hash vs)" "set vs \<subseteq> set xs" "of_nat (length xs) = of_nat (length vs) + n" by auto
      then have "mi_hash x \<notin> mi_hash ` set vs" by simp
      with IH vs(2) False show ?thesis by auto
    qed
  qed simp
  then show "of_nat (length xs) = of_nat (length us) + n"
    and "distinct (map mi_hash us)" "mi_hash ` set us = mi_hash ` set xs - set seen" "set us \<subseteq> set xs" by auto
qed

section \<open>Uploading\<close>

text \<open>Reading a disk changes no file of it and nothing else.\<close>

lemma on_disk_run:
  assumes "on_disk t m w = (res, w')"
  shows "\<exists>d. m (fst (stores w t)) = (res, d) \<and> w' = w\<lparr>stores := (stores w)(t := (d, snd (stores w t)))\<rparr>"
  using assms by (auto simp: on_disk_def on_store_def zoom_def split: prod.splits)

lemma on_disk_ok:
  assumes "on_disk t m w = (res, w')" "world_ok serve_inv w"
    and "\<And>d res d'. m d = (res, d') \<Longrightarrow> same_files d d'"
  shows "world_ok serve_inv w'"
proof -
  obtain d where d: "m (fst (stores w t)) = (res, d)" and w': "w' = w\<lparr>stores := (stores w)(t := (d, snd (stores w t)))\<rparr>"
    using on_disk_run [OF assms(1)] by blast
  from same_files_reliable [OF assms(3) [OF d]] assms(2) w' show ?thesis
    by (auto simp: world_ok_def serve_inv_def)
qed

lemma item_path_normal: "item_path x = Inr p \<Longrightarrow> normal_path p"
  by (auto simp: item_path_def intro: path_new_normal)

lemma db_upsert_live:
  assumes "no_sql_fault d"
  shows "\<exists>i d'. db_upsert m d = (Inr i, d')"
proof -
  obtain i d' where "upsert_stmt m (d\<lparr>stmts := Suc (stmts d)\<rparr>) = Inr (i, d')"
    by (auto simp: upsert_stmt_def Let_def)
  from sql_ok [where stmt = "upsert_stmt m", OF assms this] show ?thesis by (auto simp: db_upsert_def)
qed

lemma store_migrated:
  assumes "snd (andThen now_unix (\<lambda>created. andThen now_unix (\<lambda>modified. andThen now_unix (\<lambda>accessed.
      on_db (db_upsert (migrated_meta x p created modified accessed))))) w) = w'"
    and "normal_path p" "world_ok tinv w"
  shows "world_ok tinv w'" "stores w' = stores w"
    and "no_sql_fault (wdb w) \<Longrightarrow> \<exists>row. row_of (wdb w') p = Some row \<and> r_sha256 row = mi_hash x \<and>
      r_is_dir row = 0 \<and> row_bm row = bm_set S3 (bm_set (mi_tier x) bm_NONE)"
proof -
  let ?c = "\<lambda>n. clock w (ticks w + n)"
  let ?m = "migrated_meta x p (?c 0) (?c 1) (?c 2)"
  obtain res d where up: "db_upsert ?m (wdb w) = (res, d)" by fastforce
  have w': "w' = w\<lparr>ticks := ticks w + 3, wdb := d\<rparr>"
    using assms(1) up by (auto simp: andThen_def now_unix_def on_db_def zoom_def)
  have path: "fm_path ?m = p" by (simp add: migrated_meta_def)
  have "db_wf d" using preservesD [OF db_upsert_wf _ up] assms(2,3) path by (simp add: world_ok_def)
  with w' assms(3) show "world_ok tinv w'" "stores w' = stores w" by (simp_all add: world_ok_def)
  assume "no_sql_fault (wdb w)"
  with db_upsert_live [of "wdb w" ?m] up obtain i where "res = Inr i" by auto
  then have "row_of (wdb w') p = Some (upserted_row (wdb w) ?m)"
    using db_upsert_row_of [of ?m "wdb w" i d p] up path w' by simp
  then show "\<exists>row. row_of (wdb w') p = Some row \<and> r_sha256 row = mi_hash x \<and>
      r_is_dir row = 0 \<and> row_bm row = bm_set S3 (bm_set (mi_tier x) bm_NONE)"
    by (simp add: migrated_meta_def kind_flag_def is_dir_def)
qed

lemma upload_item_run:
  assumes svc: "s3_service (s3_client b) objs"
    and run: "upload_item (dyn_s3 b) x w = ((n, False), w')" and w: "world_ok serve_inv w"
  shows "\<exists>p data. item_path x = Inr p \<and> n = mi_size x \<and> world_ok serve_inv w' \<and>
    file_at (tree (fst (stores w (mi_tier x)))) (mi_file x) = Some data \<and>
    s3_content objs b (snd (stores w' S3)) p = Some data \<and>
    (no_sql_fault (wdb w) \<longrightarrow> (\<exists>row. row_of (wdb w') p = Some row \<and> r_sha256 row = mi_hash x \<and>
      r_is_dir row = 0 \<and> row_bm row = bm_set S3 (bm_set (mi_tier x) bm_NONE)))"
proof -
  obtain p data w1 w2 where p: "item_path x = Inr p"
    and rd: "on_disk (mi_tier x) (fs_read (mi_file x)) w = (Inr data, w1)"
    and put: "on_store S3 (be_put (dyn_s3 b) p data) w1 = (Inr (), w2)" and n: "n = mi_size x"
    and up: "snd (andThen now_unix (\<lambda>created. andThen now_unix (\<lambda>modified. andThen now_unix (\<lambda>accessed.
      on_db (db_upsert (migrated_meta x p created modified accessed))))) w2) = w'"
    using run by (auto simp: upload_item_def split: sum.splits prod.splits)
  have w1: "world_ok serve_inv w1" "wdb w1 = wdb w"
    using on_disk_ok [OF rd w fs_read_run(1)] on_disk_run [OF rd] by auto
  have on_d: "file_at (tree (fst (stores w (mi_tier x)))) (mi_file x) = Some data"
    using on_disk_run [OF rd] fs_read_run(2) by blast
  obtain s where s: "be_put (dyn_s3 b) p data (stores w1 S3) = (Inr (), s)"
    and w2: "w2 = w1\<lparr>stores := (stores w1)(S3 := s)\<rparr>"
    using put by (auto simp: on_store_run)
  note be = atomic_backend.axioms(1) [OF dyn_s3_atomic [OF svc]]
  have "s3_content objs b (snd s) p = Some data"
    using storage_backend.put_ok [OF be TrueI item_path_normal [OF p] s] by simp
  moreover have "world_ok serve_inv w2" using w1(1) w2 by (auto simp: world_ok_def serve_inv_def)
  ultimately show ?thesis
    using store_migrated [OF up item_path_normal [OF p]] p n on_d w1(2) w2 by auto
qed

section \<open>Properties\<close>




text \<open>A local disk with two files of the same content, as the migration finds it.\<close>

definition twins_world :: "(disk \<times> mem_objects) world" where
  "twins_world =
     \<lparr> wdb = db_open (\<lambda>_. None),
       stores = (\<lambda>_. (empty_disk\<lparr>tree := DirNode [(''data'', DirNode [(''a'', FileNode [7] 0), (''b'', FileNode [7] 0)])]\<rparr>, \<lambda>_ _. None)),
       promote_q = [], clock = int, ticks = 0 \<rparr>"

definition twins_s3 :: "mem_objects s3" where
  "twins_s3 = s3_new mem_client ''bucket'' ''fvfs''"


text \<open>
  Deduplication drops the duplicates altogether: of two files with the same content only the
  first gets a row and an object; the path of the second does not exist after the migration, and the
  report shows no error.
\<close>

theorem migration_drops_duplicates:
  "let (rep, w) = run_migration (\<lambda>d. map (\<lambda>_. CHR ''7'') d) (dyn_s3 twins_s3) [''data''] [''nas''] twins_world
   in rep = \<lparr> mr_total_files = 2, mr_total_bytes = 2, mr_duplicates = 1, mr_s3_upload_bytes = 1, mr_errors = 0 \<rparr> \<and>
      map r_path (files (wdb w)) = [''/a''] \<and> row_of (wdb w) (FvfsPath ''/b'') = None"
  by code_simp

end
