(* ===== verification/Config.thy ===== *)
theory Config
  imports Fvfs_Error Eviction_Task
begin

text \<open>
  \<open>fvfs-core/src/config.rs\<close> and the numbers that \<open>run_serve\<close> derives from it. Reading the
  file and parsing TOML are parameters. The watermarks are shifted left by 30 bits and the flush
  size is multiplied in 64-bit arithmetic, so large values lose their upper bits.
\<close>

record daemon_config =
  dc_mount_path :: string
  dc_http_port :: u16
  dc_metadata_db :: string

record tier_config =
  tc_path :: string
  tc_high_watermark_gb :: u64
  tc_low_watermark_gb :: u64

record s3_tier_config =
  sc_bucket :: string
  sc_region :: string
  sc_prefix :: string

record tiers_config =
  tc_local :: tier_config
  tc_nas :: tier_config
  tc_s3 :: s3_tier_config

record upload_config =
  uc_flush_size_mb :: u64
  uc_flush_interval_secs :: u64

record eviction_config =
  ec_interval_secs :: u64
  ec_recency_weight :: f64
  ec_frequency_weight :: f64

record client_config =
  cc_mount_path :: string
  cc_local_cache_path :: string
  cc_local_cache_gb :: u64

record config =
  cf_daemon :: daemon_config
  cf_tiers :: tiers_config
  cf_upload :: upload_config
  cf_eviction :: eviction_config
  cf_client :: client_config

definition daemon_config_default :: daemon_config where
  "daemon_config_default =
     \<lparr> dc_mount_path = ''/mnt/fvfs'', dc_http_port = 7734, dc_metadata_db = ''/var/fvfsd/meta.db'' \<rparr>"

definition upload_config_default :: upload_config where
  "upload_config_default = \<lparr> uc_flush_size_mb = 256, uc_flush_interval_secs = 300 \<rparr>"

definition eviction_config_default :: eviction_config where
  "eviction_config_default =
     \<lparr> ec_interval_secs = 600, ec_recency_weight = f64_of_rat (7 / 10),
       ec_frequency_weight = f64_of_rat (3 / 10) \<rparr>"

definition client_config_default :: client_config where
  "client_config_default =
     \<lparr> cc_mount_path = ''/mnt/fvfs'', cc_local_cache_path = ''/tmp/fvfsc-cache'', cc_local_cache_gb = 20 \<rparr>"

definition default_config :: config where
  "default_config =
     \<lparr> cf_daemon = daemon_config_default,
       cf_tiers =
         \<lparr> tc_local = \<lparr> tc_path = ''/tmp/fvfs-local'', tc_high_watermark_gb = 200, tc_low_watermark_gb = 150 \<rparr>,
           tc_nas = \<lparr> tc_path = ''/tmp/fvfs-nas'', tc_high_watermark_gb = 2000, tc_low_watermark_gb = 1500 \<rparr>,
           tc_s3 = \<lparr> sc_bucket = ''freddie-fvfs'', sc_region = ''us-east-1'', sc_prefix = ''fvfs/'' \<rparr> \<rparr>,
       cf_upload = upload_config_default,
       cf_eviction = eviction_config_default,
       cf_client = client_config_default \<rparr>"

definition from_file ::
    "(string \<Rightarrow> string + string) \<Rightarrow> (string \<Rightarrow> string + config) \<Rightarrow> string \<Rightarrow> config fvfs_result" where
  "from_file read_to_string from_str path =
     (case read_to_string path of
        Inl e \<Rightarrow> Inl (fvfs_error.Config (''reading config: '' @ e))
      | Inr contents \<Rightarrow>
          (case from_str contents of
             Inl e \<Rightarrow> Inl (fvfs_error.Config (''parsing config: '' @ e))
           | Inr cfg \<Rightarrow> Inr cfg))"

definition load_or_default ::
    "(string \<Rightarrow> bool) \<Rightarrow> (string \<Rightarrow> string + string) \<Rightarrow> (string \<Rightarrow> string + config) \<Rightarrow> string \<Rightarrow> config fvfs_result" where
  "load_or_default exists_file read_to_string from_str path =
     (if exists_file path then from_file read_to_string from_str path else Inr default_config)"

section \<open>Derived numbers\<close>

definition config_watermarks :: "tier_config \<Rightarrow> tier_watermarks" where
  "config_watermarks tc =
     \<lparr> high_bytes = push_bit 30 (tc_high_watermark_gb tc), low_bytes = push_bit 30 (tc_low_watermark_gb tc) \<rparr>"

definition config_policy :: "eviction_config \<Rightarrow> arc_policy" where
  "config_policy ec = \<lparr> recency_weight = ec_recency_weight ec, frequency_weight = ec_frequency_weight ec \<rparr>"

definition config_flush_size :: "upload_config \<Rightarrow> u64" where
  "config_flush_size uc = uc_flush_size_mb uc * 1024 * 1024"

lemma unat_push_bit_30:
  assumes "unat (g :: u64) < 2 ^ 34"
  shows "unat (push_bit 30 g) = unat g * 2 ^ 30"
proof -
  have "unat g * 2 ^ 30 < 2 ^ 64" using assms by simp
  then show ?thesis
    by (simp add: push_bit_eq_mult unat_word_ariths(2))
qed

text \<open>Below 16 EiB the bytes are exact, and a low watermark below the high one stays below it.\<close>

lemma config_watermarks_exact:
  assumes "unat (tc_high_watermark_gb tc) < 2 ^ 34" "tc_low_watermark_gb tc \<le> tc_high_watermark_gb tc"
  shows "unat (high_bytes (config_watermarks tc)) = unat (tc_high_watermark_gb tc) * 2 ^ 30"
    "unat (low_bytes (config_watermarks tc)) = unat (tc_low_watermark_gb tc) * 2 ^ 30"
    "low_bytes (config_watermarks tc) \<le> high_bytes (config_watermarks tc)"
proof -
  have "unat (tc_low_watermark_gb tc) \<le> unat (tc_high_watermark_gb tc)"
    using assms(2) by (simp add: word_le_nat_alt)
  with assms(1) show "unat (high_bytes (config_watermarks tc)) = unat (tc_high_watermark_gb tc) * 2 ^ 30"
    "unat (low_bytes (config_watermarks tc)) = unat (tc_low_watermark_gb tc) * 2 ^ 30"
    "low_bytes (config_watermarks tc) \<le> high_bytes (config_watermarks tc)"
    by (simp_all add: config_watermarks_def word_le_nat_alt unat_push_bit_30)
qed

text \<open>
  Below 16 EiB the watermarks in bytes are exact (the shift by 30 loses no bit), and a low
  watermark that is not above the high one stays so.
\<close>

theorem watermarks_exact:
  assumes "unat (tc_high_watermark_gb tc) < 2 ^ 34" "tc_low_watermark_gb tc \<le> tc_high_watermark_gb tc"
  shows "unat (high_bytes (config_watermarks tc)) = unat (tc_high_watermark_gb tc) * 2 ^ 30 \<and>
    unat (low_bytes (config_watermarks tc)) = unat (tc_low_watermark_gb tc) * 2 ^ 30 \<and>
    low_bytes (config_watermarks tc) \<le> high_bytes (config_watermarks tc)"
  using config_watermarks_exact [OF assms] by simp

theorem watermarks_exact_witness:
  "unat (high_bytes (config_watermarks (tc_local (cf_tiers default_config)))) = 200 * 2 ^ 30 \<and>
   low_bytes (config_watermarks (tc_local (cf_tiers default_config))) \<le>
   high_bytes (config_watermarks (tc_local (cf_tiers default_config)))"
  using watermarks_exact [of "tc_local (cf_tiers default_config)"] by (simp add: default_config_def)

end
