(* ===== verification/Daemon_Process.thy ===== *)
theory Daemon_Process
  imports Daemon_Fuse Http_Api Migrate Config
begin

text \<open>
  The running daemon, as \<open>run_serve\<close> (\<open>fvfsd/src/main.rs\<close>) puts it together: the start-up
  sequence with the WAL replay, and then the HTTP server, the FUSE session and the loops of the
  three background tasks side by side, as a step relation on the state of the process.
  \<open>tokio::select!\<close> between a ticker and a notification is a \<open>wakeup\<close>; a notification needs the
  permit that \<open>notify_one\<close> left behind and takes it. The lemmas show that every step of the process
  is a run of the steps of \<open>Daemon_Steps\<close>, so that its invariants hold for the whole daemon.
\<close>

section \<open>Start-up\<close>

text \<open>A configured path as the names that the operating system resolves.\<close>

definition os_path :: "string \<Rightarrow> string list" where
  "os_path s = filter (\<lambda>w. w \<noteq> [] \<and> w \<noteq> ''.'') (split_on slash s)"

definition config_settings :: "config \<Rightarrow> settings" where
  "config_settings cfg =
     \<lparr> set_policy = config_policy (cf_eviction cfg),
       set_local_wm = config_watermarks (tc_local (cf_tiers cfg)),
       set_nas_wm = config_watermarks (tc_nas (cf_tiers cfg)),
       set_flush_size = config_flush_size (cf_upload cfg) \<rparr>"

definition config_router :: "config \<Rightarrow> 's s3_client \<Rightarrow> (disk \<times> 's) tier_router" where
  "config_router cfg cl =
     serve_router (os_path (tc_path (tc_local (cf_tiers cfg)))) (os_path (tc_path (tc_nas (cf_tiers cfg))))
       (s3_new cl (sc_bucket (tc_s3 (cf_tiers cfg))) (sc_prefix (tc_s3 (cf_tiers cfg))))"

text \<open>
  The sequence up to the replay. Opening the database and connecting to S3 are calls of libraries:
  \<open>opened\<close> and \<open>linked\<close> are their results. \<open>None\<close> is a panic of one of the \<open>expect\<close>s.
\<close>

definition run_serve ::
    "config \<Rightarrow> (string + db) \<Rightarrow> (string + 's s3_client) \<Rightarrow> (disk \<times> 's) world \<Rightarrow>
     ((disk \<times> 's) tier_router \<times> (disk \<times> 's) world) option" where
  "run_serve cfg opened linked w =
     (case on_disk Local (fs_create_dir_all (os_path (tc_path (tc_local (cf_tiers cfg))))) w of
        (Inl _, _) \<Rightarrow> None
      | (Inr _, w1) \<Rightarrow>
          (case opened of
             Inl _ \<Rightarrow> None
           | Inr d \<Rightarrow>
               (case linked of
                  Inl _ \<Rightarrow> None
                | Inr cl \<Rightarrow>
                    let r = config_router cfg cl
                    in Some (r, snd (replay_wal r (w1\<lparr>wdb := d, promote_q := []\<rparr>))))))"

section \<open>The process\<close>

record 'b process =
  pr_app :: "'b app_state"
  pr_inodes :: inode_table

definition process_new :: "'b world \<Rightarrow> 'b process" where
  "process_new w = \<lparr> pr_app = app_state_new w, pr_inodes = table_new \<rparr>"

datatype wakeup = Ticked | Notified

text \<open>One turn of the loop of \<open>run_s3_uploader\<close>; \<open>None\<close> while there is nothing to wake up for.\<close>

fun run_s3_uploader :: "'b tier_router \<Rightarrow> u64 \<Rightarrow> wakeup \<Rightarrow> 'b app_state \<Rightarrow> 'b app_state option" where
  "run_s3_uploader r flush_size Ticked s = Some (s\<lparr>app_world := flush_pending r flush_size (app_world s)\<rparr>)"
| "run_s3_uploader r flush_size Notified s =
     (if flush_permit s
      then Some (s\<lparr>flush_permit := False, app_world := flush_pending r flush_size (app_world s)\<rparr>)
      else None)"

text \<open>One turn of the loop of \<open>run_eviction\<close>.\<close>

fun run_eviction :: "'b tier_router \<Rightarrow> settings \<Rightarrow> wakeup \<Rightarrow> 'b app_state \<Rightarrow> 'b app_state option" where
  "run_eviction r cfg Ticked s =
     Some (s\<lparr>app_world := run_eviction_wakeup r (set_policy cfg) (set_local_wm cfg) (set_nas_wm cfg) (app_world s)\<rparr>)"
| "run_eviction r cfg Notified s =
     (if evict_permit s
      then Some (s\<lparr>evict_permit := False,
             app_world := run_eviction_wakeup r (set_policy cfg) (set_local_wm cfg) (set_nas_wm cfg) (app_world s)\<rparr>)
      else None)"

text \<open>One turn of the promotion loop: \<open>recv\<close> waits for a signal.\<close>

definition run_promotion :: "'b tier_router \<Rightarrow> 'b app_state \<Rightarrow> 'b app_state option" where
  "run_promotion r s =
     (if promote_q (app_world s) = [] then None else Some (s\<lparr>app_world := promote_next r (app_world s)\<rparr>))"

datatype action =
    Request http_method string bytes response
  | Call fuse_call reply
  | Upload wakeup
  | Evict wakeup
  | Promotion

inductive process_step ::
    "(bytes \<Rightarrow> string) \<Rightarrow> 'b tier_router \<Rightarrow> settings \<Rightarrow> nat \<Rightarrow> 'b process \<Rightarrow> action \<Rightarrow> 'b process \<Rightarrow> bool"
  for sha r cfg body_limit where
  request: "build_router sha r body_limit up_secs meth path data (pr_app s) = (resp, a) \<Longrightarrow>
     process_step sha r cfg body_limit s (Request meth path data resp) (s\<lparr>pr_app := a\<rparr>)"
| call: "fuse_handle sha r full now c \<lparr> vf_world = app_world (pr_app s), vf_inodes = pr_inodes s \<rparr> = (rep, f) \<Longrightarrow>
     process_step sha r cfg body_limit s (Call c rep)
       (s\<lparr>pr_app := (pr_app s)\<lparr>app_world := vf_world f\<rparr>, pr_inodes := vf_inodes f\<rparr>)"
| upload: "run_s3_uploader r (set_flush_size cfg) wake (pr_app s) = Some a \<Longrightarrow>
     process_step sha r cfg body_limit s (Upload wake) (s\<lparr>pr_app := a\<rparr>)"
| evict: "run_eviction r cfg wake (pr_app s) = Some a \<Longrightarrow>
     process_step sha r cfg body_limit s (Evict wake) (s\<lparr>pr_app := a\<rparr>)"
| promotion: "run_promotion r (pr_app s) = Some a \<Longrightarrow>
     process_step sha r cfg body_limit s Promotion (s\<lparr>pr_app := a\<rparr>)"

inductive process_runs ::
    "(bytes \<Rightarrow> string) \<Rightarrow> 'b tier_router \<Rightarrow> settings \<Rightarrow> nat \<Rightarrow> 'b process \<Rightarrow> action list \<Rightarrow> 'b process \<Rightarrow> bool"
  for sha r cfg body_limit where
  idle: "process_runs sha r cfg body_limit s [] s"
| act: "\<lbrakk>process_step sha r cfg body_limit s a u; process_runs sha r cfg body_limit u as s'\<rbrakk> \<Longrightarrow>
     process_runs sha r cfg body_limit s (a # as) s'"

section \<open>Requests move the world by steps of the daemon\<close>

definition moves :: "(bytes \<Rightarrow> string) \<Rightarrow> 'b tier_router \<Rightarrow> settings \<Rightarrow> 'b world \<Rightarrow> 'b world \<Rightarrow> bool" where
  "moves sha r cfg w w' \<longleftrightarrow> (\<exists>evs. runs sha r cfg w evs w')"

lemma moves_refl [simp]: "moves sha r cfg w w"
  by (auto simp: moves_def intro: runs.intros)

lemma moves_trans: "\<lbrakk>moves sha r cfg u v; moves sha r cfg v w\<rbrakk> \<Longrightarrow> moves sha r cfg u w"
  by (auto simp: moves_def intro: runs_append)

lemma moves_step: "\<lbrakk>moves sha r cfg u w; step sha r cfg w ev w'\<rbrakk> \<Longrightarrow> moves sha r cfg u w'"
  unfolding moves_def by (blast intro: runs_append runs_one)

text \<open>The invariant of a handler: all it has done to the world since \<open>w0\<close> is steps.\<close>

abbreviation stepping :: "(bytes \<Rightarrow> string) \<Rightarrow> 'b tier_router \<Rightarrow> settings \<Rightarrow> 'b world \<Rightarrow> 'b app_state \<Rightarrow> bool" where
  "stepping sha r cfg w0 s \<equiv> moves sha r cfg w0 (app_world s)"

lemma on_world_stepping:
  assumes "\<And>w res w'. m w = (res, w') \<Longrightarrow> \<exists>ev. step sha r cfg w ev w'"
  shows "preserves (stepping sha r cfg w0) (on_world m)"
  unfolding on_world_def by (rule preserves_zoom) (use assms moves_step in \<open>fastforce\<close>)

lemma query_stepping:
  assumes "\<And>d res d'. m d = (res, d') \<Longrightarrow> same_tables d d'"
  shows "preserves (stepping sha r cfg w0) (on_world (on_db m))"
  by (rule on_world_stepping) (use assms step_query in \<open>fastforce simp: on_db_run\<close>)

lemma preserves_lift_andThen:
  "(\<And>a. x = Inr a \<Longrightarrow> preserves I (f a)) \<Longrightarrow> preserves I (andThen (liftR x) f)"
  by (cases x) (simp_all add: preserves_def andThen_def liftR_def)

lemma parse_path_normal: "parse_path raw = Inr p \<Longrightarrow> normal_path p"
  by (simp add: parse_path_def path_new_normal)

text \<open>The queries the handlers make.\<close>

lemma wal_count_same: "wal_count d = (res, d') \<Longrightarrow> same_tables d d'"
  by (auto simp: wal_count_def andThen_def okR_def split: sum.splits prod.splits dest: pending_same)

lemma query_or_zero_stepping:
  assumes "\<And>d res d'. m d = (res, d') \<Longrightarrow> same_tables d d'"
  shows "preserves (stepping sha r cfg w0) (query_or_zero m)"
  unfolding query_or_zero_def by (intro preserves_intros query_stepping assms)

lemma handlers_stepping:
  "preserves (stepping sha r cfg w0) (handle_put_file sha r path data)"
  "preserves (stepping sha r cfg w0) (handle_get_file r path)"
  "preserves (stepping sha r cfg w0) (handle_delete_file r path)"
  "preserves (stepping sha r cfg w0) (handle_get_meta path)"
  unfolding handle_put_file_def handle_get_file_def handle_delete_file_def handle_get_meta_def
  by (intro preserves_lift_andThen preserves_intros on_world_stepping;
      blast dest: parse_path_normal intro: step_write step_read step_delete step_stat)+

lemma list_stepping: "normal_path p \<Longrightarrow> preserves (stepping sha r cfg w0) (list_entries p)"
  unfolding list_entries_def by (intro preserves_intros on_world_stepping) (blast intro: step_list)

lemma lists_stepping:
  "preserves (stepping sha r cfg w0) (handle_list pre)" "preserves (stepping sha r cfg w0) handle_list_root"
  unfolding handle_list_def handle_list_root_def
  by (intro preserves_lift_andThen list_stepping; blast dest: parse_path_normal path_new_normal)+

lemma admin_stepping:
  "preserves (stepping sha r cfg w0) handle_devices" "preserves (stepping sha r cfg w0) handle_admin_wal"
  "preserves (stepping sha r cfg w0) (handle_status t)"
  unfolding handle_devices_def handle_admin_wal_def handle_status_def
  by (intro preserves_intros query_stepping query_or_zero_stepping;
      blast dest: devices_same pending_same wal_count_same count_same tier_queries_same)+

lemma permits_stepping:
  "preserves (stepping sha r cfg w0) handle_admin_evict" "preserves (stepping sha r cfg w0) handle_admin_flush"
  by (simp_all add: preserves_def handle_admin_evict_def handle_admin_flush_def modifyR_def andThen_def okR_def)

lemma route_handler_stepping: "preserves (stepping sha r cfg w0) (route_handler sha r body_limit t rt meth data)"
  by (cases rt; cases meth)
    (auto intro: preserves_intros handlers_stepping lists_stepping admin_stepping permits_stepping)

lemma build_router_moves:
  assumes "build_router sha r body_limit t meth path data s = (resp, s')"
  shows "moves sha r cfg (app_world s) (app_world s')"
proof (cases "find_route path")
  case None
  with assms show ?thesis by (simp add: build_router_def respond_def okR_def)
next
  case (Some rt)
  obtain res s1 where run: "route_handler sha r body_limit t rt meth data s = (res, s1)" by fastforce
  have "s' = s1" using assms run Some by (auto simp: build_router_def respond_def split: sum.splits)
  with preservesD [OF route_handler_stepping _ run] show ?thesis by simp
qed

section \<open>The whole daemon\<close>

lemma process_step_moves:
  assumes "process_step sha r cfg body_limit s a s'" "paths_normal (pr_inodes s)"
  shows "moves sha r cfg (app_world (pr_app s)) (app_world (pr_app s')) \<and> paths_normal (pr_inodes s')"
  using assms
proof (cases rule: process_step.cases)
  case (request up_secs meth path data resp a)
  with assms(2) build_router_moves [OF request(3)] show ?thesis by simp
next
  case (call full now c rep f)
  have "fuse_moves sha r cfg \<lparr> vf_world = app_world (pr_app s), vf_inodes = pr_inodes s \<rparr> f"
    by (rule fuse_handle_moves [OF call(3)]) (simp add: assms(2))
  with call(2) show ?thesis by (simp add: fuse_moves_def moves_def)
next
  case (upload wake a)
  then have "app_world a = flush_pending r (set_flush_size cfg) (app_world (pr_app s))"
    by (cases wake) (auto split: if_splits)
  with upload assms(2) moves_step [OF moves_refl step_flush] show ?thesis by simp
next
  case (evict wake a)
  then have "app_world a = run_eviction_wakeup r (set_policy cfg) (set_local_wm cfg) (set_nas_wm cfg) (app_world (pr_app s))"
    by (cases wake) (auto split: if_splits)
  with evict assms(2) moves_step [OF moves_refl step_evict] show ?thesis by simp
next
  case (promotion a)
  then have "app_world a = promote_next r (app_world (pr_app s))"
    by (auto simp: run_promotion_def split: if_splits)
  with promotion assms(2) moves_step [OF moves_refl step_promote] show ?thesis by simp
qed

lemma process_runs_moves:
  "\<lbrakk>process_runs sha r cfg body_limit s as s'; paths_normal (pr_inodes s)\<rbrakk> \<Longrightarrow>
   moves sha r cfg (app_world (pr_app s)) (app_world (pr_app s')) \<and> paths_normal (pr_inodes s')"
  by (induction rule: process_runs.induct) (auto dest: process_step_moves intro: moves_trans)

text \<open>A flush that was asked for over HTTP wakes the uploader, once.\<close>

lemma requested_flush:
  assumes "find_route path = Some FlushRoute" "build_router sha r body_limit t POST path data s = (resp, s1)"
  shows "rs_status resp = 202 \<and>
    (\<exists>s2. run_s3_uploader r n Notified s1 = Some s2 \<and> app_world s2 = flush_pending r n (app_world s) \<and>
       run_s3_uploader r n Notified s2 = None)"
  using assms by (auto simp: build_router_def respond_def handle_admin_flush_def plain_def op_defs)

section \<open>Start-up keeps what was stored\<close>

abbreviation config_content ::
    "config \<Rightarrow> 's s3_client \<Rightarrow> ('s \<Rightarrow> string \<Rightarrow> string \<Rightarrow> bytes option) \<Rightarrow> tier \<Rightarrow> disk \<times> 's \<Rightarrow> fvfs_path \<Rightarrow> bytes option" where
  "config_content cfg cl objs \<equiv>
     serve_content (os_path (tc_path (tc_local (cf_tiers cfg)))) (os_path (tc_path (tc_nas (cf_tiers cfg))))
       (s3_new cl (sc_bucket (tc_s3 (cf_tiers cfg))) (sc_prefix (tc_s3 (cf_tiers cfg)))) objs"

lemma config_stack:
  assumes "s3_service cl objs"
  shows "tier_stack (config_router cfg cl) (config_content cfg cl objs) serve_inv"
  unfolding config_router_def by (rule serve_stack) (simp add: s3_new_def assms)

text \<open>A restart: the database is opened with the rows it had, the queue of promotions is empty.\<close>

lemma run_serve_recovers:
  assumes svc: "s3_service cl objs" and w: "world_ok serve_inv w"
    and run: "run_serve cfg (Inr (wdb w)) (Inr cl) w = Some (r, w')"
  shows "r = config_router cfg cl" "world_ok serve_inv w'"
    and "holds (config_content cfg cl objs) sha w p d \<Longrightarrow> holds (config_content cfg cl objs) sha w' p d"
proof -
  note stack = config_stack [OF svc, of cfg]
  obtain res w1 where mk: "on_disk Local (fs_create_dir_all (os_path (tc_path (tc_local (cf_tiers cfg))))) w = (res, w1)"
    by fastforce
  let ?w1 = "w1\<lparr>wdb := wdb w, promote_q := []\<rparr>"
  from run mk show r: "r = config_router cfg cl" by (auto simp: run_serve_def Let_def split: sum.splits)
  from run mk have w': "w' = snd (replay_wal (config_router cfg cl) ?w1)"
    by (auto simp: run_serve_def Let_def split: sum.splits)
  obtain x where x: "fs_create_dir_all (os_path (tc_path (tc_local (cf_tiers cfg)))) (fst (stores w Local)) = (res, x)"
    and w1: "w1 = w\<lparr>stores := (stores w)(Local := (x, snd (stores w Local)))\<rparr>"
    using on_disk_run [OF mk] by blast
  have rel: "reliable_disk (fst (stores w Local))" using w by (auto simp: world_ok_def serve_inv_def)
  then have same: "same_files (fst (stores w Local)) x" using fs_create_dir_all_run(1) [OF x] by blast
  have ok1: "world_ok serve_inv ?w1"
    using w same_files_reliable [OF same rel] by (auto simp: world_ok_def serve_inv_def w1)
  then show "world_ok serve_inv w'" unfolding w' by (rule tier_stack.replay_wal_ok [OF stack])
  have "config_content cfg cl objs t (stores ?w1 t) = config_content cfg cl objs t (stores w t)" for t
    using disk_content_same [OF same] by (cases t) (simp_all add: w1 fun_eq_iff)
  then have "holds (config_content cfg cl objs) sha ?w1 p d" if "holds (config_content cfg cl objs) sha w p d"
    using that by (auto intro: holds_row_copies)
  with ok1 show "holds (config_content cfg cl objs) sha w' p d" if "holds (config_content cfg cl objs) sha w p d"
    using tier_stack.replay_wal_keeps [OF stack conjI] that w' by blast
qed

end
