(* ===== verification/Http_Client.thy ===== *)
theory Http_Client
  imports Http_Api
begin

text \<open>
  \<open>VfsdClient\<close> (\<open>fvfsc/src/http_client.rs\<close>). The HTTP library is a parameter: joining a path to
  the base URL, sending a request, collecting a body as bytes or as JSON, printing a status code. The
  locale \<open>http_link\<close> names what the client relies on when it talks to the API of
  \<open>Http_Api\<close>: a request that is answered has been handled once, one that reports an error has
  been handled once or not at all, and a path of unreserved URL characters arrives as it was sent.
\<close>

section \<open>The client\<close>

record 's vfsd_client =
  hc_join :: "string \<Rightarrow> string option"
  hc_base_url :: string
  hc_send :: "http_method \<Rightarrow> string \<Rightarrow> bytes \<Rightarrow> ('s, string, response) op"
  hc_bytes :: "response \<Rightarrow> ('s, string, bytes) op"
  hc_json :: "response \<Rightarrow> ('s, string, json) op"
  hc_show_status :: "nat \<Rightarrow> string"

text \<open>
  \<open>VfsdClient::new\<close>: \<open>parse\<close> is \<open>Url::parse\<close>, giving a URL and how it joins a path, \<open>build\<close> the builder
  of the HTTP library with the timeout in seconds.
\<close>

definition client_new ::
    "(string \<Rightarrow> string + string \<times> (string \<Rightarrow> string option)) \<Rightarrow> (nat \<Rightarrow> string + 's vfsd_client) \<Rightarrow>
     string \<Rightarrow> string + 's vfsd_client" where
  "client_new parse build base_url =
     (case parse base_url of
        Inl e \<Rightarrow> Inl e
      | Inr base \<Rightarrow>
          (case build 30 of
             Inl e \<Rightarrow> Inl e
           | Inr client \<Rightarrow> Inr (client\<lparr>hc_base_url := fst base, hc_join := snd base\<rparr>)))"

definition client_url :: "'s vfsd_client \<Rightarrow> string \<Rightarrow> string" where
  "client_url c path =
     (case hc_join c (trim_start_matches slash path) of Some u \<Rightarrow> u | None \<Rightarrow> hc_base_url c)"

definition is_success :: "nat \<Rightarrow> bool" where
  "is_success code \<longleftrightarrow> 200 \<le> code \<and> code < 300"

definition map_http_error :: "'s vfsd_client \<Rightarrow> nat \<Rightarrow> fvfs_path \<Rightarrow> fvfs_error" where
  "map_http_error c code path =
     (if code = 404 then NotFound (as_str path)
      else if code = 409 then AlreadyExists (as_str path)
      else if code = 403 then PermissionDenied (as_str path)
      else if code = 400 then InvalidPath (as_str path)
      else Other (''HTTP '' @ hc_show_status c code))"

definition send_as ::
    "'s vfsd_client \<Rightarrow> string \<Rightarrow> http_method \<Rightarrow> string \<Rightarrow> bytes \<Rightarrow> ('s, fvfs_error, response) op" where
  "send_as c what meth api_path data =
     map_errR (\<lambda>e. Other (what @ '': '' @ e)) (hc_send c meth (client_url c api_path) data)"

definition client_put :: "'s vfsd_client \<Rightarrow> fvfs_path \<Rightarrow> bytes \<Rightarrow> ('s, fvfs_error, unit) op" where
  "client_put c path data =
     andThen (send_as c ''HTTP put'' PUT (''/v1/files'' @ as_str path) data) (\<lambda>resp.
     if is_success (rs_status resp) then okR () else errR (map_http_error c (rs_status resp) path))"

definition client_get :: "'s vfsd_client \<Rightarrow> fvfs_path \<Rightarrow> ('s, fvfs_error, bytes) op" where
  "client_get c path =
     andThen (send_as c ''HTTP get'' GET (''/v1/files'' @ as_str path) []) (\<lambda>resp.
     if rs_status resp = 404 then errR (NotFound (as_str path))
     else if \<not> is_success (rs_status resp) then errR (map_http_error c (rs_status resp) path)
     else map_errR (\<lambda>e. Other (''reading body: '' @ e)) (hc_bytes c resp))"

definition client_delete :: "'s vfsd_client \<Rightarrow> fvfs_path \<Rightarrow> ('s, fvfs_error, unit) op" where
  "client_delete c path =
     andThen (send_as c ''HTTP delete'' DELETE (''/v1/files'' @ as_str path) []) (\<lambda>resp.
     if is_success (rs_status resp) \<or> rs_status resp = 404 then okR ()
     else errR (map_http_error c (rs_status resp) path))"

text \<open>\<open>resp.json::<T>()\<close>: the body as JSON, of the expected shape.\<close>

definition decode_json ::
    "'s vfsd_client \<Rightarrow> string \<Rightarrow> (json \<Rightarrow> 'a option) \<Rightarrow> response \<Rightarrow> ('s, fvfs_error, 'a) op" where
  "decode_json c what shape resp =
     andThen (map_errR (\<lambda>e. Other (what @ '': '' @ e)) (hc_json c resp)) (\<lambda>j.
     case shape j of Some x \<Rightarrow> okR x | None \<Rightarrow> errR (Other (what @ '': '' @ ''unexpected shape'')))"

definition client_get_json ::
    "'s vfsd_client \<Rightarrow> (json \<Rightarrow> 'a option) \<Rightarrow> string \<Rightarrow> fvfs_path \<Rightarrow> ('s, fvfs_error, 'a) op" where
  "client_get_json c shape api_path vfs_path =
     andThen (send_as c ''HTTP'' GET api_path []) (\<lambda>resp.
     if rs_status resp = 404 then errR (NotFound (as_str vfs_path))
     else if \<not> is_success (rs_status resp) then errR (map_http_error c (rs_status resp) vfs_path)
     else decode_json c ''parse response'' shape resp)"

fun json_meta :: "json \<Rightarrow> file_metadata option" where
  "json_meta (JMeta m) = Some m" | "json_meta _ = None"

fun json_entries :: "json \<Rightarrow> file_entry list option" where
  "json_entries (JEntries es) = Some es" | "json_entries _ = None"

fun json_status :: "json \<Rightarrow> daemon_status option" where
  "json_status (JStatus st) = Some st" | "json_status _ = None"

fun json_wal :: "json \<Rightarrow> wal_entry list option" where
  "json_wal (JWal es) = Some es" | "json_wal _ = None"

definition client_stat :: "'s vfsd_client \<Rightarrow> fvfs_path \<Rightarrow> ('s, fvfs_error, file_metadata) op" where
  "client_stat c path = client_get_json c json_meta (''/v1/meta'' @ as_str path) path"

definition client_list :: "'s vfsd_client \<Rightarrow> fvfs_path \<Rightarrow> ('s, fvfs_error, file_entry list) op" where
  "client_list c pre = client_get_json c json_entries (''/v1/ls'' @ as_str pre) pre"

definition client_status :: "'s vfsd_client \<Rightarrow> ('s, fvfs_error, daemon_status) op" where
  "client_status c =
     andThen (send_as c ''HTTP status'' GET ''/v1/status'' []) (decode_json c ''parse status'' json_status)"

definition client_wal :: "'s vfsd_client \<Rightarrow> ('s, fvfs_error, wal_entry list) op" where
  "client_wal c =
     andThen (send_as c ''HTTP wal'' GET ''/v1/admin/wal'' []) (decode_json c ''parse wal'' json_wal)"

section \<open>The link to the daemon\<close>

definition url_safe_char :: "char \<Rightarrow> bool" where
  "url_safe_char x \<longleftrightarrow>
     (let n = of_char x :: nat
      in (48 \<le> n \<and> n \<le> 57) \<or> (65 \<le> n \<and> n \<le> 90) \<or> (97 \<le> n \<and> n \<le> 122) \<or>
         x \<in> {CHR ''-'', CHR ''.'', CHR ''_'', CHR ''~'', slash})"

text \<open>Nothing in such a path is a delimiter, needs escaping or is a dot segment.\<close>

definition url_plain :: "string \<Rightarrow> bool" where
  "url_plain a \<longleftrightarrow>
     a \<noteq> [] \<and> hd a \<noteq> slash \<and> list_all url_safe_char a \<and>
     list_all (\<lambda>w. w \<noteq> ''.'' \<and> w \<noteq> ''..'') (split_on slash a)"

definition url_safe :: "fvfs_path \<Rightarrow> bool" where
  "url_safe p \<longleftrightarrow> list_all url_safe_char (as_str p)"

lemma url_plain_api:
  assumes "normal_path p" "p \<noteq> root_path" "url_safe p"
  shows "url_plain (''v1/files'' @ as_str p)" "url_plain (''v1/meta'' @ as_str p)" "url_plain (''v1/ls'' @ as_str p)"
proof -
  have "segs p \<noteq> []" using assms(1,2) by (metis normal_root segs_inj segs_root)
  moreover have "of_segs (segs p) = p" "list_all proper_seg (segs p)"
    using assms(1) by (simp_all add: normal_path_segs normal_path_proper)
  ultimately have pieces: "split_on slash (as_str p) = [] # segs p"
    using split_on_of_segs [of "segs p"] by simp
  obtain rest where rest: "as_str p = slash # rest" using normal_path_slash [OF assms(1)] by metis
  with pieces have "split_on slash rest = segs p" by simp
  then have split: "split_on slash (pre @ as_str p) = split_on slash pre @ segs p" for pre
    by (simp add: rest split_on_append_sep2)
  have "list_all (\<lambda>w. w \<noteq> ''.'' \<and> w \<noteq> ''..'') (segs p)"
    using \<open>list_all proper_seg (segs p)\<close> by (auto simp: list_all_iff proper_seg_def)
  then show "url_plain (''v1/files'' @ as_str p)" "url_plain (''v1/meta'' @ as_str p)"
    "url_plain (''v1/ls'' @ as_str p)"
    using assms(3) unfolding url_plain_def url_safe_def split by (simp_all add: url_safe_char_def)
qed

locale http_link =
  fixes c :: "'b app_state vfsd_client"
    and sha :: "bytes \<Rightarrow> string"
    and r :: "'b tier_router"
    and body_limit :: nat
    and up_secs :: u64
  assumes send_ok: "\<lbrakk>url_plain a; hc_send c meth (client_url c (slash # a)) data s = (Inr resp, s')\<rbrakk> \<Longrightarrow>
            build_router sha r body_limit up_secs meth (slash # a) data s = (resp, s')"
    and send_err: "\<lbrakk>url_plain a; hc_send c meth (client_url c (slash # a)) data s = (Inl e, s')\<rbrakk> \<Longrightarrow>
            s' = s \<or> s' = snd (build_router sha r body_limit up_secs meth (slash # a) data s)"
    and bytes_same: "hc_bytes c resp s = (res, s') \<Longrightarrow> s' = s"
    and bytes_ok: "\<lbrakk>rs_body resp = Octets d; hc_bytes c resp s = (Inr x, s')\<rbrakk> \<Longrightarrow> x = d"
    and json_same: "hc_json c resp s = (res2, s') \<Longrightarrow> s' = s"
    and json_ok: "\<lbrakk>rs_body resp = Json j; hc_json c resp s = (Inr k, s')\<rbrakk> \<Longrightarrow> k = j"
begin

abbreviation serve :: "http_method \<Rightarrow> string \<Rightarrow> bytes \<Rightarrow> 'b app_state \<Rightarrow> response \<times> 'b app_state" where
  "serve \<equiv> build_router sha r body_limit up_secs"

lemma send_as_ok:
  assumes "send_as c what meth (slash # a) data s = (Inr resp, s')" "url_plain a"
  shows "serve meth (slash # a) data s = (resp, s')"
  using assms send_ok by (auto simp: send_as_def map_errR_Inr)

text \<open>What a client method does is what the router does, or nothing.\<close>

lemma client_put_run:
  assumes "client_put c p data s = (Inr (), s')" "normal_path p" "p \<noteq> root_path" "url_safe p"
  shows "\<exists>w'. router_write sha r p data (app_world s) = (Inr (), w') \<and> s' = s\<lparr>app_world := w'\<rparr>"
proof -
  obtain resp where sent: "send_as c ''HTTP put'' PUT (''/v1/files'' @ as_str p) data s = (Inr resp, s')"
    and ok: "is_success (rs_status resp)"
    using assms(1) by (auto simp: client_put_def andThen_Inr okR_def errR_def split: if_splits)
  obtain rest where rest: "as_str p = slash # rest" "parse_path rest = Inr p"
    "find_route (''/v1/files'' @ as_str p) = Some (FilesRoute rest)"
    using assms(2,3) by (rule find_route_path)
  have "serve PUT (''/v1/files'' @ as_str p) data s = (resp, s')"
    using send_as_ok [of "''HTTP put''" PUT "''v1/files'' @ as_str p"] sent url_plain_api [OF assms(2-4)] by simp
  with rest ok show ?thesis
    by (auto simp: build_router_def respond_def handle_put_file_def on_world_def error_response_def
        json_response_def plain_def is_success_def op_defs
        split: sum.splits prod.splits if_splits elim!: api_error.elims)
qed

lemma client_get_run:
  assumes "client_get c p s = (Inr x, s')" "normal_path p" "p \<noteq> root_path" "url_safe p"
  shows "\<exists>w'. router_read r p (app_world s) = (Inr x, w') \<and> s' = s\<lparr>app_world := w'\<rparr>"
proof -
  obtain resp s1 where sent: "send_as c ''HTTP get'' GET (''/v1/files'' @ as_str p) [] s = (Inr resp, s1)"
    and ok: "is_success (rs_status resp)" and body: "hc_bytes c resp s1 = (Inr x, s')"
    using assms(1) by (auto simp: client_get_def andThen_Inr okR_def errR_def map_errR_Inr split: if_splits)
  obtain rest where rest: "as_str p = slash # rest" "parse_path rest = Inr p"
    "find_route (''/v1/files'' @ as_str p) = Some (FilesRoute rest)"
    using assms(2,3) by (rule find_route_path)
  have "serve GET (''/v1/files'' @ as_str p) [] s = (resp, s1)"
    using send_as_ok [of "''HTTP get''" GET "''v1/files'' @ as_str p"] sent url_plain_api [OF assms(2-4)] by simp
  then have "\<exists>w' d. router_read r p (app_world s) = (Inr d, w') \<and> s1 = s\<lparr>app_world := w'\<rparr> \<and> rs_body resp = Octets d"
    using rest ok
    by (auto simp: build_router_def respond_def handle_get_file_def on_world_def error_response_def
        json_response_def is_success_def op_defs
        split: sum.splits prod.splits if_splits elim!: api_error.elims)
  with body bytes_same [OF body] bytes_ok [OF _ body] show ?thesis by auto
qed

end

text \<open>A link without failures, to the same process.\<close>

definition loopback ::
    "(bytes \<Rightarrow> string) \<Rightarrow> 'b tier_router \<Rightarrow> nat \<Rightarrow> u64 \<Rightarrow> 'b app_state vfsd_client" where
  "loopback sha r body_limit up_secs =
     \<lparr> hc_join = (\<lambda>p. Some (slash # p)), hc_base_url = ''/'',
       hc_send = (\<lambda>meth url data s. case build_router sha r body_limit up_secs meth url data s of
                    (resp, s') \<Rightarrow> (Inr resp, s')),
       hc_bytes = (\<lambda>resp s. (case rs_body resp of Octets d \<Rightarrow> Inr d | _ \<Rightarrow> Inr [], s)),
       hc_json = (\<lambda>resp s. (case rs_body resp of Json j \<Rightarrow> Inr j | _ \<Rightarrow> Inl ''EOF'', s)),
       hc_show_status = (\<lambda>_. []) \<rparr>"


lemma loopback_url:
  "url_plain a \<Longrightarrow> client_url (loopback sha r body_limit up_secs) (slash # a) = slash # a"
  by (cases a) (auto simp: client_url_def loopback_def url_plain_def trim_start_matches_def)

interpretation loop: http_link "loopback sha r body_limit up_secs" sha r body_limit up_secs
  for sha :: "bytes \<Rightarrow> string" and r :: "'b tier_router" and body_limit :: nat and up_secs :: u64
  by unfold_locales (auto simp: loopback_url, auto simp: loopback_def split: prod.splits)

end
