(* ===== verification/Local_Cache.thy ===== *)
theory Local_Cache
  imports Local_Disk
begin

text \<open>
  \<open>LocalCache\<close> (\<open>fvfsc/src/local_cache.rs\<close>): the client's read cache, files named by the SHA-256
  of their content. SHA-256 with hexadecimal printing is the parameter \<open>sha\<close>; what the code needs
  of it is \<open>hash_name\<close>: its digests are longer than two characters and hold no slash. The cache keeps
  the invariant \<open>cache_ok\<close>, every file has the digest that its path says, as long as no
  \<open>write_all\<close> fails half-way; it does not re-check a file that it serves.
\<close>

record local_cache =
  lc_root :: "string list"
  lc_max_bytes :: u64

definition cache_new :: "string list \<Rightarrow> u64 \<Rightarrow> local_cache" where
  "cache_new root max_bytes = \<lparr> lc_root = root, lc_max_bytes = max_bytes \<rparr>"

definition cache_init :: "local_cache \<Rightarrow> (disk, io_error, unit) op" where
  "cache_init c = fs_create_dir_all (lc_root c)"

text \<open>\<open>path.join(s)\<close>: an absolute \<open>s\<close> replaces the path.\<close>

definition os_join :: "string list \<Rightarrow> string \<Rightarrow> string list" where
  "os_join p s =
     (if starts_with s ''/'' then [] else p) @ filter (\<lambda>w. w \<noteq> [] \<and> w \<noteq> ''.'') (split_on slash s)"

definition cache_path :: "local_cache \<Rightarrow> string \<Rightarrow> string list" where
  "cache_path c sha256 =
     (let n = min 2 (length sha256)
      in os_join (os_join (lc_root c) (take n sha256)) (drop n sha256))"

definition cache_get_by_hash :: "local_cache \<Rightarrow> string \<Rightarrow> disk \<Rightarrow> bytes option \<times> disk" where
  "cache_get_by_hash c sha256 d =
     (case fs_read (cache_path c sha256) d of (Inr data, d') \<Rightarrow> (Some data, d') | (Inl _, d') \<Rightarrow> (None, d'))"

text \<open>Failures are logged and otherwise ignored, so the result is the state alone.\<close>

definition run_quietly :: "(disk, io_error, unit) op \<Rightarrow> disk \<Rightarrow> disk" where
  "run_quietly m d = snd (m d)"

definition cache_put :: "(bytes \<Rightarrow> string) \<Rightarrow> local_cache \<Rightarrow> bytes \<Rightarrow> disk \<Rightarrow> string \<times> disk" where
  "cache_put sha c data d =
     (let hash = sha data;
          path = cache_path c hash
      in (hash, run_quietly
            (andThen (if path \<noteq> [] then fs_create_dir_all (butlast path) else okR ()) (\<lambda>_.
             andThen (fs_exists path) (\<lambda>there.
             if there then okR ()
             else
               andThen (fs_create path) (\<lambda>_.
               fs_write_all path data)))) d))"

section \<open>Walking the cache\<close>

text \<open>
  One directory: \<open>next_entry\<close> returns the entries in turn and ends the loop when it fails; the
  subdirectories are pushed, the others are reported with their length and time.
\<close>

record cache_file =
  cf_mtime :: i64
  cf_path :: "string list"
  cf_len :: u64

definition node_mtime :: "disk \<Rightarrow> fs_node \<Rightarrow> i64" where
  "node_mtime d n = (case n of FileNode _ m \<Rightarrow> m | DirNode _ \<Rightarrow> fs_time d (calls d))"

type_synonym dir_stack = "(string list \<times> (string \<times> fs_node) list) list"

definition visit_entry :: "string list \<Rightarrow> fs_node \<Rightarrow> disk \<Rightarrow> cache_file list \<times> dir_stack \<times> disk" where
  "visit_entry path n d =
     (case syscall Stat (\<lambda>d. Inr ((), d)) d of
        (isd, d1) \<Rightarrow>
          (case (isd, n) of
             (Inr _, DirNode cs) \<Rightarrow> ([], [(path, cs)], d1)
           | _ \<Rightarrow>
               (case syscall Stat (\<lambda>d. Inr (\<lparr> cf_mtime = node_mtime d n, cf_path = path,
                                              cf_len = node_len d n \<rparr>, d)) d1 of
                  (Inr f, d2) \<Rightarrow> ([f], [], d2)
                | (Inl _, d2) \<Rightarrow> ([], [], d2))))"

fun scan_entries ::
    "string list \<Rightarrow> (string \<times> fs_node) list \<Rightarrow> disk \<Rightarrow> cache_file list \<times> dir_stack \<times> disk" where
  "scan_entries dir [] d = ([], [], snd (syscall ReadDir (\<lambda>d. Inr ((), d)) d))"
| "scan_entries dir ((x, n) # es) d =
     (case syscall ReadDir (\<lambda>d. Inr ((), d)) d of
        (Inl _, d1) \<Rightarrow> ([], [], d1)
      | (Inr _, d1) \<Rightarrow>
          (case visit_entry (dir @ [x]) n d1 of
             (found, dirs, d2) \<Rightarrow>
               (case scan_entries dir es d2 of
                  (found', dirs', d3) \<Rightarrow> (found @ found', dirs @ dirs', d3))))"

abbreviation entries_size :: "(string \<times> fs_node) list \<Rightarrow> nat" where
  "entries_size es \<equiv> size_list (size_prod (\<lambda>_. 0) size) es"

definition stack_size :: "dir_stack \<Rightarrow> nat" where
  "stack_size st = sum_list (map (\<lambda>(dir, es). Suc (entries_size es)) st)"

lemma stack_size_simps [simp]:
  "stack_size [] = 0" "stack_size ((dir, es) # st) = Suc (entries_size es + stack_size st)"
  "stack_size (st @ st') = stack_size st + stack_size st'" "stack_size (rev st) = stack_size st"
  by (simp_all add: stack_size_def rev_map [symmetric] sum_list_rev)

lemma scan_entries_size: "scan_entries dir es d = (found, dirs, d') \<Longrightarrow> stack_size dirs \<le> entries_size es"
proof (induction es arbitrary: d found dirs d')
  case (Cons e es)
  obtain x n where e: "e = (x, n)" by fastforce
  have "stack_size ds \<le> Suc (size n)" if "visit_entry q n u = (fs, ds, u')" for q u fs ds u'
    using that by (cases n) (auto simp: visit_entry_def split: prod.splits sum.splits)
  with Cons e show ?case by (fastforce split: prod.splits sum.splits)
qed simp

text \<open>The loop over the stack of directories, the last one pushed first.\<close>

function walk_stack :: "dir_stack \<Rightarrow> disk \<Rightarrow> cache_file list \<times> disk" where
  "walk_stack [] d = ([], d)"
| "walk_stack ((dir, es) # st) d =
     (case syscall ReadDir (\<lambda>d. Inr ((), d)) d of
        (Inl _, d1) \<Rightarrow> walk_stack st d1
      | (Inr _, d1) \<Rightarrow>
          (case scan_entries dir es d1 of
             (found, dirs, d2) \<Rightarrow>
               (case walk_stack (rev dirs @ st) d2 of (rest, d3) \<Rightarrow> (found @ rest, d3))))"
  by pat_completeness auto
termination
  by (relation "measure (\<lambda>(st, d). stack_size st)") (auto dest: scan_entries_size [OF sym])

declare walk_stack.simps(2) [simp del]

definition walk_root :: "string list \<Rightarrow> disk \<Rightarrow> cache_file list \<times> disk" where
  "walk_root root d =
     (case fs_lookup (tree d) root of
        Some (DirNode es) \<Rightarrow> walk_stack [(root, es)] d
      | _ \<Rightarrow> ([], d\<lparr>calls := Suc (calls d)\<rparr>))"

definition compute_dir_size :: "string list \<Rightarrow> disk \<Rightarrow> u64 \<times> disk" where
  "compute_dir_size root d =
     (case walk_root root d of (found, d') \<Rightarrow> (foldl (\<lambda>total f. total + cf_len f) 0 found, d'))"

definition collect_cache_files :: "string list \<Rightarrow> disk \<Rightarrow> cache_file list \<times> disk" where
  "collect_cache_files root d = walk_root root d"

definition cache_total_bytes :: "local_cache \<Rightarrow> disk \<Rightarrow> u64 \<times> disk" where
  "cache_total_bytes c d = compute_dir_size (lc_root c) d"

fun evict_loop :: "u64 \<Rightarrow> u64 \<Rightarrow> u64 \<Rightarrow> cache_file list \<Rightarrow> disk \<Rightarrow> disk" where
  "evict_loop used target freed [] d = d"
| "evict_loop used target freed (f # fs) d =
     (if used - freed \<le> target then d
      else case fs_remove_file (cf_path f) d of
             (Inr _, d') \<Rightarrow> evict_loop used target (freed + cf_len f) fs d'
           | (Inl _, d') \<Rightarrow> evict_loop used target freed fs d')"

definition evict_if_needed :: "local_cache \<Rightarrow> disk \<Rightarrow> disk" where
  "evict_if_needed c d =
     (case cache_total_bytes c d of
        (used, d1) \<Rightarrow>
          if used \<le> lc_max_bytes c then d1
          else case collect_cache_files (lc_root c) d1 of
                 (entries, d2) \<Rightarrow>
                   evict_loop used (min (used * 3 div 4) (lc_max_bytes c)) 0
                     (sort_by (\<lambda>a b. cf_mtime a > cf_mtime b) entries) d2)"

section \<open>The invariant\<close>

definition hash_name :: "string \<Rightarrow> bool" where
  "hash_name h \<longleftrightarrow> 2 < length h \<and> slash \<notin> set h \<and> CHR ''.'' \<notin> set h"

definition cache_ok :: "(bytes \<Rightarrow> string) \<Rightarrow> local_cache \<Rightarrow> disk \<Rightarrow> bool" where
  "cache_ok sha c d \<longleftrightarrow> reliable_disk d \<and>
     (\<forall>h data. hash_name h \<longrightarrow> file_at (tree d) (cache_path c h) = Some data \<longrightarrow> sha data = h)"

lemma cache_path_hash: "hash_name h \<Longrightarrow> cache_path c h = lc_root c @ [take 2 h, drop 2 h]"
proof -
  assume h: "hash_name h"
  have plain: "os_join p s = p @ [s]" if "s \<noteq> []" "slash \<notin> set s" "CHR ''.'' \<notin> set s" for p s
    using that by (cases s) (auto simp: os_join_def starts_with_def)
  have "set (take 2 h) \<subseteq> set h" "set (drop 2 h) \<subseteq> set h" by (simp_all add: set_take_subset set_drop_subset)
  with h show ?thesis unfolding cache_path_def hash_name_def Let_def
    by (subst plain, auto, subst plain) auto
qed

lemma cache_path_inj: "\<lbrakk>hash_name h; hash_name h'; cache_path c h = cache_path c h'\<rbrakk> \<Longrightarrow> h = h'"
  by (simp add: cache_path_hash) (metis append_take_drop_id)

lemma cache_ok_same: "\<lbrakk>same_files d d'; cache_ok sha c d\<rbrakk> \<Longrightarrow> cache_ok sha c d'"
  using same_files_reliable [of d d'] by (simp add: cache_ok_def same_files_def)

text \<open>What is served has the digest that was asked for.\<close>

lemma cache_get_by_hash_run:
  assumes "cache_get_by_hash c h d = (got, d')" "cache_ok sha c d"
  shows "cache_ok sha c d'" "\<lbrakk>got = Some data; hash_name h\<rbrakk> \<Longrightarrow> sha data = h"
proof -
  obtain res where read: "fs_read (cache_path c h) d = (res, d')" and got: "got = Some data \<Longrightarrow> res = Inr data" for data
    using assms(1) by (cases "fs_read (cache_path c h) d") (auto simp: cache_get_by_hash_def split: sum.splits)
  show "cache_ok sha c d'" using fs_read_run(1) [OF read] assms(2) by (rule cache_ok_same)
  show "\<lbrakk>got = Some data; hash_name h\<rbrakk> \<Longrightarrow> sha data = h"
    using fs_read_run(2) [OF read] got assms(2) by (auto simp: cache_ok_def)
qed

lemma cache_ok_write:
  assumes "cache_ok sha c d" "hash_name (sha data)" "reliable_disk d'"
    and "\<forall>q. q \<noteq> cache_path c (sha data) \<longrightarrow> file_at (tree d') q = file_at (tree d) q"
    and "file_at (tree d') (cache_path c (sha data)) = Some data"
  shows "cache_ok sha c d'"
  using assms by (auto simp: cache_ok_def) (metis cache_path_inj option.inject)

lemma fs_exists_same: "fs_exists p d = (res, d') \<Longrightarrow> same_files d d'"
  by (auto simp: fs_exists_def syscall_def Let_def split: prod.splits sum.splits option.splits)

lemma cache_put_ok:
  assumes d: "cache_ok sha c d" and h: "hash_name (sha data)"
  shows "cache_ok sha c (snd (cache_put sha c data d))"
proof -
  let ?p = "cache_path c (sha data)"
  have ne: "?p \<noteq> []" using cache_path_hash [OF h] by simp
  have rel: "reliable_disk d" using d by (simp add: cache_ok_def)
  obtain r1 d1 where mk: "fs_create_dir_all (butlast ?p) d = (r1, d1)" by fastforce
  have s1: "same_files d d1" using fs_create_dir_all_run(1) [OF mk] rel by simp
  obtain r2 d2 where ex: "fs_exists ?p d1 = (r2 :: io_error + bool, d2)" by fastforce
  obtain r3 d3 where cr: "fs_create ?p d2 = (r3, d3)" by fastforce
  obtain r4 d4 where wr: "fs_write_all ?p data d3 = (r4, d4)" by fastforce
  have ok1: "cache_ok sha c d1" by (rule cache_ok_same [OF s1 d])
  have ok2: "cache_ok sha c d2" by (rule cache_ok_same [OF fs_exists_same [OF ex] ok1])
  then have rel2: "reliable_disk d2" by (simp add: cache_ok_def)
  have ok3: "cache_ok sha c d3" if "r3 \<noteq> Inr ()"
    by (rule cache_ok_same [OF _ ok2]) (use fs_create_run(1) [OF cr] rel2 that in simp)
  have ok4: "cache_ok sha c d4" if "r3 = Inr ()"
  proof -
    have open3: "openable ?p d3" "io_fault d3 = io_fault d2"
      "\<forall>q. q \<noteq> ?p \<longrightarrow> file_at (tree d3) q = file_at (tree d2) q"
      using fs_create_run(2) [OF cr _ that] rel2 by auto
    note facts = fs_write_all_run [OF wr open3(1)]
    have "r4 = Inr ()" using facts(5) open3(2) rel2 by (cases r4) (auto simp: no_torn_def)
    then show ?thesis
      using facts open3 rel2 by (intro cache_ok_write [OF ok2 h]) (auto simp: no_torn_def openable_def)
  qed
  have "snd (cache_put sha c data d) \<in> (if r3 = Inr () then {d1, d2, d4} else {d1, d2, d3})"
    using ne mk ex cr wr
    by (auto simp: cache_put_def run_quietly_def Let_def andThen_def okR_def split: sum.splits prod.splits)
  with ok1 ok2 ok3 ok4 show ?thesis by (auto split: if_splits)
qed

text \<open>Walking looks only.\<close>

lemma syscall_looks:
  assumes "syscall c (\<lambda>d. Inr (f d, d)) d = (res, d')"
  shows "tree d' = tree d \<and> io_fault d' = io_fault d"
  using assms by (auto simp: syscall_def Let_def split: option.splits)

lemma visit_entry_looks: "visit_entry q n d = (fs, ds, d') \<Longrightarrow> tree d' = tree d \<and> io_fault d' = io_fault d"
  by (auto simp: visit_entry_def split: prod.splits sum.splits fs_node.splits dest!: syscall_looks)

lemma scan_entries_looks:
  "scan_entries dir es d = (fs, ds, d') \<Longrightarrow> tree d' = tree d \<and> io_fault d' = io_fault d"
proof (induction es arbitrary: d fs ds d')
  case Nil
  obtain r1 d1 where s1: "syscall ReadDir (\<lambda>d. Inr ((), d)) d = (r1, d1)" by fastforce
  with Nil have "d' = d1" by simp
  with syscall_looks [OF s1] show ?case by simp
next
  case (Cons e es)
  obtain x n where e: "e = (x, n)" by fastforce
  obtain r1 d1 where s1: "syscall ReadDir (\<lambda>d. Inr ((), d)) d = (r1, d1)" by fastforce
  obtain f1 ds1 d2 where v: "visit_entry (dir @ [x]) n d1 = (f1, ds1, d2)" using prod_cases3 by blast
  obtain f2 ds2 d3 where sc: "scan_entries dir es d2 = (f2, ds2, d3)" using prod_cases3 by blast
  have "d' = (case r1 of Inl _ \<Rightarrow> d1 | Inr _ \<Rightarrow> d3)" using Cons.prems e s1 v sc by (auto split: sum.splits)
  with syscall_looks [OF s1] visit_entry_looks [OF v] Cons.IH [OF sc] show ?case by (auto split: sum.splits)
qed

lemma walk_stack_looks: "walk_stack st d = (fs, d') \<Longrightarrow> tree d' = tree d \<and> io_fault d' = io_fault d"
proof (induction st d arbitrary: fs d' rule: walk_stack.induct)
  case (2 dir es st d)
  obtain r1 d1 where s1: "syscall ReadDir (\<lambda>d. Inr ((), d)) d = (r1, d1)" by fastforce
  show ?case
  proof (cases r1)
    case (Inl e)
    then have "walk_stack st d1 = (fs, d')" using 2(3) s1 by (simp add: walk_stack.simps(2))
    from 2(1) [OF s1 [symmetric] Inl this] syscall_looks [OF s1] show ?thesis by simp
  next
    case (Inr u)
    obtain f1 ds1 d2 where sc: "scan_entries dir es d1 = (f1, ds1, d2)" using prod_cases3 by blast
    obtain f2 d3 where w: "walk_stack (rev ds1 @ st) d2 = (f2, d3)" by fastforce
    have "d' = d3" using 2(3) s1 Inr sc w by (simp add: walk_stack.simps(2))
    with 2(2) [OF s1 [symmetric] Inr sc [symmetric] refl w] scan_entries_looks [OF sc] syscall_looks [OF s1]
    show ?thesis by simp
  qed
qed simp

lemma walk_root_same: "walk_root root d = (fs, d') \<Longrightarrow> same_files d d'"
  by (auto simp: walk_root_def same_files_def disk_ok_def dest: walk_stack_looks
      split: option.splits fs_node.splits)

lemma evict_loop_ok:
  assumes "cache_ok sha c d"
  shows "cache_ok sha c (evict_loop used target freed fs d)"
    and "file_at (tree (evict_loop used target freed fs d)) q \<in> {None, file_at (tree d) q}"
proof -
  have "cache_ok sha c (evict_loop used target freed fs d) \<and>
      file_at (tree (evict_loop used target freed fs d)) q \<in> {None, file_at (tree d) q}"
    using assms
  proof (induction fs arbitrary: freed d)
    case (Cons f fs)
    obtain res d' where rm: "fs_remove_file (cf_path f) d = (res, d')" by fastforce
    have rel: "reliable_disk d" using Cons.prems by (simp add: cache_ok_def)
    note run = fs_remove_file_run [OF rm]
    have d': "cache_ok sha c d' \<and> file_at (tree d') q \<in> {None, file_at (tree d) q}" for q
    proof (cases "res = Inr ()")
      case True
      with run(2) rel Cons.prems show ?thesis by (auto simp: cache_ok_def no_torn_def)
    next
      case False
      with run(1) rel have same: "same_files d d'" by simp
      with cache_ok_same [OF same Cons.prems] show ?thesis by (simp add: same_files_def)
    qed
    have "cache_ok sha c (evict_loop used target k fs d') \<and>
        file_at (tree (evict_loop used target k fs d')) q \<in> {None, file_at (tree d) q}" for k
      using Cons.IH [of d' k] d' [of q] by auto
    with rm Cons.prems show ?case by (cases res) simp_all
  qed simp
  then show "cache_ok sha c (evict_loop used target freed fs d)"
    and "file_at (tree (evict_loop used target freed fs d)) q \<in> {None, file_at (tree d) q}" by auto
qed

lemma evict_if_needed_ok:
  assumes "cache_ok sha c d"
  shows "cache_ok sha c (evict_if_needed c d)"
    and "file_at (tree (evict_if_needed c d)) q \<in> {None, file_at (tree d) q}"
proof -
  obtain used d1 where w1: "cache_total_bytes c d = (used, d1)" by fastforce
  obtain es d2 where w2: "collect_cache_files (lc_root c) d1 = (es, d2)" by fastforce
  have s1: "same_files d d1"
    using w1 by (auto simp: cache_total_bytes_def compute_dir_size_def split: prod.splits dest: walk_root_same)
  have s2: "same_files d1 d2" using w2 by (auto simp: collect_cache_files_def dest: walk_root_same)
  have ok: "cache_ok sha c d1" "cache_ok sha c d2"
    using cache_ok_same [OF s1 assms] cache_ok_same [OF s2] by auto
  note loop = evict_loop_ok [OF ok(2)]
  show "cache_ok sha c (evict_if_needed c d)" using w1 w2 ok loop(1) by (simp add: evict_if_needed_def)
  have "file_at (tree d1) q = file_at (tree d) q" "file_at (tree d2) q = file_at (tree d) q"
    using s1 s2 by (auto simp: same_files_def)
  with w1 w2 show "file_at (tree (evict_if_needed c d)) q \<in> {None, file_at (tree d) q}"
    using loop(2) [of used "min (used * 3 div 4) (lc_max_bytes c)" 0
        "sort_by (\<lambda>a b. cf_mtime a > cf_mtime b) es" q]
    by (simp add: evict_if_needed_def)
qed

text \<open>Without failures, what was put is found again.\<close>

lemma cache_put_found:
  assumes d: "cache_ok sha c d" "no_io_fault d" and h: "hash_name (sha data)"
    and room: "mkdirs (tree d) (butlast (cache_path c (sha data))) = Inr t" "\<not> dir_at t (cache_path c (sha data))"
  shows "\<exists>x d'. cache_get_by_hash c (sha data) (snd (cache_put sha c data d)) = (Some x, d') \<and> sha x = sha data"
proof -
  let ?p = "cache_path c (sha data)"
  have ne: "?p \<noteq> []" using cache_path_hash [OF h] by simp
  have ok: "disk_ok d" using d(1) by (simp add: cache_ok_def)
  have nf: "io_fault d n k = None" for n k using d(2) by (simp add: no_io_fault_def)
  obtain d1 where mk: "fs_create_dir_all (butlast ?p) d = (Inr (), d1)"
    and d1: "tree d1 = t" "io_fault d1 = io_fault d"
    using room(1) nf by (simp add: fs_create_dir_all_def syscall_def)
  have dir: "dir_at t (butlast ?p)" using mkdirs_dir_at [OF room(1)] .
  obtain d2 where ex: "fs_exists ?p d1 = (Inr (fs_lookup t ?p \<noteq> None) :: io_error + bool, d2)"
    and d2: "tree d2 = t" "io_fault d2 = io_fault d"
    using d1 nf by (simp add: fs_exists_def syscall_def)
  obtain r3 d3 where cr: "fs_create ?p d2 = (r3, d3)" by fastforce
  obtain r4 d4 where wr: "fs_write_all ?p data d3 = (r4, d4)" by fastforce
  let ?fin = "snd (cache_put sha c data d)"
  have final: "?fin = (if fs_lookup t ?p \<noteq> None then d2 else if r3 = Inr () then d4 else d3)"
    using ne mk ex cr wr
    by (cases r3) (simp_all add: cache_put_def run_quietly_def Let_def andThen_def okR_def)
  have "\<exists>x. file_at (tree ?fin) ?p = Some x \<and> io_fault ?fin = io_fault d"
  proof (cases "fs_lookup t ?p")
    case None
    have "r3 = Inr ()"
      using cr None dir by (auto simp: fs_create_def syscall_def d2 nf dir_at_def split: fs_node.splits)
    moreover have "disk_ok d2" using mkdirs_root_dir [OF room(1)] ok d2 by (simp add: disk_ok_def)
    ultimately have open3: "openable ?p d3" "io_fault d3 = io_fault d"
      using fs_create_run(2) [OF cr] d2 by auto
    note facts = fs_write_all_run [OF wr open3(1)]
    have "r4 = Inr ()" using facts(5) open3(2) nf by (cases r4) auto
    with facts open3 final None \<open>r3 = Inr ()\<close> show ?thesis by simp
  next
    case (Some n)
    with room(2) obtain b m where "fs_lookup t ?p = Some (FileNode b m)" by (cases n) (auto simp: dir_at_def)
    with final d2 show ?thesis by (simp add: file_at_def)
  qed
  then obtain x where x: "file_at (tree ?fin) ?p = Some x" "io_fault ?fin = io_fault d" by blast
  then have "\<exists>d'. cache_get_by_hash c (sha data) ?fin = (Some x, d')"
    using nf by (auto simp: cache_get_by_hash_def fs_read_def syscall_def file_at_def Let_def
        split: option.splits fs_node.splits)
  moreover have "sha x = sha data" using cache_put_ok [OF d(1) h] x(1) h by (auto simp: cache_ok_def)
  ultimately show ?thesis by blast
qed

section \<open>Properties\<close>



text \<open>
  Without I/O failures, and unless a file or directory is in the way, content that was put is
  found again under its digest.
\<close>

theorem cache_put_get:
  assumes "cache_ok sha c d" "no_io_fault d" "hash_name (sha data)"
    and "mkdirs (tree d) (butlast (cache_path c (sha data))) = Inr t" "\<not> dir_at t (cache_path c (sha data))"
  shows "\<exists>x d'. cache_get_by_hash c (sha data) (snd (cache_put sha c data d)) = (Some x, d') \<and> sha x = sha data"
  by (rule cache_put_found [OF assms])

theorem cache_put_get_witness:
  "\<exists>x d'. cache_get_by_hash (cache_new [] 9) ''abc'' (snd (cache_put (\<lambda>_. ''abc'') (cache_new [] 9) [1] empty_disk)) = (Some x, d')"
proof -
  have "cache_ok (\<lambda>_. ''abc'') (cache_new [] 9) empty_disk" "no_io_fault empty_disk" "hash_name ''abc''"
    by (simp_all add: cache_ok_def disk_ok_def no_torn_def empty_disk_def no_io_fault_def hash_name_def)
  moreover have "mkdirs (tree empty_disk) (butlast (cache_path (cache_new [] 9) ''abc'')) = Inr (DirNode [(''ab'', DirNode [])])"
    by code_simp
  moreover have "\<not> dir_at (DirNode [(''ab'', DirNode [])]) (cache_path (cache_new [] 9) ''abc'')"
    using cache_path_hash [of "''abc''" "cache_new [] 9"] by (simp add: hash_name_def cache_new_def)
  ultimately show ?thesis using cache_put_get [of "\<lambda>_. ''abc''" "cache_new [] 9" empty_disk "[1]"] by blast
qed


end
