(* ===== verification/Client_Fuse.thy ===== *)
theory Client_Fuse
  imports Daemon_Fuse Http_Client Local_Cache
begin

text \<open>
  \<open>VfscFuse\<close> (\<open>fvfsc/src/fuse_handler.rs\<close>): the FUSE calls of the client, over its connection to
  the daemon, its local cache and its inode table. Reads spawn a task that fills the cache; the
  tasks that have not run yet are part of the state, and \<open>cfuse_spawned\<close> runs one of them.
\<close>

record 's vfsc_fuse =
  vc_link :: 's
  vc_disk :: disk
  vc_spawned :: "bytes list"
  vc_inodes :: inode_table

definition cfuse_new :: "'s \<Rightarrow> disk \<Rightarrow> 's vfsc_fuse" where
  "cfuse_new l d = \<lparr> vc_link = l, vc_disk = d, vc_spawned = [], vc_inodes = table_new \<rparr>"

definition cfuse_lookup :: "'s vfsd_client \<Rightarrow> u64 \<Rightarrow> string \<Rightarrow> 's vfsc_fuse \<Rightarrow> reply \<times> 's vfsc_fuse" where
  "cfuse_lookup c parent name s =
     (case child_path (vc_inodes s) parent name of
        Inl e \<Rightarrow> (ReplyError e, s)
      | Inr path \<Rightarrow>
          (case client_stat c path (vc_link s) of
             (Inr meta, l) \<Rightarrow>
               (case get_or_alloc path (vc_inodes s) of
                  (ino, t) \<Rightarrow> (attr_reply ReplyEntry ino meta, s\<lparr>vc_link := l, vc_inodes := t\<rparr>))
           | (Inl (NotFound _), l) \<Rightarrow> (ReplyError ENOENT, s\<lparr>vc_link := l\<rparr>)
           | (Inl _, l) \<Rightarrow> (ReplyError EIO, s\<lparr>vc_link := l\<rparr>)))"

definition cfuse_getattr :: "'s vfsd_client \<Rightarrow> i64 \<Rightarrow> u64 \<Rightarrow> 's vfsc_fuse \<Rightarrow> reply \<times> 's vfsc_fuse" where
  "cfuse_getattr c now ino s =
     (if ino = ROOT_INO then (ReplyAttr (root_attr now), s)
      else case table_path (vc_inodes s) ino of
             None \<Rightarrow> (ReplyError ENOENT, s)
           | Some path \<Rightarrow>
               (case client_stat c path (vc_link s) of
                  (Inr meta, l) \<Rightarrow> (attr_reply ReplyAttr ino meta, s\<lparr>vc_link := l\<rparr>)
                | (Inl (NotFound _), l) \<Rightarrow> (ReplyError ENOENT, s\<lparr>vc_link := l\<rparr>)
                | (Inl _, l) \<Rightarrow> (ReplyError EIO, s\<lparr>vc_link := l\<rparr>)))"

text \<open>The cached bytes of a path, found by the digest that \<open>stat\<close> reports.\<close>

definition cached_bytes ::
    "'s vfsd_client \<Rightarrow> local_cache \<Rightarrow> fvfs_path \<Rightarrow> 's vfsc_fuse \<Rightarrow> bytes option \<times> 's vfsc_fuse" where
  "cached_bytes c lc path s =
     (case client_stat c path (vc_link s) of
        (Inl _, l) \<Rightarrow> (None, s\<lparr>vc_link := l\<rparr>)
      | (Inr meta, l) \<Rightarrow>
          if fm_sha256 meta = [] then (None, s\<lparr>vc_link := l\<rparr>)
          else case cache_get_by_hash lc (fm_sha256 meta) (vc_disk s) of
                 (got, d) \<Rightarrow> (got, s\<lparr>vc_link := l, vc_disk := d\<rparr>))"

definition cfuse_read ::
    "'s vfsd_client \<Rightarrow> local_cache \<Rightarrow> u64 \<Rightarrow> i64 \<Rightarrow> u32 \<Rightarrow> 's vfsc_fuse \<Rightarrow> reply \<times> 's vfsc_fuse" where
  "cfuse_read c lc ino offset len s =
     (case table_path (vc_inodes s) ino of
        None \<Rightarrow> (ReplyError ENOENT, s)
      | Some path \<Rightarrow>
          (case cached_bytes c lc path s of
             (Some data, s1) \<Rightarrow> (ReplyData (read_slice offset len data), s1)
           | (None, s1) \<Rightarrow>
               (case client_get c path (vc_link s1) of
                  (Inr data, l) \<Rightarrow>
                    (ReplyData (read_slice offset len data),
                     s1\<lparr>vc_link := l, vc_spawned := vc_spawned s1 @ [data]\<rparr>)
                | (Inl e, l) \<Rightarrow> (read_error e, s1\<lparr>vc_link := l\<rparr>))))"

definition cfuse_spawned :: "(bytes \<Rightarrow> string) \<Rightarrow> local_cache \<Rightarrow> nat \<Rightarrow> 's vfsc_fuse \<Rightarrow> 's vfsc_fuse" where
  "cfuse_spawned sha lc i s =
     (if i < length (vc_spawned s)
      then s\<lparr>vc_disk := snd (cache_put sha lc (vc_spawned s ! i) (vc_disk s)),
             vc_spawned := take i (vc_spawned s) @ drop (Suc i) (vc_spawned s)\<rparr>
      else s)"

definition cfuse_write ::
    "'s vfsd_client \<Rightarrow> u64 \<Rightarrow> i64 \<Rightarrow> bytes \<Rightarrow> 's vfsc_fuse \<Rightarrow> reply \<times> 's vfsc_fuse" where
  "cfuse_write c ino offset data s =
     (case table_path (vc_inodes s) ino of
        None \<Rightarrow> (ReplyError ENOENT, s)
      | Some path \<Rightarrow>
          (case client_get c path (vc_link s) of
             (res, l) \<Rightarrow>
               (case write_splice offset data (unwrap_or_default res) of
                  None \<Rightarrow> (Panicked, s\<lparr>vc_link := l\<rparr>)
                | Some buf \<Rightarrow>
                    (case client_put c path buf l of
                       (Inr _, l') \<Rightarrow> (ReplyWritten (of_nat (length data)), s\<lparr>vc_link := l'\<rparr>)
                     | (Inl _, l') \<Rightarrow> (ReplyError EIO, s\<lparr>vc_link := l'\<rparr>)))))"

definition cfuse_create ::
    "'s vfsd_client \<Rightarrow> i64 \<Rightarrow> u64 \<Rightarrow> string \<Rightarrow> 's vfsc_fuse \<Rightarrow> reply \<times> 's vfsc_fuse" where
  "cfuse_create c now parent name s =
     (case child_path (vc_inodes s) parent name of
        Inl e \<Rightarrow> (ReplyError e, s)
      | Inr path \<Rightarrow>
          (case client_put c path [] (vc_link s) of
             (Inl _, l) \<Rightarrow> (ReplyError EIO, s\<lparr>vc_link := l\<rparr>)
           | (Inr _, l) \<Rightarrow>
               (case get_or_alloc path (vc_inodes s) of
                  (ino, t) \<Rightarrow> (ReplyCreated (fresh_attr now ino RegularFile),
                               s\<lparr>vc_link := l, vc_inodes := t\<rparr>))))"

definition cfuse_unlink :: "'s vfsd_client \<Rightarrow> u64 \<Rightarrow> string \<Rightarrow> 's vfsc_fuse \<Rightarrow> reply \<times> 's vfsc_fuse" where
  "cfuse_unlink c parent name s =
     (case child_path (vc_inodes s) parent name of
        Inl e \<Rightarrow> (ReplyError e, s)
      | Inr path \<Rightarrow>
          (case client_delete c path (vc_link s) of
             (Inr _, l) \<Rightarrow> (ReplyOk, s\<lparr>vc_link := l, vc_inodes := table_remove path (vc_inodes s)\<rparr>)
           | (Inl _, l) \<Rightarrow> (ReplyError EIO, s\<lparr>vc_link := l\<rparr>)))"

definition cfuse_readdir ::
    "'s vfsd_client \<Rightarrow> (dirent list \<Rightarrow> dirent \<Rightarrow> bool) \<Rightarrow> u64 \<Rightarrow> i64 \<Rightarrow> 's vfsc_fuse \<Rightarrow> reply \<times> 's vfsc_fuse" where
  "cfuse_readdir c full ino offset s =
     (case table_path (vc_inodes s) ino of
        None \<Rightarrow> (ReplyError ENOENT, s)
      | Some dir_path \<Rightarrow>
          (case client_list c dir_path (vc_link s) of
             (Inl _, l) \<Rightarrow> (ReplyError EIO, s\<lparr>vc_link := l\<rparr>)
           | (Inr entries, l) \<Rightarrow>
               (case readdir_reply get_or_alloc full ino offset entries (vc_inodes s) of
                  (ds, t) \<Rightarrow> (ReplyDirectory ds, s\<lparr>vc_link := l, vc_inodes := t\<rparr>))))"

section \<open>What a request does to the daemon\<close>

context http_link
begin

lemma send_as_state:
  assumes "send_as c what meth (slash # a) data s = (res, s')" "url_plain a"
  shows "s' = s \<or> s' = snd (serve meth (slash # a) data s)"
proof -
  obtain res1 where "hc_send c meth (client_url c (slash # a)) data s = (res1, s')"
    using assms(1) by (cases "hc_send c meth (client_url c (slash # a)) data s")
      (auto simp: send_as_def map_errR_def split: sum.splits)
  with send_ok [OF assms(2)] send_err [OF assms(2)] show ?thesis by (cases res1) fastforce+
qed

lemma json_state:
  assumes "client_get_json c shape (slash # a) p s = (res, s')" "url_plain a"
  shows "s' = s \<or> s' = snd (serve GET (slash # a) [] s)"
    and "res = Inr x \<Longrightarrow> \<exists>resp. serve GET (slash # a) [] s = (resp, s') \<and> is_success (rs_status resp) \<and>
           (\<forall>j. rs_body resp = Json j \<longrightarrow> shape j = Some x)"
proof -
  obtain res1 s1 where sent: "send_as c ''HTTP'' GET (slash # a) [] s = (res1, s1)" by fastforce
  obtain res2 s2 where js: "\<And>resp. res1 = Inr resp \<Longrightarrow> hc_json c resp s1 = (res2, s2)"
    by (cases res1) (auto, metis surj_pair)
  have s2: "s2 = s1" if "res1 = Inr resp" for resp using json_same [OF js [OF that]] .
  have "s' = s1"
    using assms(1) sent js s2
    by (auto simp: client_get_json_def decode_json_def andThen_def map_errR_def okR_def errR_def
        split: sum.splits prod.splits option.splits if_splits)
  with send_as_state [OF sent assms(2)] show "s' = s \<or> s' = snd (serve GET (slash # a) [] s)" by simp
  assume res: "res = Inr x"
  with assms(1) sent obtain resp where resp: "res1 = Inr resp" "is_success (rs_status resp)"
      "decode_json c ''parse response'' shape resp s1 = (Inr x, s')"
    by (auto simp: client_get_json_def andThen_def errR_def split: sum.splits if_splits)
  then obtain j where j: "res2 = Inr j" "shape j = Some x"
    using js [OF resp(1)] by (auto simp: decode_json_def andThen_Inr map_errR_Inr okR_def errR_def split: option.splits)
  have "serve GET (slash # a) [] s = (resp, s')"
    using send_as_ok [OF sent [unfolded resp(1)] assms(2)] \<open>s' = s1\<close> by simp
  moreover have "\<forall>k. rs_body resp = Json k \<longrightarrow> shape k = Some x"
    using json_ok [OF _ js [OF resp(1), unfolded j(1)]] j(2) by auto
  ultimately show "\<exists>resp. serve GET (slash # a) [] s = (resp, s') \<and> is_success (rs_status resp) \<and>
      (\<forall>j. rs_body resp = Json j \<longrightarrow> shape j = Some x)" using resp(2) by blast
qed

lemma stat_run:
  assumes "client_stat c p s = (res, s')" "normal_path p" "p \<noteq> root_path" "url_safe p"
  shows "app_world s' = app_world s \<or> app_world s' = snd (router_stat p (app_world s))"
    and "res = Inr m \<Longrightarrow> router_stat p (app_world s) = (Inr m, app_world s')"
proof -
  obtain rest where rest: "parse_path rest = Inr p" "find_route (''/v1/meta'' @ as_str p) = Some (MetaRoute rest)"
    using assms(2,3) by (rule find_route_path)
  have api: "slash # (''v1/meta'' @ as_str p) = ''/v1/meta'' @ as_str p" by simp
  have plain: "url_plain (''v1/meta'' @ as_str p)" using url_plain_api [OF assms(2-4)] by simp
  note run = json_state [OF assms(1) [unfolded client_stat_def, folded api] plain, unfolded api]
  have served: "serve GET (''/v1/meta'' @ as_str p) [] s =
      (case router_stat p (app_world s) of
         (Inl e, w) \<Rightarrow> (error_response e, s\<lparr>app_world := w\<rparr>)
       | (Inr m, w) \<Rightarrow> (json_response 200 (JMeta m), s\<lparr>app_world := w\<rparr>))"
    using rest by (simp add: build_router_def respond_def handle_get_meta_def on_world_def op_defs
        split: prod.splits sum.splits)
  obtain sres w where st: "router_stat p (app_world s) = (sres, w)" by fastforce
  show "app_world s' = app_world s \<or> app_world s' = snd (router_stat p (app_world s))"
    using run(1) served st by (cases sres) auto
  assume "res = Inr m"
  from run(2) [OF this] obtain resp where "serve GET (''/v1/meta'' @ as_str p) [] s = (resp, s')"
    "is_success (rs_status resp)" "\<forall>j. rs_body resp = Json j \<longrightarrow> json_meta j = Some m" by blast
  with served st show "router_stat p (app_world s) = (Inr m, app_world s')"
    by (cases sres) (auto simp: error_response_def json_response_def is_success_def
        split: prod.splits elim!: api_error.elims)
qed

lemma get_run:
  assumes "client_get c p s = (res, s')" "normal_path p" "p \<noteq> root_path" "url_safe p"
  shows "app_world s' = app_world s \<or> app_world s' = snd (router_read r p (app_world s))"
proof -
  obtain rest where rest: "parse_path rest = Inr p" "find_route (''/v1/files'' @ as_str p) = Some (FilesRoute rest)"
    using assms(2,3) by (rule find_route_path)
  have api: "slash # (''v1/files'' @ as_str p) = ''/v1/files'' @ as_str p" by simp
  have plain: "url_plain (''v1/files'' @ as_str p)" using url_plain_api [OF assms(2-4)] by simp
  obtain res1 s1 where sent: "send_as c ''HTTP get'' GET (''/v1/files'' @ as_str p) [] s = (res1, s1)" by fastforce
  have "s' = s1"
    using assms(1) sent bytes_same
    by (auto simp: client_get_def andThen_def map_errR_def errR_def
        split: sum.splits prod.splits if_splits)
  with send_as_state [OF sent [folded api] plain, unfolded api]
  have "s' = s \<or> s' = snd (serve GET (''/v1/files'' @ as_str p) [] s)" by simp
  then show ?thesis
    using rest by (auto simp: build_router_def respond_def handle_get_file_def on_world_def op_defs
        split: prod.splits sum.splits)
qed

end

section \<open>The client against the tiers\<close>

locale client_stack = tier_stack r content tinv + http_link c sha r body_limit up_secs
  for r :: "'b tier_router" and content tinv and c :: "'b app_state vfsd_client"
    and sha :: "bytes \<Rightarrow> string" and body_limit up_secs
begin

lemma stat_current:
  assumes "client_stat c p s = (res, s')" "normal_path p" "p \<noteq> root_path" "url_safe p"
    and "keeps sha q d (app_world s)"
  shows "keeps sha q d (app_world s')" "\<lbrakk>res = Inr m; q = p\<rbrakk> \<Longrightarrow> fm_sha256 m = sha d"
proof -
  note run = stat_run [OF assms(1-4)]
  obtain sres w where st: "router_stat p (app_world s) = (sres, w)" by fastforce
  have "keeps sha q d w"
    using preservesD [OF require_metadata_keeps assms(5)] st by (simp add: router_stat_def)
  with run(1) st assms(5) show "keeps sha q d (app_world s')" by auto
  show "\<lbrakk>res = Inr m; q = p\<rbrakk> \<Longrightarrow> fm_sha256 m = sha d"
    using run(2) assms(5) require_metadata_run(2) [of p "app_world s" "Inr m" "app_world s'" m]
    by (auto simp: router_stat_def holds_def)
qed

lemma get_keeps:
  assumes "client_get c p s = (res, s')" "normal_path p" "p \<noteq> root_path" "url_safe p"
  shows "keeps sha q d (app_world s) \<Longrightarrow> keeps sha q d (app_world s')" "ok (app_world s) \<Longrightarrow> ok (app_world s')"
proof -
  obtain rres w where rd: "router_read r p (app_world s) = (rres, w)" by fastforce
  show "keeps sha q d (app_world s) \<Longrightarrow> keeps sha q d (app_world s')"
    using get_run [OF assms] rd preservesD [OF read_keeps _ rd] by auto
  show "ok (app_world s) \<Longrightarrow> ok (app_world s')"
    using get_run [OF assms] rd preservesD [OF read_preserves_ok _ rd] by auto
qed

abbreviation client_ok :: "local_cache \<Rightarrow> fvfs_path \<Rightarrow> bytes \<Rightarrow> 'b app_state vfsc_fuse \<Rightarrow> bool" where
  "client_ok lc p d s \<equiv> keeps sha p d (app_world (vc_link s)) \<and> cache_ok sha lc (vc_disk s)"

text \<open>A hit of the cache has the digest of the current version.\<close>

lemma cached_bytes_current:
  assumes run: "cached_bytes c lc p s = (got, s1)" and p: "normal_path p" "p \<noteq> root_path" "url_safe p"
    and s: "client_ok lc p d s" and h: "hash_name (sha d)"
  shows "client_ok lc p d s1" "got = Some y \<Longrightarrow> sha y = sha d" "vc_inodes s1 = vc_inodes s"
proof -
  obtain res l where st: "client_stat c p (vc_link s) = (res, l)" by fastforce
  note cur = stat_current [OF st p, of p d]
  have keeps: "keeps sha p d (app_world l)" using cur(1) s by simp
  have "client_ok lc p d s1 \<and> (\<forall>y. got = Some y \<longrightarrow> sha y = sha d) \<and> vc_inodes s1 = vc_inodes s"
  proof (cases "\<exists>m. res = Inr m \<and> fm_sha256 m \<noteq> []")
    case True
    then obtain m where m: "res = Inr m" "fm_sha256 m \<noteq> []" by blast
    obtain g dk where get: "cache_get_by_hash lc (fm_sha256 m) (vc_disk s) = (g, dk)" by fastforce
    have "fm_sha256 m = sha d" using cur(2) s m(1) by simp
    moreover have "got = g" "s1 = s\<lparr>vc_link := l, vc_disk := dk\<rparr>"
      using run st m get by (auto simp: cached_bytes_def)
    ultimately show ?thesis
      using cache_get_by_hash_run [OF get, of sha] keeps s h by auto
  next
    case False
    then have "got = None" "s1 = s\<lparr>vc_link := l\<rparr>"
      using run st by (auto simp: cached_bytes_def split: sum.splits if_splits)
    with keeps s show ?thesis by auto
  qed
  then show "client_ok lc p d s1" "got = Some y \<Longrightarrow> sha y = sha d" "vc_inodes s1 = vc_inodes s" by auto
qed

lemma cfuse_read_current:
  assumes run: "cfuse_read c lc ino offset len s = (ReplyData x, s')"
    and p: "table_path (vc_inodes s) ino = Some p" "normal_path p" "p \<noteq> root_path" "url_safe p"
    and s: "client_ok lc p d s" and h: "hash_name (sha d)"
  shows "client_ok lc p d s'" "\<exists>y. sha y = sha d \<and> x = read_slice offset len y"
proof -
  obtain got s1 where cb: "cached_bytes c lc p s = (got, s1)" by fastforce
  note cur = cached_bytes_current [OF cb p(2-4) s h]
  obtain res l where get: "client_get c p (vc_link s1) = (res, l)" by fastforce
  have keep: "keeps sha p d (app_world l)" using get_keeps(1) [OF get p(2-4), of p d] cur(1) by simp
  have "client_ok lc p d s' \<and> (\<exists>y. sha y = sha d \<and> x = read_slice offset len y)"
  proof (cases got)
    case (Some y)
    with run p(1) cb cur show ?thesis by (auto simp: cfuse_read_def)
  next
    case None
    with run p(1) cb get obtain y where y: "res = Inr y" "x = read_slice offset len y"
      and s': "s' = s1\<lparr>vc_link := l, vc_spawned := vc_spawned s1 @ [y]\<rparr>"
      by (auto simp: cfuse_read_def read_error_def split: sum.splits fvfs_error.splits)
    obtain w where "router_read r p (app_world (vc_link s1)) = (Inr y, w)"
      using client_get_run [OF get [unfolded y(1)] p(2-4)] by blast
    with read_current cur(1) have "y = d" by blast
    with y(2) s' keep cur(1) show ?thesis by auto
  qed
  then show "client_ok lc p d s'" "\<exists>y. sha y = sha d \<and> x = read_slice offset len y" by auto
qed

lemma cfuse_write_version:
  assumes run: "cfuse_write c ino offset data s = (ReplyWritten n, s')"
    and p: "table_path (vc_inodes s) ino = Some p" "normal_path p" "p \<noteq> root_path" "url_safe p"
    and w: "ok (app_world (vc_link s))" "cache_ok sha lc (vc_disk s)"
  shows "\<exists>old buf. write_splice offset data old = Some buf \<and> client_ok lc p buf s' \<and>
    vc_inodes s' = vc_inodes s \<and> (old = [] \<or> (\<exists>l. client_get c p (vc_link s) = (Inr old, l)))"
proof -
  obtain res l where rd: "client_get c p (vc_link s) = (res, l)" by fastforce
  let ?old = "unwrap_or_default res"
  obtain buf l2 where buf: "write_splice offset data ?old = Some buf"
    and wr: "client_put c p buf l = (Inr (), l2)" and s': "s' = s\<lparr>vc_link := l2\<rparr>"
    using run p(1) rd by (auto simp: cfuse_write_def split: option.splits prod.splits sum.splits)
  have l: "ok (app_world l)" using get_keeps(2) [OF rd p(2-4)] w(1) by simp
  obtain w' where put: "router_write sha r p buf (app_world l) = (Inr (), w')" "app_world l2 = w'"
    using client_put_run [OF wr p(2-4)] by auto
  have "keeps sha p buf (app_world (vc_link s'))"
    using preservesD [OF write_preserves_ok [OF p(2)] l put(1)] write_new_version(1) [OF put(1) l p(2)] put(2) s'
    by simp
  with buf rd s' w(2) show ?thesis
    by (intro exI [of _ ?old] exI [of _ buf]) (auto simp: unwrap_or_default_def split: sum.splits)
qed

end

lemma cfuse_spawned_ok:
  assumes "cache_ok sha lc (vc_disk s)" "\<forall>data\<in>set (vc_spawned s). hash_name (sha data)"
  shows "cache_ok sha lc (vc_disk (cfuse_spawned sha lc i s))" "vc_link (cfuse_spawned sha lc i s) = vc_link s"
  using assms cache_put_ok [of sha lc "vc_disk s" "vc_spawned s ! i"] by (auto simp: cfuse_spawned_def)

text \<open>The client's table keeps its promise: an inode number names one path for as long as it lives.\<close>

lemma readdir_reply_inodes:
  assumes "readdir_reply get_or_alloc full ino offset entries t = (ds, t')" "table_ok t"
    and "length entries \<le> inodes_left t"
  shows "table_ok t'" "table_path t j = Some q \<Longrightarrow> table_path t' j = Some q"
proof -
  have emit: "table_ok t' \<and> (table_path t j = Some q \<longrightarrow> table_path t' j = Some q)"
    if "emit_entries get_or_alloc full offset idx es acc t = (ds, t')" "table_ok t" "length es \<le> inodes_left t"
    for idx es acc t
    using that
  proof (induction es arbitrary: idx acc t)
    case (Cons e es)
    obtain i t1 where a: "get_or_alloc (fe_path e) t = (i, t1)" by fastforce
    have left: "0 < inodes_left t" using Cons.prems(3) by simp
    note t1 = client_inodes.alloc_inv [OF Cons.prems(2) left a] client_inodes.alloc_keeps [OF Cons.prems(2) left a]
    have "length es \<le> inodes_left t1" "length es \<le> inodes_left t" using t1(1) Cons.prems(3) by auto
    with Cons.IH [of _ _ t1] Cons.IH [of _ _ t] Cons.prems a t1 show ?case
      by (auto simp: Let_def split: if_splits)
  qed simp
  show "table_ok t'" "table_path t j = Some q \<Longrightarrow> table_path t' j = Some q"
    using assms emit by (auto simp only: readdir_reply_def Let_def split: if_splits)
qed

interpretation bench_client: client_stack "bench_router tmp" "\<lambda>t. disk_content (bench_lb tmp t)" "\<lambda>_. reliable_disk"
    "loopback sha (bench_router tmp) body_limit up_secs" sha body_limit up_secs
  for tmp :: "string list" and sha :: "bytes \<Rightarrow> string" and body_limit :: nat and up_secs :: u64
  by (intro client_stack.intro bench.tier_stack_axioms loop.http_link_axioms)

lemma serve_client_stack:
  assumes "s3_service (s3_client b) objs" "http_link c sha (serve_router lp np b) body_limit up_secs"
  shows "client_stack (serve_router lp np b) (serve_content lp np b objs) serve_inv c sha body_limit up_secs"
  by (intro client_stack.intro serve_stack assms)

end
