(* ===== verification/Client_Cli.thy ===== *)
theory Client_Cli
  imports Client_Fuse Config Rust_Fmt
begin

text \<open>
  The command line of the client (\<open>fvfsc/src/main.rs\<close>): what each subcommand sends to the daemon
  and what it prints. Command-line parsing, mDNS discovery, the configuration file and the
  construction of the HTTP client are parameters; standard input is the bytes that \<open>read_to_end\<close>
  delivered before it ended or failed.
\<close>

text \<open>Standard output and standard error of a command.\<close>

type_synonym 's command_run = "'s \<Rightarrow> printed list \<times> 's"

section \<open>The commands\<close>

definition error_line :: "fvfs_error \<Rightarrow> printed" where
  "error_line e = Err (''Error: '' @ display_error e)"

text \<open>\<open>match FvfsPath::new(path) { \<dots> Err(e) => { eprintln!(..); return; } }\<close>.\<close>

definition with_path :: "string \<Rightarrow> (fvfs_path \<Rightarrow> 's command_run) \<Rightarrow> 's command_run" where
  "with_path path f s =
     (case path_new path of
        Inl e \<Rightarrow> ([Err (''Invalid path: '' @ display_error e)], s)
      | Inr vfs_path \<Rightarrow> f vfs_path s)"

text \<open>\<open>match client.m(..).await { Ok(x) => \<dots>, Err(e) => eprintln!(..) }\<close>.\<close>

definition report :: "('s, fvfs_error, 'a) op \<Rightarrow> ('a \<Rightarrow> printed list) \<Rightarrow> 's command_run" where
  "report m f s = (case m s of (Inr x, s') \<Rightarrow> (f x, s') | (Inl e, s') \<Rightarrow> ([error_line e], s'))"

definition ls_line :: "file_entry \<Rightarrow> string" where
  "ls_line entry =
     (case fe_kind entry of Directory \<Rightarrow> ''d'' | File \<Rightarrow> ''-'') @ '' '' @
     pad_left 12 (show_u64 (fe_size_bytes entry)) @ '' '' @ as_str (fe_path entry)"

definition run_ls :: "'s vfsd_client \<Rightarrow> string \<Rightarrow> 's command_run" where
  "run_ls c path = with_path path (\<lambda>p. report (client_list c p) (map (\<lambda>e. Out (ls_line e))))"

definition run_cat :: "'s vfsd_client \<Rightarrow> string \<Rightarrow> 's command_run" where
  "run_cat c path = with_path path (\<lambda>p. report (client_get c p) (\<lambda>data. [Raw data]))"

definition run_put :: "'s vfsd_client \<Rightarrow> bytes \<Rightarrow> string \<Rightarrow> 's command_run" where
  "run_put c stdin path = with_path path (\<lambda>p. report (client_put c p stdin) (\<lambda>_. [Out ''OK'']))"

definition run_rm :: "'s vfsd_client \<Rightarrow> string \<Rightarrow> 's command_run" where
  "run_rm c path = with_path path (\<lambda>p. report (client_delete c p) (\<lambda>_. [Out ''deleted'']))"

text \<open>The dash of the first line, in UTF-8.\<close>

definition em_dash :: string where
  "em_dash = [CHR 0xE2, CHR 0x80, CHR 0x94]"

definition tier_line :: "tier_stats \<Rightarrow> string" where
  "tier_line t =
     ''  '' @ ts_name t @ '' : '' @ show_u64 (ts_files t) @ '' files, '' @ show_u64 (ts_bytes t div push_bit 20 1) @ '' MB''"

definition status_lines :: "daemon_status \<Rightarrow> string list" where
  "status_lines st =
     (''fvfsd v'' @ ds_version st @ '' '' @ em_dash @ '' uptime '' @ show_u64 (ds_uptime_secs st) @ ''s'') #
     map tier_line (ds_tiers st) @ [''  WAL pending: '' @ show_u64 (ds_wal_pending st)]"

definition run_status :: "'s vfsd_client \<Rightarrow> 's command_run" where
  "run_status c = report (client_status c) (\<lambda>st. map Out (status_lines st))"

fun debug_wal_op :: "wal_op \<Rightarrow> string" where
  "debug_wal_op ReplicateNas = ''ReplicateNas''"
| "debug_wal_op UploadS3 = ''UploadS3''"

definition wal_line :: "wal_entry \<Rightarrow> string" where
  "wal_line e =
     ''  id='' @ show_i64 (we_id e) @ '' file_id='' @ show_i64 (we_file_id e) @ '' op='' @ debug_wal_op (we_op e) @
     '' attempts='' @ show_u32 (we_attempts e) @ '' err='' @ debug_option (we_last_error e)"

definition wal_lines :: "wal_entry list \<Rightarrow> string list" where
  "wal_lines entries =
     (if entries = [] then [''No pending WAL entries.'']
      else (show_nat (length entries) @ '' pending WAL entries:'') # map wal_line entries)"

definition run_wal :: "'s vfsd_client \<Rightarrow> 's command_run" where
  "run_wal c = report (client_wal c) (\<lambda>entries. map Out (wal_lines entries))"

section \<open>Start-up\<close>

datatype command =
    Mount "string option"
  | Ls string
  | Cat string
  | Put string
  | Rm string
  | Status
  | WalEntries

record cli =
  cli_config :: string
  cli_url :: "string option"
  cli_command :: command

definition resolve_url :: "cli \<Rightarrow> string option \<Rightarrow> config \<Rightarrow> string" where
  "resolve_url cl discovered cfg =
     (case cli_url cl of
        Some url \<Rightarrow> url
      | None \<Rightarrow>
          (case discovered of
             Some url \<Rightarrow> url
           | None \<Rightarrow> ''http://localhost:'' @ show_u16 (dc_http_port (cf_daemon cfg))))"

definition client_cache :: "config \<Rightarrow> local_cache" where
  "client_cache cfg =
     cache_new (filter (\<lambda>w. w \<noteq> []) (split_on slash (cc_local_cache_path (cf_client cfg))))
       (cc_local_cache_gb (cf_client cfg) * 1024 * 1024 * 1024)"

text \<open>
  \<open>run_mount\<close>: with the \<open>fuse\<close> feature the handler's state is made and handed to the kernel at the
  mount point; without it the command says so and exits with 1.
\<close>

datatype mount_option = RO | RW | FSName string | AutoUnmount

datatype 's outcome =
    Exit nat "printed list"
  | Ran "printed list" 's disk
  | Mounted string "mount_option list" "'s vfsc_fuse"

definition run_mount :: "bool \<Rightarrow> config \<Rightarrow> string option \<Rightarrow> 's \<Rightarrow> disk \<Rightarrow> 's outcome" where
  "run_mount fuse_feature cfg mountpoint s d =
     (if fuse_feature
      then let mp = (case mountpoint of Some m \<Rightarrow> m | None \<Rightarrow> cc_mount_path (cf_client cfg));
               d' = snd (fs_create_dir_all (filter (\<lambda>w. w \<noteq> []) (split_on slash mp)) d)
           in Mounted mp [RO, FSName ''fvfsc'', AutoUnmount] (cfuse_new s d')
      else Exit 1 [Err ''FUSE support not compiled in. Rebuild with `--features fuse`.''])"

text \<open>The dispatch of a command other than \<open>Mount\<close>.\<close>

fun run_command :: "'s vfsd_client \<Rightarrow> bytes \<Rightarrow> command \<Rightarrow> 's command_run" where
  "run_command c stdin (Ls path) = run_ls c path"
| "run_command c stdin (Cat path) = run_cat c path"
| "run_command c stdin (Put path) = run_put c stdin path"
| "run_command c stdin (Rm path) = run_rm c path"
| "run_command c stdin Status = run_status c"
| "run_command c stdin WalEntries = run_wal c"
| "run_command c stdin (Mount m) = Pair []"

definition fvfsc_main ::
    "bool \<Rightarrow> (string \<Rightarrow> config fvfs_result) \<Rightarrow> string option \<Rightarrow>
     (string \<Rightarrow> string + string \<times> (string \<Rightarrow> string option)) \<Rightarrow> (nat \<Rightarrow> string + 's vfsd_client) \<Rightarrow> bytes \<Rightarrow> cli \<Rightarrow> 's \<Rightarrow> disk \<Rightarrow> 's outcome" where
  "fvfsc_main fuse_feature load discovered parse build stdin cl s d =
     (case load (cli_config cl) of
        Inl e \<Rightarrow> Exit 1 []
      | Inr cfg \<Rightarrow>
          (case client_new parse build (resolve_url cl discovered cfg) of
             Inl e \<Rightarrow> Exit 1 []
           | Inr c \<Rightarrow>
               let d1 = snd (cache_init (client_cache cfg) d)
               in case cli_command cl of
                    Mount mountpoint \<Rightarrow> run_mount fuse_feature cfg mountpoint s d1
                  | cmd \<Rightarrow> (case run_command c stdin cmd s of (outs, s') \<Rightarrow> Ran outs s' d1)))"

section \<open>What the commands do\<close>

text \<open>A path that \<open>FvfsPath::new\<close> refuses is reported and nothing is sent.\<close>

lemma with_path_invalid:
  "path_new path = Inl e \<Longrightarrow> with_path path f s = ([Err (''Invalid path: '' @ display_error e)], s)"
  by (simp add: with_path_def)

lemma with_path_valid: "path_new path = Inr p \<Longrightarrow> with_path path f = f p"
  by (simp add: with_path_def fun_eq_iff)

lemma report_ok: "report m f s = (outs, s') \<Longrightarrow>
    (\<exists>x. m s = (Inr x, s') \<and> outs = f x) \<or> (\<exists>e. m s = (Inl e, s') \<and> outs = [error_line e])"
  by (auto simp: report_def split: prod.splits sum.splits)

lemma run_put_ok:
  assumes "run_put c stdin path s = ([Out ''OK''], s')" "path_new path = Inr p"
  shows "client_put c p stdin s = (Inr (), s')"
  using report_ok [of "client_put c p stdin" "\<lambda>_. [Out ''OK'']" s] assms
  by (auto simp: run_put_def with_path_valid error_line_def)

lemma run_cat_ok:
  assumes "run_cat c path s = ([Raw x], s')" "path_new path = Inr p"
  shows "client_get c p s = (Inr x, s')"
  using report_ok [of "client_get c p" "\<lambda>data. [Raw data]" s] assms
  by (auto simp: run_cat_def with_path_valid error_line_def)

text \<open>The columns of \<open>ls\<close>: kind, size right-aligned in 12, then the path, for sizes below a terabyte.\<close>

lemma ls_line_columns:
  assumes "unat (fe_size_bytes e) < 10 ^ 12"
  shows "take 2 (ls_line e) = (if fe_kind e = Directory then ''d '' else ''- '') \<and>
    take 12 (drop 2 (ls_line e)) = pad_left 12 (show_u64 (fe_size_bytes e)) \<and>
    drop 15 (ls_line e) = as_str (fe_path e)"
proof -
  have "length (show_u64 (fe_size_bytes e)) \<le> 12"
    using length_show_nat [of "unat (fe_size_bytes e)" 11] assms by (simp add: show_u64_def)
  then have "length (pad_left 12 (show_u64 (fe_size_bytes e))) = 12" by (simp add: length_pad_left)
  then show ?thesis by (cases "fe_kind e") (simp_all add: ls_line_def)
qed

end
