(* ===== verification/Mdns.thy ===== *)
theory Mdns
  imports Client_Cli
begin

text \<open>
  Service discovery: the registration of the daemon (\<open>fvfsd/src/mdns_server.rs\<close>) and the browsing
  of the client (\<open>fvfsc/src/mdns_client.rs\<close>). The mDNS library is a parameter: what its calls
  return, and the events that the browser receives within the ten seconds that the client waits. The
  lemmas say which event decides, and what a client can find of a daemon that is registered as
  the code registers it.
\<close>

section \<open>Registration\<close>

definition service_type :: string where
  "service_type = ''_fvfs._tcp.local.''"

record service_info =
  si_type :: string
  si_instance :: string
  si_host :: string
  si_addresses :: "string list"
  si_port :: u16

text \<open>\<open>found\<close> is the name of the host, where it has one in UTF-8.\<close>

definition get_hostname :: "string option \<Rightarrow> string" where
  "get_hostname found = (case found of Some h \<Rightarrow> h | None \<Rightarrow> ''fvfsd'')"

text \<open>
  The service that stays registered while the function sleeps, or \<open>None\<close> where it returned with an
  error. \<open>started\<close>, \<open>info_new\<close> and \<open>registered\<close> are the calls of the library.
\<close>

definition register_mdns ::
    "string option \<Rightarrow> (string + unit) \<Rightarrow> (service_info \<Rightarrow> string + service_info) \<Rightarrow>
     (service_info \<Rightarrow> string + unit) \<Rightarrow> u16 \<Rightarrow> service_info option" where
  "register_mdns found started info_new registered port =
     (let hostname = get_hostname found
      in case started of
           Inl _ \<Rightarrow> None
         | Inr _ \<Rightarrow>
             (case info_new
                 \<lparr> si_type = service_type, si_instance = ''fvfsd-'' @ hostname, si_host = hostname @ ''.local.'',
                   si_addresses = [], si_port = port \<rparr> of
                Inl _ \<Rightarrow> None
              | Inr service \<Rightarrow> (case registered service of Inl _ \<Rightarrow> None | Inr _ \<Rightarrow> Some service)))"

section \<open>Discovery\<close>

text \<open>Addresses in the order in which the set is iterated, as the library prints them.\<close>

datatype mdns_event =
    ServiceResolved "string list" u16
  | ServiceRemoved string
  | OtherEvent

fun discover_loop :: "(string + mdns_event) list \<Rightarrow> string option" where
  "discover_loop [] = None"
| "discover_loop (Inl e # evs) = None"
| "discover_loop (Inr (ServiceResolved (addr # addrs) port) # evs) = Some (''http://'' @ addr @ '':'' @ show_u16 port)"
| "discover_loop (Inr (ServiceResolved [] port) # evs) = discover_loop evs"
| "discover_loop (Inr (ServiceRemoved name) # evs) = discover_loop evs"
| "discover_loop (Inr OtherEvent # evs) = discover_loop evs"

definition discover :: "(string + unit) \<Rightarrow> (string \<Rightarrow> string + (string + mdns_event) list) \<Rightarrow> string option" where
  "discover started browse =
     (case started of
        Inl _ \<Rightarrow> None
      | Inr _ \<Rightarrow> (case browse service_type of Inl _ \<Rightarrow> None | Inr received \<Rightarrow> discover_loop received))"

section \<open>Which event decides\<close>

fun usable :: "string + mdns_event \<Rightarrow> bool" where
  "usable (Inr (ServiceResolved addrs port)) \<longleftrightarrow> addrs \<noteq> []"
| "usable ev \<longleftrightarrow> False"

lemma discover_loop_unusable: "\<forall>ev\<in>set evs. \<not> usable ev \<Longrightarrow> discover_loop evs = None"
  by (induction evs rule: discover_loop.induct) simp_all

text \<open>The first announcement with an address, unless the receiver failed before it.\<close>

lemma discover_loop_first:
  assumes "\<forall>ev\<in>set before. \<not> isl ev \<and> \<not> usable ev"
  shows "discover_loop (before @ Inr (ServiceResolved (a # as) port) # after) = Some (''http://'' @ a @ '':'' @ show_u16 port)"
  using assms by (induction before rule: discover_loop.induct) simp_all

lemma discover_loop_Some:
  "discover_loop evs = Some url \<Longrightarrow>
   \<exists>a as port. Inr (ServiceResolved (a # as) port) \<in> set evs \<and> url = ''http://'' @ a @ '':'' @ show_u16 port"
  by (induction evs rule: discover_loop.induct) auto

section \<open>Finding a registered daemon\<close>

text \<open>An event that resolves \<open>service\<close> with what it announces: its port and some of its addresses.\<close>

fun announces :: "service_info \<Rightarrow> string + mdns_event \<Rightarrow> bool" where
  "announces service (Inr (ServiceResolved addrs port)) \<longleftrightarrow> set addrs \<subseteq> set (si_addresses service) \<and> port = si_port service"
| "announces service ev \<longleftrightarrow> True"

text \<open>
  Whatever is found has the daemon's port. A library that adds no address of its own
  (\<open>info_new\<close> keeps the empty list it is given) leaves nothing to be found: the client falls back
  to the local host.
\<close>

lemma discovered_is_daemon:
  assumes "discover (Inr ()) (\<lambda>_. Inr evs) = Some url" "\<forall>ev\<in>set evs. announces service ev"
  obtains a where "a \<in> set (si_addresses service)" "url = ''http://'' @ a @ '':'' @ show_u16 (si_port service)"
proof -
  have "discover_loop evs = Some url" using assms(1) by (simp add: discover_def)
  then obtain a as port where at: "Inr (ServiceResolved (a # as) port) \<in> set evs"
    and url: "url = ''http://'' @ a @ '':'' @ show_u16 port" using discover_loop_Some by blast
  have "announces service (Inr (ServiceResolved (a # as) port))" using assms(2) at by blast
  then have "a \<in> set (si_addresses service)" "port = si_port service" by simp_all
  with url show thesis using that by blast
qed

lemma daemon_undiscoverable:
  assumes "register_mdns found (Inr ()) Inr registered port = Some service" "\<forall>ev\<in>set evs. announces service ev"
    and "cli_url cl = None"
  shows "resolve_url cl (discover (Inr ()) (\<lambda>_. Inr evs)) cfg = ''http://localhost:'' @ show_u16 (dc_http_port (cf_daemon cfg))"
proof -
  have "si_addresses service = []"
    using assms(1) by (auto simp: register_mdns_def Let_def split: sum.splits)
  then have "discover (Inr ()) (\<lambda>_. Inr evs) = None"
    by (metis discovered_is_daemon [OF _ assms(2)] empty_iff list.set(1) not_None_eq)
  then show ?thesis using assms(3) by (simp add: resolve_url_def)
qed

end
