(* ===== verification/Daemon_Main.thy ===== *)
theory Daemon_Main
  imports Daemon_Process Mdns
begin

text \<open>
  The command line of the daemon (\<open>fvfsd/src/main.rs\<close>): \<open>serve\<close>, \<open>migrate\<close> and \<open>status\<close>.
  The configuration file, opening the database, connecting to S3 and the HTTP library are parameters;
  a panic of an \<open>expect\<close> is an outcome of its own.
\<close>

section \<open>Migration\<close>

definition report_lines :: "migrate_report \<Rightarrow> string list" where
  "report_lines rep =
     [''Migration complete:'',
      ''  Total files  : '' @ show_u64 (mr_total_files rep),
      ''  Total bytes  : '' @ show_u64 (drop_bit 20 (mr_total_bytes rep)) @ '' MB'',
      ''  Duplicates   : '' @ show_u64 (mr_duplicates rep),
      ''  S3 uploaded  : '' @ show_u64 (drop_bit 20 (mr_s3_upload_bytes rep)) @ '' MB'',
      ''  Errors       : '' @ show_u64 (mr_errors rep)]"

definition run_migrate ::
    "(bytes \<Rightarrow> string) \<Rightarrow> config \<Rightarrow> (string + db) \<Rightarrow> (string + 's s3_client) \<Rightarrow> string option \<Rightarrow> string option \<Rightarrow>
     (disk \<times> 's) world \<Rightarrow> (printed list \<times> (disk \<times> 's) world) option" where
  "run_migrate sha cfg opened linked local_src nas_src w =
     (let local_path = (case local_src of Some p \<Rightarrow> p | None \<Rightarrow> tc_path (tc_local (cf_tiers cfg)));
          nas_path = (case nas_src of Some p \<Rightarrow> p | None \<Rightarrow> tc_path (tc_nas (cf_tiers cfg)))
      in case opened of
           Inl _ \<Rightarrow> None
         | Inr d \<Rightarrow>
             (case linked of
                Inl _ \<Rightarrow> None
              | Inr cl \<Rightarrow>
                  (case run_migration sha
                          (dyn_s3 (s3_new cl (sc_bucket (tc_s3 (cf_tiers cfg))) (sc_prefix (tc_s3 (cf_tiers cfg)))))
                          (os_path local_path) (os_path nas_path) (w\<lparr>wdb := d\<rparr>) of
                     (rep, w') \<Rightarrow> Some (map Out (report_lines rep), w'))))"

section \<open>Status\<close>

text \<open>The lines of \<open>fvfsd status\<close>; \<open>bytes >> 20\<close> where the client divides by \<open>1 << 20\<close>.\<close>

definition daemon_tier_line :: "tier_stats \<Rightarrow> string" where
  "daemon_tier_line t =
     ''  '' @ ts_name t @ '' : '' @ show_u64 (ts_files t) @ '' files, '' @ show_u64 (drop_bit 20 (ts_bytes t)) @ '' MB''"

definition daemon_status_lines :: "daemon_status \<Rightarrow> string list" where
  "daemon_status_lines st =
     (''fvfsd v'' @ ds_version st @ '' '' @ em_dash @ '' uptime '' @ show_u64 (ds_uptime_secs st) @ ''s'') #
     map daemon_tier_line (ds_tiers st) @ [''  WAL pending: '' @ show_u64 (ds_wal_pending st)]"

text \<open>\<open>fetch\<close> and \<open>parse\<close> stand for \<open>reqwest::get\<close> and \<open>resp.json\<close>.\<close>

definition daemon_run_status ::
    "(string \<Rightarrow> ('s, string, response) op) \<Rightarrow> (response \<Rightarrow> ('s, string, daemon_status) op) \<Rightarrow> string \<Rightarrow> 's command_run" where
  "daemon_run_status fetch parse url s =
     (let status_url = trim_end_matches slash url @ ''/v1/status''
      in case fetch status_url s of
           (Inl e, s1) \<Rightarrow> ([Err (''Failed to reach fvfsd at '' @ status_url @ '': '' @ e)], s1)
         | (Inr resp, s1) \<Rightarrow>
             (case parse resp s1 of
                (Inl e, s2) \<Rightarrow> ([Err (''Failed to parse status response: '' @ e)], s2)
              | (Inr st, s2) \<Rightarrow> (map Out (daemon_status_lines st), s2)))"

section \<open>The commands\<close>

datatype daemon_command =
    Serve
  | Migrate "string option" "string option"
  | DaemonStatus string

text \<open>
  How the program ends: a panic, an exit code, the output of a command with the state it leaves
  (the stored state of \<open>migrate\<close>, the state of the network of \<open>status\<close>), or a process that serves.
\<close>

datatype ('w, 'n) daemon_outcome =
    Panicked
  | Exited nat
  | Migrated "printed list" "'w world"
  | Reported "printed list" 'n
  | Serving "'w process"

definition fvfsd_main ::
    "(bytes \<Rightarrow> string) \<Rightarrow> (string \<Rightarrow> config fvfs_result) \<Rightarrow> (string \<Rightarrow> string + db) \<Rightarrow> (config \<Rightarrow> string + 's s3_client) \<Rightarrow>
     (string \<Rightarrow> ('n, string, response) op) \<Rightarrow> (response \<Rightarrow> ('n, string, daemon_status) op) \<Rightarrow>
     string \<Rightarrow> daemon_command \<Rightarrow> 'n \<Rightarrow> (disk \<times> 's) world \<Rightarrow> (disk \<times> 's, 'n) daemon_outcome" where
  "fvfsd_main sha load opening linking fetch parse config_path cmd n w =
     (case load config_path of
        Inl _ \<Rightarrow> Exited 1
      | Inr cfg \<Rightarrow>
          (let opened = opening (dc_metadata_db (cf_daemon cfg)); linked = linking cfg
           in case cmd of
                Serve \<Rightarrow> (case run_serve cfg opened linked w of
                            None \<Rightarrow> Panicked
                          | Some (r, w') \<Rightarrow> Serving (process_new w'))
              | Migrate local_src nas_src \<Rightarrow>
                  (case run_migrate sha cfg opened linked local_src nas_src w of
                     None \<Rightarrow> Panicked
                   | Some (outs, w') \<Rightarrow> Migrated outs w')
              | DaemonStatus url \<Rightarrow> (case daemon_run_status fetch parse url n of (outs, n') \<Rightarrow> Reported outs n')))"

section \<open>The two status commands agree\<close>

lemma status_lines_agree: "daemon_status_lines st = status_lines st"
  by (simp add: daemon_status_lines_def status_lines_def daemon_tier_line_def tier_line_def drop_bit_eq_div)

end
