(* ===== verification/Interleavings.thy ===== *)
theory Interleavings
  imports Daemon
begin

text \<open>
  Where a finer grain than whole operations matters: the uploader
  (\<open>fvfsd/src/s3_uploader.rs\<close>), the promotion task (\<open>fvfsd/src/main.rs\<close>), an eviction and a write
  of the router (\<open>fvfsd/src/router.rs\<close>) await between looking at a file and acting on what they saw,
  or between storing the bytes and the row, and nothing keeps a request from writing the same file in
  between. The second halves are definitions of their own here; the lemmas say that first and second
  half make up the operations of the other theories, and what happens when a whole write of the same
  path comes between them.
\<close>

section \<open>The two halves\<close>

text \<open>\<open>router.s3.put(\<dots>)\<close> and \<open>set_tier_bitmask(\<dots>)\<close>, with the metadata and the bytes loaded before.\<close>

definition upload_finish :: "'b tier_router \<Rightarrow> file_metadata \<Rightarrow> bytes \<Rightarrow> ('b world, fvfs_error, unit) op" where
  "upload_finish r file_meta data =
     andThen (on_store S3 (be_put (rt_s3 r) (fm_path file_meta) data)) (\<lambda>_.
     on_db (db_set_tier_bitmask (fm_id file_meta) (bm_set S3 (fm_tier_bitmask file_meta))))"

definition promote_finish :: "'b tier_router \<Rightarrow> fvfs_path \<Rightarrow> bytes \<Rightarrow> 'b world \<Rightarrow> 'b world" where
  "promote_finish r path data w =
     (case on_store Local (be_put (rt_local r) path data) w of
        (Inl e, w') \<Rightarrow> w'
      | (Inr _, w') \<Rightarrow> mark_local r path w')"

text \<open>What follows the lookup of the row in \<open>evict_from_tier\<close>, and what follows the \<open>put\<close> in \<open>write\<close>.\<close>

definition evict_finish :: "'b tier_router \<Rightarrow> fvfs_path \<Rightarrow> tier \<Rightarrow> file_metadata \<Rightarrow> ('b world, fvfs_error, unit) op" where
  "evict_finish r path t meta =
     (if \<not> safe_to_evict_from (fm_tier_bitmask meta) t
      then errR (Other ''cannot evict: file not present on colder tier'')
      else if t = S3 then errR (Other ''S3 tier is never evicted'')
      else
        andThen (on_store t (be_delete (backend_of r t) path)) (\<lambda>_.
        on_db (db_set_tier_bitmask (fm_id meta) (bm_clear t (fm_tier_bitmask meta)))))"

definition write_finish :: "(bytes \<Rightarrow> string) \<Rightarrow> fvfs_path \<Rightarrow> bytes \<Rightarrow> ('b world, fvfs_error, unit) op" where
  "write_finish sha path data =
     andThen now_unix (\<lambda>now.
     andThen (on_db (db_upsert (written_meta sha now path data))) (\<lambda>file_id.
     andThen (ensure_parent_dirs path) (\<lambda>_.
     andThen (enqueue file_id ReplicateNas) (\<lambda>_.
     andThen (enqueue file_id UploadS3) (\<lambda>_.
     okR ())))))"

lemma evict_halves: "evict_from_tier r p t = andThen (require_metadata p) (evict_finish r p t)"
  unfolding evict_from_tier_def evict_finish_def by (rule refl)

lemma write_halves:
  "router_write sha r p data = andThen (on_store Local (be_put (rt_local r) p data)) (\<lambda>_. write_finish sha p data)"
  unfolding router_write_def write_finish_def by (rule refl)

lemma upload_halves: "upload_s3 r m = andThen (router_read r (fm_path m)) (upload_finish r m)"
  unfolding upload_s3_def copy_to_def
  by (rule arg_cong [where f = "andThen _"], rule ext, simp add: upload_finish_def)

lemma promote_halves:
  "promote r p w = (case router_read r p w of (Inl e, w1) \<Rightarrow> w1 | (Inr data, w1) \<Rightarrow> promote_finish r p data w1)"
  unfolding promote_def promote_finish_def by (rule refl)

section \<open>A write in between\<close>

context tier_stack
begin

text \<open>The row and the copies right after a write: the id of an older row is kept.\<close>

lemma write_finish_run:
  assumes run: "write_finish sha p data w = (Inr (), w')" and p: "normal_path p"
  obtains row where "row_of (wdb w') p = Some row" "r_sha256 row = sha data" "r_is_dir row = 0"
    "r_size_bytes row = u64_as_i64 (of_nat (length data))" "row_bm row = bm_set Local bm_NONE"
    "\<And>old. row_of (wdb w) p = Some old \<Longrightarrow> r_id row = r_id old" "\<And>t q. copy w' t q = copy w t q"
proof -
  obtain i w2 w3 j w4 k where
    ups: "on_db (db_upsert (written_meta sha (clock w (ticks w)) p data)) (w\<lparr>ticks := Suc (ticks w)\<rparr>) = (Inr i, w2)" and
    parents: "ensure_parent_dirs p w2 = (Inr (), w3)" and
    e1: "enqueue i ReplicateNas w3 = (Inr j, w4)" and e2: "enqueue i UploadS3 w4 = (Inr k, w')"
    using run by (auto simp: write_finish_def andThen_Inr now_unix_def okR_def)
  let ?m = "written_meta sha (clock w (ticks w)) p data"
  from ups obtain d where d: "db_upsert ?m (wdb w) = (Inr i, d)"
    and w2: "w2 = w\<lparr>ticks := Suc (ticks w), wdb := d\<rparr>" by (auto simp: on_db_run)
  have "row_of (wdb w2) p = Some (upserted_row (wdb w) ?m)" using db_upsert_row_of [OF d, of p] w2 by simp
  then have "row_of (wdb w') p = Some (upserted_row (wdb w) ?m)"
    using ensure_parent_dirs_run [OF parents p] enqueue_run(1) [OF e1] enqueue_run(1) [OF e2]
    by (simp add: adds_rows_def)
  moreover have "copy w' t q = copy w t q" for t q
    using ensure_parent_dirs_run [OF parents p] enqueue_run(2) [OF e1] enqueue_run(2) [OF e2] w2
    by (simp add: adds_rows_def)
  ultimately show thesis
    using that [of "upserted_row (wdb w) ?m"] by (simp add: upserted_row_id kind_flag_def is_dir_def)
qed

lemma write_row:
  assumes run: "router_write sha r p data w = (Inr (), w')" and w: "ok w" and p: "normal_path p"
  obtains row where "row_of (wdb w') p = Some row" "r_sha256 row = sha data" "r_is_dir row = 0"
    "row_bm row = bm_set Local bm_NONE" "\<And>old. row_of (wdb w) p = Some old \<Longrightarrow> r_id row = r_id old"
    "copy w' Local p = Some data" "\<And>t q. t \<noteq> Local \<Longrightarrow> copy w' t q = copy w t q"
proof -
  obtain w1 where put: "on_store Local (be_put (backend_of r Local) p data) w = (Inr (), w1)"
    and fin: "write_finish sha p data w1 = (Inr (), w')"
    using run by (auto simp: write_halves andThen_Inr)
  show thesis
    by (rule write_finish_run [OF fin p]) (use that put_run [OF put w p] in auto)
qed

lemma write_finish_ok: "normal_path p \<Longrightarrow> preserves ok (write_finish sha p data)"
  unfolding write_finish_def by (auto intro!: preserves_intros ensure_parent_dirs_ok enqueue_ok)

lemma evict_finish_ok: "normal_path p \<Longrightarrow> preserves ok (evict_finish r p t m)"
  unfolding evict_finish_def by (auto intro!: preserves_intros store_ok)

lemma stale_upload:
  assumes w: "ok w" "row_of (wdb w) p = Some row" "m = row_to_metadata row"
    and first: "router_read r p w = (Inr old, w1)"
    and between: "router_write sha r p new w1 = (Inr (), w2)"
    and second: "upload_finish r m old w2 = (Inr (), w3)"
  shows "\<exists>row'. row_of (wdb w3) p = Some row' \<and> r_sha256 row' = sha new \<and> bm_has (row_bm row') S3 \<and>
    copy w3 S3 p = Some old"
proof -
  have wf: "db_wf (wdb w)" using w(1) by (simp add: world_ok_def)
  have p: "normal_path p" and m: "fm_path m = p" "fm_id m = r_id row"
    using row_of_normal [OF wf w(2)] fm_path_row_of [OF wf w(2)] w(3) by simp_all
  note look = read_run(1) [OF first w(1)]
  obtain row1 where row1: "row_of (wdb w1) p = Some row1" "r_id row1 = r_id row"
    using same_world_row [OF look [THEN conjunct2] w(2)] unfolding same_file_def by metis
  obtain row2 where row2: "row_of (wdb w2) p = Some row2" "r_sha256 row2 = sha new" "r_id row2 = r_id row"
    using write_row [OF between _ p] look row1 by metis
  have ok2: "ok w2" using preservesD [OF write_preserves_ok [OF p] _ between] look by blast
  obtain w' where put: "on_store S3 (be_put (backend_of r S3) p old) w2 = (Inr (), w')"
    and upd: "on_db (db_set_tier_bitmask (r_id row2) (bm_set S3 (fm_tier_bitmask m))) w' = (Inr (), w3)"
    using second by (auto simp: upload_finish_def andThen_Inr m row2(3))
  obtain db where db: "db_set_tier_bitmask (r_id row2) (bm_set S3 (fm_tier_bitmask m)) (wdb w2) = (Inr (), db)"
    and w3: "w3 = w'\<lparr>wdb := db\<rparr>" using upd put_run(2) [OF put ok2 p] by (auto simp: on_db_run)
  have "row_of db p = Some (row2\<lparr>r_tier_bitmask := u8_as_i64 (as_u8 (bm_set S3 (fm_tier_bitmask m)))\<rparr>)"
    using db_set_tier_bitmask_row_of [OF db _ row2(1) refl, of p] ok2 by (simp add: world_ok_def)
  moreover have "copy w' S3 p = Some old" using put_run(5) [OF put ok2 p] by blast
  ultimately show ?thesis using row2(2) by (simp add: w3)
qed

lemma stale_promotion:
  assumes w: "ok w" and p: "normal_path p"
    and first: "router_read r p w = (Inr old, w1)"
    and between: "router_write sha r p new w1 = (Inr (), w2)"
    and put: "fst (on_store Local (be_put (rt_local r) p old) w2) = Inr ()"
    and read: "router_read r p (promote_finish r p old w2) = (Inr x, w3)"
  shows "x = old"
proof -
  have ok1: "ok w1" using read_run(1) [OF first w] by blast
  then have ok2: "ok w2" using preservesD [OF write_preserves_ok [OF p] _ between] by blast
  obtain row2 where row2: "row_of (wdb w2) p = Some row2" "row_bm row2 = bm_set Local bm_NONE"
    using write_row [OF between ok1 p] by metis
  obtain w' where put': "on_store Local (be_put (backend_of r Local) p old) w2 = (Inr (), w')"
    using run_result [OF put] by auto
  note facts = put_run [OF put' ok2 p]
  have here: "copy w' Local p = Some old" "row_of (wdb w') p = Some row2" using facts(2,5) row2(1) by auto
  let ?e = "promote_finish r p old w2"
  have e: "?e = mark_local r p w'" using put' by (simp add: promote_finish_def)
  obtain r1 db where get: "db_get p (wdb w') = (r1, db)" by fastforce
  have same: "row_of db = row_of (wdb w')" using db_get_run(1) [OF get] by (rule same_tables_row_of)
  have wf: "db_wf db" using same_tables_wf [OF db_get_run(1) [OF get]] facts(1) by (simp add: world_ok_def)
  have mark: "\<exists>row. row_of (wdb ?e) p = Some row \<and> row_bm row = bm_set Local bm_NONE" "stores ?e = stores w'"
  proof -
    obtain r2 db2 where upd: "db_set_tier_bitmask (r_id row2) (bm_set Local (row_bm row2)) db = (r2, db2)" by fastforce
    have "row_of db2 p = (if r2 = Inr () then Some (row2\<lparr>r_tier_bitmask := u8_as_i64 (as_u8 (bm_set Local (row_bm row2)))\<rparr>)
        else row_of db p)"
      using db_set_tier_bitmask_row_of [OF upd wf, of p row2 p] same here(2) by simp
    moreover have "bm_set Local (bm_set Local bm_NONE) = bm_set Local bm_NONE" by code_simp
    ultimately have marked: "\<exists>row. row_of db2 p = Some row \<and> row_bm row = bm_set Local bm_NONE"
      using same here(2) row2(2) by auto
    have "?e = w'\<lparr>wdb := db\<rparr> \<or> ?e = w'\<lparr>wdb := db2\<rparr>"
    proof (cases r1)
      case (Inl x)
      with get show ?thesis unfolding e by (simp add: mark_local_def on_db_def zoom_def)
    next
      case (Inr m)
      with db_get_run(2) [OF get] here(2) have "m = Some (row_to_metadata row2)" by simp
      with get upd Inr show ?thesis unfolding e
        by (simp add: mark_local_def on_db_def zoom_def ignoring_def)
    qed
    with marked show "\<exists>row. row_of (wdb ?e) p = Some row \<and> row_bm row = bm_set Local bm_NONE" "stores ?e = stores w'"
      using same here(2) row2(2) by auto
  qed
  have "ok ?e" unfolding e using facts(1) by (rule mark_local_ok)
  from read_run(2) [OF read this refl] mark here show ?thesis by (auto simp: bm_has_set)
qed

text \<open>
  An eviction from the local tier that a write overtakes removes the only copy of the new version: the
  row is marked with the tiers of the old one.
\<close>

lemma stale_eviction:
  assumes w: "ok w" "holds content sha w p old"
    and first: "require_metadata p w = (Inr meta, w1)"
    and between: "router_write sha r p new w1 = (Inr (), w2)"
    and second: "evict_finish r p Local meta w2 = (Inr (), w3)"
    and read: "router_read r p w3 = (Inr x, w4)"
  shows "x = old" "\<exists>row. row_of (wdb w3) p = Some row \<and> r_sha256 row = sha new" "copy w3 Local p = None"
proof -
  obtain row where row: "row_of (wdb w) p = Some row" "copies_ok (\<lambda>t. copy w t p) (row_bm row) old"
    using w(2) by (auto simp: holds_def)
  have p: "normal_path p" using row_of_normal [OF _ row(1)] w(1) by (simp add: world_ok_def)
  have meta: "meta = row_to_metadata row" using require_metadata_run(2) [OF first refl] row(1) by simp
  have ok1: "ok w1" and same: "same_world content w w1"
    using require_metadata_ok [OF first w(1)] require_metadata_same [OF first] by auto
  obtain row1 where row1: "row_of (wdb w1) p = Some row1" "r_id row1 = r_id row"
    using same_world_row [OF same row(1)] unfolding same_file_def by metis
  obtain row2 where row2: "row_of (wdb w2) p = Some row2" "r_sha256 row2 = sha new" "r_is_dir row2 = 0"
      "r_id row2 = r_id row"
    and cold1: "\<And>t q. t \<noteq> Local \<Longrightarrow> copy w2 t q = copy w1 t q"
    by (rule write_row [OF between ok1 p]) (use row1 in auto)
  have cold: "t \<noteq> Local \<Longrightarrow> copy w2 t q = copy w t q" for t q
    using cold1 same by (simp add: same_world_def)
  have ok2: "ok w2" using preservesD [OF write_preserves_ok [OF p] ok1 between] .
  let ?bm = "bm_clear Local (row_bm row)"
  obtain w' where del: "on_store Local (be_delete (backend_of r Local) p) w2 = (Inr (), w')"
    and upd: "on_db (db_set_tier_bitmask (r_id row2) ?bm) w' = (Inr (), w3)"
    using second by (auto simp: evict_finish_def andThen_Inr errR_def meta row2(4) split: if_splits)
  note facts = delete_run [OF del ok2 p]
  obtain db where db: "db_set_tier_bitmask (r_id row2) ?bm (wdb w2) = (Inr (), db)" and w3: "w3 = w'\<lparr>wdb := db\<rparr>"
    using upd facts(2) by (auto simp: on_db_run)
  have row3: "row_of (wdb w3) p = Some (row2\<lparr>r_tier_bitmask := u8_as_i64 (as_u8 ?bm)\<rparr>)"
    using db_set_tier_bitmask_row_of [OF db _ row2(1) refl, of p] ok2 by (simp add: world_ok_def w3)
  then show "\<exists>row. row_of (wdb w3) p = Some row \<and> r_sha256 row = sha new" using row2(2) by simp
  show gone: "copy w3 Local p = None" using facts(5) by (simp add: w3)
  have "ok w3" using preservesD [OF evict_finish_ok [OF p] ok2 second] .
  from read_run(2) [OF read this refl] obtain t where t: "bm_has ?bm t" "copy w3 t p = Some x"
    using row3 by auto
  then have "t \<noteq> Local" using gone by auto
  then have "copy w t p = Some x" using t(2) facts(4) [of t p] cold by (simp add: w3)
  with row(2) t(1) \<open>t \<noteq> Local\<close> show "x = old" by (auto simp: copies_ok_def)
qed

text \<open>A whole write between the two halves of another: the bytes of the one, the row of the other.\<close>

lemma mixed_write:
  assumes w: "ok w" "normal_path p"
    and first: "on_store Local (be_put (rt_local r) p mine) w = (Inr (), w1)"
    and between: "router_write sha r p theirs w1 = (Inr (), w2)"
    and second: "write_finish sha p mine w2 = (Inr (), w3)"
  shows "\<exists>row. row_of (wdb w3) p = Some row \<and> r_sha256 row = sha mine \<and>
      r_size_bytes row = u64_as_i64 (of_nat (length mine))"
    and "router_read r p w3 = (Inr x, w4) \<Longrightarrow> x = theirs"
proof -
  have ok1: "ok w1" using put_run(1) [of Local p mine w "Inr ()" w1] first w by simp
  have ok2: "ok w2" using preservesD [OF write_preserves_ok [OF w(2)] ok1 between] .
  obtain row where row: "row_of (wdb w3) p = Some row" "r_sha256 row = sha mine"
      "r_size_bytes row = u64_as_i64 (of_nat (length mine))" "row_bm row = bm_set Local bm_NONE"
    and same: "\<And>t q. copy w3 t q = copy w2 t q"
    using write_finish_run [OF second w(2)] by metis
  then show "\<exists>row. row_of (wdb w3) p = Some row \<and> r_sha256 row = sha mine \<and>
      r_size_bytes row = u64_as_i64 (of_nat (length mine))" by blast
  have "copy w3 Local p = Some theirs" using write_row [OF between ok1 w(2)] same by metis
  moreover have "ok w3" using preservesD [OF write_finish_ok [OF w(2)] ok2 second] .
  ultimately show "router_read r p w3 = (Inr x, w4) \<Longrightarrow> x = theirs"
    using read_run(2) [of p w3 "Inr x" w4 x] row by (auto simp: bm_has_set)
qed

end

end
