(* ===== verification/Bench_Setup.thy ===== *)
theory Bench_Setup
  imports Interleavings
begin

text \<open>
  The fixtures of the benchmarks (\<open>fvfs-bench/src/setup.rs\<close>): a world over three directories of a
  temporary one, with a store in memory, and the two functions that bring a file into a wanted
  tier configuration. An \<open>expect\<close> or \<open>unwrap\<close> that fails is a panic: \<open>None\<close>. The promotion signals
  are drained, so a read sends them to nobody. The lemmas say which of the configurations are ones
  that the router itself could have left: \<open>seed_nas_only\<close> is, \<open>seed_file\<close> with extra tiers is not.
\<close>

section \<open>Fixtures\<close>

definition make_world :: "(nat \<Rightarrow> sql_error option) \<Rightarrow> (tier \<Rightarrow> disk) \<Rightarrow> (nat \<Rightarrow> i64) \<Rightarrow> disk world" where
  "make_world faults disks clk =
     \<lparr> wdb = db_open faults, stores = disks, promote_q = [], clock = clk, ticks = 0 \<rparr>"

text \<open>The three directories are created before anything else.\<close>

fun make_setup :: "string list \<Rightarrow> tier list \<Rightarrow> disk world \<Rightarrow> disk world option" where
  "make_setup tmp [] w = Some w"
| "make_setup tmp (t # ts) w =
     (case on_store t (fs_create_dir_all (tmp @ [tier_label t])) w of
        (Inl _, _) \<Rightarrow> None
      | (Inr _, w') \<Rightarrow> make_setup tmp ts w')"

definition payload_4k :: "byte \<Rightarrow> bytes" where
  "payload_4k fill = replicate (4 * 1024) fill"

definition payload_64m :: "byte \<Rightarrow> bytes" where
  "payload_64m fill = replicate (64 * 1024 * 1024) fill"

definition drain_promotions :: "'b world \<Rightarrow> 'b world" where
  "drain_promotions w = w\<lparr>promote_q := []\<rparr>"

text \<open>\<open>.expect(..)\<close> on a \<open>Result\<close>.\<close>

definition expecting :: "('s, 'e, 'a) op \<Rightarrow> 's \<Rightarrow> ('a \<times> 's) option" where
  "expecting m s = (case m s of (Inl _, _) \<Rightarrow> None | (Inr a, s') \<Rightarrow> Some (a, s'))"

definition seed_file ::
    "(bytes \<Rightarrow> string) \<Rightarrow> 'b tier_router \<Rightarrow> fvfs_path \<Rightarrow> bytes \<Rightarrow> tier list \<Rightarrow> 'b world \<Rightarrow> 'b world option" where
  "seed_file sha r path data extra_tiers w =
     (case expecting (router_write sha r path data) w of
        None \<Rightarrow> None
      | Some (_, w1) \<Rightarrow>
          if extra_tiers = [] then Some w1
          else
            (case expecting (on_db (db_get path)) w1 of
               None \<Rightarrow> None
             | Some (None, w2) \<Rightarrow> None
             | Some (Some meta, w2) \<Rightarrow>
                 map_option snd (expecting
                   (on_db (db_set_tier_bitmask (fm_id meta) (fold bm_set extra_tiers (fm_tier_bitmask meta)))) w2)))"

definition nas_only_meta :: "(bytes \<Rightarrow> string) \<Rightarrow> i64 \<Rightarrow> fvfs_path \<Rightarrow> bytes \<Rightarrow> file_metadata" where
  "nas_only_meta sha now path data =
     \<lparr> fm_id = 0, fm_path = path, fm_kind = File, fm_size_bytes = of_nat (length data),
       fm_sha256 = sha data, fm_tier_bitmask = bm_set Nas bm_NONE,
       fm_created_at = now, fm_modified_at = now, fm_accessed_at = now,
       fm_access_count_30d = 0, fm_mime_type = None \<rparr>"

definition seed_nas_only ::
    "(bytes \<Rightarrow> string) \<Rightarrow> 'b tier_router \<Rightarrow> fvfs_path \<Rightarrow> bytes \<Rightarrow> 'b world \<Rightarrow> 'b world option" where
  "seed_nas_only sha r path data w =
     (case expecting (on_store Nas (be_put (rt_nas r) path data)) w of
        None \<Rightarrow> None
      | Some (_, w1) \<Rightarrow>
          let now = clock w1 (ticks w1); w2 = w1\<lparr>ticks := Suc (ticks w1)\<rparr>
          in map_option snd (expecting (on_db (db_upsert (nas_only_meta sha now path data))) w2))"

section \<open>What they leave\<close>

lemma expecting_Some: "expecting m s = Some (a, s') \<longleftrightarrow> m s = (Inr a, s')"
  by (auto simp: expecting_def split: prod.splits sum.splits)

context tier_stack
begin

text \<open>A file seeded on the NAS only is a current version, whatever an earlier run left on the local disk does not count.\<close>

lemma seed_nas_only_holds:
  assumes run: "seed_nas_only sha r p data w = Some w'" and w: "ok w" and p: "normal_path p"
    and fresh: "copy w Local p = None"
  shows "ok w'" "holds content sha w' p data" "copy w' Nas p = Some data"
    "\<exists>row. row_of (wdb w') p = Some row \<and> row_bm row = bm_set Nas bm_NONE"
proof -
  obtain w1 i w2 where put: "on_store Nas (be_put (backend_of r Nas) p data) w = (Inr (), w1)"
    and ups: "on_db (db_upsert (nas_only_meta sha (clock w1 (ticks w1)) p data)) (w1\<lparr>ticks := Suc (ticks w1)\<rparr>) = (Inr i, w2)"
    and w2: "w' = w2"
    using run unfolding seed_nas_only_def
    by (auto simp: expecting_Some Let_def split: option.splits prod.splits)
  let ?m = "nas_only_meta sha (clock w1 (ticks w1)) p data"
  have sel: "fm_path ?m = p" "fm_sha256 ?m = sha data" "fm_size_bytes ?m = of_nat (length data)" "fm_kind ?m = File"
    "fm_tier_bitmask ?m = bm_set Nas bm_NONE" by (simp_all add: nas_only_meta_def)
  obtain d where d: "db_upsert ?m (wdb w1) = (Inr i, d)" and w2': "w2 = w1\<lparr>ticks := Suc (ticks w1), wdb := d\<rparr>"
    using ups by (auto simp: on_db_run)
  note facts = put_run [OF put w p]
  have here: "copy w' Nas p = Some data" "copy w' Local p = None"
    using facts(4) [of Local p] facts(5) fresh by (auto simp: w2 w2')
  then show "copy w' Nas p = Some data" by simp
  have "row_of (wdb w') p = Some (upserted_row (wdb w1) ?m)"
    using db_upsert_row_of [OF d, of p] sel(1) by (simp add: w2 w2')
  then show "\<exists>row. row_of (wdb w') p = Some row \<and> row_bm row = bm_set Nas bm_NONE" "holds content sha w' p data"
    using here by (auto simp: holds_def copies_ok_def kind_flag_def is_dir_def sel)
  have "preserves db_wf (db_upsert ?m)" by (rule db_upsert_wf) (simp add: sel(1) p)
  from preservesD [OF preserves_on_db [OF this] _ ups] facts(1) show "ok w'" by (simp add: w2)
qed

text \<open>Marking S3 without a copy there makes a row that the router could not have left.\<close>

lemma seed_file_unfounded:
  assumes run: "seed_file sha r p data [S3] w = Some w'" and w: "ok w" and p: "normal_path p"
    and fresh: "copy w S3 p = None"
  shows "\<not> holds content sha w' p d"
proof -
  obtain w1 meta w2 where wr: "router_write sha r p data w = (Inr (), w1)"
    and get: "on_db (db_get p) w1 = (Inr (Some meta), w2)"
    and upd: "on_db (db_set_tier_bitmask (fm_id meta) (bm_set S3 (fm_tier_bitmask meta))) w2 = (Inr (), w')"
    using run unfolding seed_file_def by (auto simp: expecting_Some split: option.splits prod.splits)
  obtain row where row: "row_of (wdb w1) p = Some row" and s3: "copy w1 S3 p = None"
    using write_row [OF wr w p] fresh by (metis tier.distinct(3))
  have ok1: "ok w1" using preservesD [OF write_preserves_ok [OF p] w wr] .
  obtain d2 where d2: "db_get p (wdb w1) = (Inr (Some meta), d2)" and w2: "w2 = w1\<lparr>wdb := d2\<rparr>"
    using get by (auto simp: on_db_run)
  have meta: "meta = row_to_metadata row" and row2: "row_of d2 p = Some row"
    using db_get_run [OF d2] row by (simp_all add: same_tables_row_of)
  obtain d3 where d3: "db_set_tier_bitmask (r_id row) (bm_set S3 (row_bm row)) d2 = (Inr (), d3)" and w': "w' = w2\<lparr>wdb := d3\<rparr>"
    using upd by (auto simp: on_db_run w2 meta)
  have "db_wf d2" using same_tables_wf [OF db_get_run(1) [OF d2]] ok1 by (simp add: world_ok_def)
  from db_set_tier_bitmask_row_of [OF d3 this row2 refl, of p]
  have "row_of (wdb w') p = Some (row\<lparr>r_tier_bitmask := u8_as_i64 (as_u8 (bm_set S3 (row_bm row)))\<rparr>)" by (simp add: w')
  then show ?thesis using s3 by (auto simp: holds_def copies_ok_def w' w2)
qed

end

text \<open>The router of the fixtures reads a file seeded on the NAS from there.\<close>

lemma seeded_nas_is_read:
  assumes "seed_nas_only sha (bench_router tmp) p data w = Some w'" "world_ok (\<lambda>_. reliable_disk) w" "normal_path p"
    and "disk_content (bench_lb tmp Local) (stores w Local) p = None" "all_up (\<lambda>_. no_io_fault) w'"
  shows "\<exists>w''. router_read (bench_router tmp) p w' = (Inr data, w'')"
proof -
  note seeded = bench.seed_nas_only_holds [OF assms(1-4)]
  obtain row where row: "row_of (wdb w') p = Some row" "row_bm row = bm_set Nas bm_NONE"
    using seeded(4) by blast
  have "intact (\<lambda>t. disk_content (bench_lb tmp t)) w' p"
    using row seeded(3) by (auto simp: intact_def)
  with bench.read_live [OF seeded(1) assms(5) _ seeded(2)] show ?thesis by blast
qed

end
