(* ===== verification/Resumption.thy ===== *)
theory Resumption
  imports Prelude
begin

text \<open>
  Programs that give up control between their actions: an \<open>async\<close> function is a tree of atomic
  actions on the shared state, and between two of them other tasks may run. \<open>prun\<close> runs a program
  with nobody in between; the laws say that it then is the operation that the combinators of \<open>Prelude\<close>
  build. \<open>safe\<close> is the judgement for programs among others: whatever the environment does between
  the actions, as long as it respects a relation \<open>E\<close>, every action respects \<open>E\<close> too and the result
  has a property that the environment cannot break.
\<close>

section \<open>Programs\<close>

datatype (dead 'w, 'r) prog =
    Ret 'r
  | Act "'w \<Rightarrow> ('w, 'r) prog \<times> 'w"

lemma prog_induct [case_names Ret Act]:
  assumes "\<And>r. P (Ret r)" "\<And>f. (\<And>w p w'. f w = (p, w') \<Longrightarrow> P p) \<Longrightarrow> P (Act f)"
  shows "P p"
proof (induction p)
  case (Act f)
  then show ?case using assms(2) [of f] by (metis fst_conv fsts.intros rangeI)
qed (rule assms(1))

lemma map_prog_Act: "map_prog g (Act f) = Act (\<lambda>w. map_prod (map_prog g) id (f w))"
  by (simp add: comp_def id_def)

text \<open>A program of a fallible function; \<open>?\<close> is \<open>pbind\<close>, one awaited call is \<open>atomic\<close>.\<close>

type_synonym ('w, 'e, 'a) async = "('w, 'e + 'a) prog"

definition atomic :: "('w, 'e, 'a) op \<Rightarrow> ('w, 'e, 'a) async" where
  "atomic m = Act (\<lambda>w. case m w of (r, w') \<Rightarrow> (Ret r, w'))"

abbreviation p_ok :: "'a \<Rightarrow> ('w, 'e, 'a) async" where
  "p_ok a \<equiv> Ret (Inr a)"

abbreviation p_err :: "'e \<Rightarrow> ('w, 'e, 'a) async" where
  "p_err e \<equiv> Ret (Inl e)"

primrec pbind :: "('w, 'e, 'a) async \<Rightarrow> ('a \<Rightarrow> ('w, 'e, 'b) async) \<Rightarrow> ('w, 'e, 'b) async" where
  "pbind (Ret r) k = (case r of Inl e \<Rightarrow> Ret (Inl e) | Inr a \<Rightarrow> k a)"
| "pbind (Act f) k = Act (\<lambda>w. map_prod (\<lambda>p. pbind p k) id (f w))"

text \<open>Look at the \<open>Result\<close>, or drop it.\<close>

definition pattempt :: "('w, 'e, 'a) async \<Rightarrow> ('w, 'f, 'e + 'a) async" where
  "pattempt = map_prog Inr"

definition pignore :: "('w, 'e, 'a) async \<Rightarrow> ('w, 'f, unit) async" where
  "pignore = map_prog (\<lambda>_. Inr ())"

section \<open>Running alone\<close>

primrec prun :: "('w, 'r) prog \<Rightarrow> 'w \<Rightarrow> 'r \<times> 'w" where
  "prun (Ret r) w = (r, w)"
| "prun (Act f) w = (case map_prod prun id (f w) of (g, w') \<Rightarrow> g w')"

lemma prun_ok [simp]: "prun (p_ok a) = okR a" "prun (p_err e) = errR e"
  by (simp_all add: fun_eq_iff okR_def errR_def)

lemma prun_atomic [simp]: "prun (atomic m) = m"
  by (simp add: atomic_def fun_eq_iff split: prod.splits)

lemma prun_pbind [simp]: "prun (pbind p k) = andThen (prun p) (\<lambda>a. prun (k a))"
proof
  fix w show "prun (pbind p k) w = andThen (prun p) (\<lambda>a. prun (k a)) w"
  proof (induction p arbitrary: w rule: prog_induct)
    case (Ret r)
    then show ?case by (cases r) (simp_all add: andThen_def)
  next
    case (Act f)
    obtain p w' where "f w = (p, w')" by fastforce
    then show ?case using Act by (simp add: andThen_def)
  qed
qed

lemma prun_map: "prun (map_prog g p) w = map_prod g id (prun p w)"
proof (induction p arbitrary: w rule: prog_induct)
  case (Act f)
  obtain p w' where "f w = (p, w')" by fastforce
  then show ?case using Act by simp
qed simp

lemma prun_pattempt [simp]: "prun (pattempt p) = attempt (prun p)"
  by (simp add: pattempt_def prun_map attempt_def fun_eq_iff split: prod.splits)

lemma prun_pignore [simp]: "prun (pignore p) w = (Inr (), snd (prun p w))"
  by (cases "prun p w") (simp add: pignore_def prun_map)

section \<open>Running among others\<close>

text \<open>\<open>E w w'\<close>: from \<open>w\<close>, the other tasks may lead to \<open>w'\<close>. Only states that respect \<open>E\<close> are related.\<close>

locale environment =
  fixes E :: "'w \<Rightarrow> 'w \<Rightarrow> bool"
  assumes E_trans: "E u v \<Longrightarrow> E v w \<Longrightarrow> E u w"
    and E_refl: "E v w \<Longrightarrow> E w w"

primrec safe :: "('w \<Rightarrow> 'w \<Rightarrow> bool) \<Rightarrow> ('a \<Rightarrow> 'w \<Rightarrow> bool) \<Rightarrow> ('w, 'e, 'a) async \<Rightarrow> 'w \<Rightarrow> bool" where
  "safe E Q (Ret r) w \<longleftrightarrow> (\<forall>a w'. r = Inr a \<longrightarrow> E w w' \<longrightarrow> Q a w')"
| "safe E Q (Act f) w \<longleftrightarrow>
     (\<forall>w1. E w w1 \<longrightarrow> (case map_prod (safe E Q) id (f w1) of (g, w2) \<Rightarrow> E w1 w2 \<and> g w2))"

lemma safe_Act:
  "safe E Q (Act f) w \<longleftrightarrow> (\<forall>w1 p w2. E w w1 \<longrightarrow> f w1 = (p, w2) \<longrightarrow> E w1 w2 \<and> safe E Q p w2)"
proof -
  have "map_prod (safe E Q) id (f w1) = (safe E Q (fst (f w1)), snd (f w1))" for w1 by (cases "f w1") simp
  then show ?thesis by simp (metis fst_conv prod.collapse snd_conv)
qed

declare safe.simps(2) [simp del]

lemma safe_ActD: "\<lbrakk>safe E Q (Act f) w; E w w1; f w1 = (p, w2)\<rbrakk> \<Longrightarrow> E w1 w2 \<and> safe E Q p w2"
  by (simp add: safe_Act)

lemma safe_ActI:
  "(\<And>w1 p w2. \<lbrakk>E w w1; f w1 = (p, w2)\<rbrakk> \<Longrightarrow> E w1 w2 \<and> safe E Q p w2) \<Longrightarrow> safe E Q (Act f) w"
  by (simp add: safe_Act)

lemma safe_err [simp]: "safe E Q (p_err e) w"
  by simp

context environment
begin

text \<open>What the environment does to a task that waits leaves it safe.\<close>

lemma safe_env: "\<lbrakk>safe E Q p w; E w w'\<rbrakk> \<Longrightarrow> safe E Q p w'"
  by (cases p) (auto simp: safe_Act intro: E_trans)

text \<open>What the task does itself respects \<open>E\<close> and leaves it safe.\<close>

lemma safe_step: "\<lbrakk>safe E Q (Act f) w; E w w; f w = (p, w')\<rbrakk> \<Longrightarrow> E w w' \<and> safe E Q p w'"
  by (rule safe_ActD)

lemma safe_ok: "(\<And>w'. E w w' \<Longrightarrow> Q a w') \<Longrightarrow> safe E Q (p_ok a) w"
  by simp

lemma safe_atomic:
  assumes "\<And>w1 r w2. \<lbrakk>E w w1; E w1 w1; m w1 = (r, w2)\<rbrakk> \<Longrightarrow>
    E w1 w2 \<and> (\<forall>a w3. r = Inr a \<longrightarrow> E w2 w3 \<longrightarrow> Q a w3)"
  shows "safe E (Q :: 'a \<Rightarrow> 'w \<Rightarrow> bool) (atomic (m :: ('w, 'e, 'a) op)) w"
  unfolding atomic_def
proof (rule safe_ActI)
  fix w1 w2 and p :: "('w, 'e, 'a) async"
  assume w1: "E w w1" and run: "(case m w1 of (r, w') \<Rightarrow> (Ret r, w')) = (p, w2)"
  then obtain r where r: "m w1 = (r, w2)" "p = Ret r" using run by (auto split: prod.splits)
  with assms [OF w1 E_refl [OF w1] r(1)] show "E w1 w2 \<and> safe E Q p w2" by simp
qed

lemma safe_weaken:
  assumes "safe E Q p w" "\<And>a w'. \<lbrakk>E w' w'; Q a w'\<rbrakk> \<Longrightarrow> R a w'"
  shows "safe E R p w"
  using assms(1)
proof (induction p arbitrary: w rule: prog_induct)
  case (Ret r)
  then show ?case using assms(2) E_refl by auto
next
  case (Act f)
  show ?case by (rule safe_ActI) (use safe_ActD [OF Act(2)] Act(1) in blast)
qed

lemma safe_pbind:
  assumes "safe E Q p w" "E w w" "\<And>a w'. \<lbrakk>E w w'; E w' w'; Q a w'\<rbrakk> \<Longrightarrow> safe E R (k a) w'"
  shows "safe E R (pbind p k) w"
  using assms
proof (induction p arbitrary: w rule: prog_induct)
  case (Ret r)
  then show ?case by (cases r) auto
next
  case (Act f)
  show ?case unfolding pbind.simps
  proof (rule safe_ActI)
    fix w1 p' w2 assume w1: "E w w1" and "map_prod (\<lambda>p. pbind p k) id (f w1) = (p', w2)"
    then obtain p where run: "f w1 = (p, w2)" and p': "p' = pbind p k" by (cases "f w1") auto
    from safe_ActD [OF Act(2) w1 run] have p: "E w1 w2" "safe E Q p w2" by auto
    have "safe E R (pbind p k) w2"
      by (rule Act(1) [OF run p(2) E_refl [OF p(1)]]) (use Act(4) E_trans w1 p(1) in blast)
    with p(1) p' show "E w1 w2 \<and> safe E R p' w2" by simp
  qed
qed

text \<open>Without a need for what happened in between.\<close>

lemma safe_then:
  assumes "safe E (\<lambda>_ _. True) p w" "E w w" "\<And>a w'. E w' w' \<Longrightarrow> safe E R (k a) w'"
  shows "safe E R (pbind p k) w"
  using safe_pbind [OF assms(1,2)] assms(3) by blast

lemma safe_map:
  assumes "safe E Q p w" "\<And>r a w'. \<lbrakk>E w' w'; g r = Inr a; \<And>x. r = Inr x \<Longrightarrow> Q x w'\<rbrakk> \<Longrightarrow> R a w'"
  shows "safe E R (map_prog g p) w"
  using assms(1)
proof (induction p arbitrary: w rule: prog_induct)
  case (Ret r)
  then show ?case using assms(2) E_refl by auto
next
  case (Act f)
  show ?case unfolding map_prog_Act
  proof (rule safe_ActI)
    fix w1 p' w2 assume w1: "E w w1" and "map_prod (map_prog g) id (f w1) = (p', w2)"
    then obtain p where run: "f w1 = (p, w2)" and p': "p' = map_prog g p" by (cases "f w1") auto
    from safe_ActD [OF Act(2) w1 run] have "E w1 w2" "safe E Q p w2" by auto
    with Act(1) [OF run] p' show "E w1 w2 \<and> safe E R p' w2" by simp
  qed
qed

lemma safe_pattempt: "safe E Q p w \<Longrightarrow> safe E (\<lambda>r w. \<forall>a. r = Inr a \<longrightarrow> Q a w) (pattempt p) w"
  unfolding pattempt_def by (rule safe_map) auto

lemma safe_pignore: "safe E Q p w \<Longrightarrow> safe E (\<lambda>_ _. True) (pignore p) w"
  unfolding pignore_def by (rule safe_map) auto

end

section \<open>Invariants\<close>

text \<open>
  The environment of tasks that all keep the invariant \<open>I\<close>. \<open>keeping I Q p\<close>: whenever the actions of \<open>p\<close> run,
  they keep \<open>I\<close>, and what \<open>p\<close> returns satisfies \<open>Q\<close>.
\<close>

definition both :: "('w \<Rightarrow> bool) \<Rightarrow> 'w \<Rightarrow> 'w \<Rightarrow> bool" where
  "both I w w' \<longleftrightarrow> I w \<and> I w'"

interpretation invariant: environment "both I"
  by unfold_locales (auto simp: both_def)

definition keeping :: "('w \<Rightarrow> bool) \<Rightarrow> ('a \<Rightarrow> bool) \<Rightarrow> ('w, 'e, 'a) async \<Rightarrow> bool" where
  "keeping I Q p \<longleftrightarrow> (\<forall>w. I w \<longrightarrow> safe (both I) (\<lambda>a _. Q a) p w)"

abbreviation anything :: "'a \<Rightarrow> bool" where
  "anything \<equiv> \<lambda>_. True"

named_theorems keeping_intros "rules for programs that keep an invariant"

lemma keeping_step: "\<lbrakk>keeping I Q (Act f); I w; f w = (p, w')\<rbrakk> \<Longrightarrow> I w' \<and> keeping I Q p"
proof -
  assume keep: "keeping I Q (Act f)" and w: "I w" "f w = (p, w')"
  have "both I w w' \<and> safe (both I) (\<lambda>a _. Q a) p w'"
    using keep w safe_ActD [of "both I" "\<lambda>a _. Q a" f w w p w'] by (simp add: keeping_def both_def)
  then show "I w' \<and> keeping I Q p"
    unfolding keeping_def by (auto simp: both_def intro: invariant.safe_env)
qed

lemmas [keeping_intros] = TrueI

lemma keeping_weaken: "\<lbrakk>keeping I Q p; \<And>a. Q a \<Longrightarrow> R a\<rbrakk> \<Longrightarrow> keeping I R p"
  unfolding keeping_def by (auto intro: invariant.safe_weaken)

lemma keeping_ok [keeping_intros]: "Q a \<Longrightarrow> keeping I Q (p_ok a)"
  by (simp add: keeping_def)

lemma keeping_err [keeping_intros]: "keeping I Q (p_err e)"
  by (simp add: keeping_def)

lemma keeping_atomic:
  assumes "preserves I m" "\<And>w a w'. \<lbrakk>I w; m w = (Inr a, w')\<rbrakk> \<Longrightarrow> Q a"
  shows "keeping I Q (atomic m)"
  unfolding keeping_def
proof (intro allI impI, rule invariant.safe_atomic)
  fix w w1 r w2 assume "both I w w1" "m w1 = (r, w2)"
  then show "both I w1 w2 \<and> (\<forall>a w3. r = Inr a \<longrightarrow> both I w2 w3 \<longrightarrow> Q a)"
    using assms by (auto simp: both_def dest: preservesD)
qed

lemma keeping_action [keeping_intros]: "preserves I m \<Longrightarrow> keeping I anything (atomic m)"
  by (rule keeping_atomic) simp_all

lemma keeping_pbind:
  assumes "keeping I Q p" "\<And>a. Q a \<Longrightarrow> keeping I R (k a)"
  shows "keeping I R (pbind p k)"
  unfolding keeping_def
proof (intro allI impI, rule invariant.safe_pbind)
  fix w assume "I w"
  then show "safe (both I) (\<lambda>a _. Q a) p w" "both I w w" using assms(1) by (auto simp: keeping_def both_def)
  show "safe (both I) (\<lambda>a _. R a) (k a) w'" if "both I w w'" "Q a" for a w'
    using assms(2) [OF that(2)] that(1) by (simp add: keeping_def both_def)
qed

lemma keeping_then [keeping_intros]:
  "\<lbrakk>keeping I anything p; \<And>a. keeping I R (k a)\<rbrakk> \<Longrightarrow> keeping I R (pbind p k)"
  by (rule keeping_pbind)

lemma keeping_map:
  assumes "keeping I Q p" "\<And>r a. \<lbrakk>g r = Inr a; \<And>x. r = Inr x \<Longrightarrow> Q x\<rbrakk> \<Longrightarrow> R a"
  shows "keeping I R (map_prog g p)"
  unfolding keeping_def
proof (intro allI impI, rule invariant.safe_map)
  fix w assume "I w"
  then show "safe (both I) (\<lambda>a _. Q a) p w" using assms(1) by (simp add: keeping_def)
qed (rule assms(2))

lemma keeping_pattempt: "keeping I Q p \<Longrightarrow> keeping I (\<lambda>r. \<forall>a. r = Inr a \<longrightarrow> Q a) (pattempt p)"
  unfolding pattempt_def by (rule keeping_map) auto

lemma keeping_attempted [keeping_intros]: "keeping I anything p \<Longrightarrow> keeping I anything (pattempt p)"
  unfolding pattempt_def by (rule keeping_map) auto

lemma keeping_pignore [keeping_intros]: "keeping I anything p \<Longrightarrow> keeping I anything (pignore p)"
  unfolding pignore_def by (rule keeping_map) auto

lemma keeping_cases [keeping_intros]:
  "\<lbrakk>c \<Longrightarrow> keeping I Q p; \<not> c \<Longrightarrow> keeping I Q p'\<rbrakk> \<Longrightarrow> keeping I Q (if c then p else p')"
  "\<lbrakk>x = None \<Longrightarrow> keeping I Q p; \<And>a. x = Some a \<Longrightarrow> keeping I Q (f a)\<rbrakk> \<Longrightarrow>
   keeping I Q (case x of None \<Rightarrow> p | Some a \<Rightarrow> f a)"
  "\<lbrakk>\<And>e. y = Inl e \<Longrightarrow> keeping I Q (g e); \<And>b. y = Inr b \<Longrightarrow> keeping I Q (h b)\<rbrakk> \<Longrightarrow>
   keeping I Q (case y of Inl e \<Rightarrow> g e | Inr b \<Rightarrow> h b)"
  by (simp, cases x, simp_all, cases y, simp_all)

end
