(* ===== verification/Await_Programs.thy ===== *)
theory Await_Programs
  imports Resumption Daemon_Steps
begin

text \<open>
  The requests and the background tasks of the daemon (\<open>fvfsd/src/router.rs\<close>, \<open>s3_uploader.rs\<close>,
  \<open>eviction_task.rs\<close> and the promotion task of \<open>main.rs\<close>) at the grain of their \<open>await\<close>s: every call
  of a backend, every method of the metadata store, every reading of the clock and every signal
  is one action, and other tasks may run in between. The lemmas say that a program that nobody
  interrupts is the operation of the other theories.
\<close>

section \<open>Requests\<close>

abbreviation p_db :: "(db, 'e, 'a) op \<Rightarrow> ('b world, 'e, 'a) async" where
  "p_db m \<equiv> atomic (on_db m)"

abbreviation p_store :: "tier \<Rightarrow> ('b, 'e, 'a) op \<Rightarrow> ('b world, 'e, 'a) async" where
  "p_store t m \<equiv> atomic (on_store t m)"

definition p_add_parent :: "fvfs_path \<Rightarrow> ('b world, fvfs_error, unit) async" where
  "p_add_parent parent =
     pbind (p_db (db_get parent)) (\<lambda>existing.
     if existing = None
     then pbind (atomic now_unix) (\<lambda>now. pbind (p_db (db_upsert (new_dir now parent))) (\<lambda>_. p_ok ()))
     else p_ok ())"

function p_ensure_parent_dirs :: "fvfs_path \<Rightarrow> ('b world, fvfs_error, unit) async" where
  "p_ensure_parent_dirs current =
     (case path_parent current of
        None \<Rightarrow> p_ok ()
      | Some parent \<Rightarrow> pbind (p_add_parent parent) (\<lambda>_. p_ensure_parent_dirs parent))"
  by auto
termination
  by (relation "measure (\<lambda>p. length (as_str p))") (auto dest: path_parent_length)

declare p_ensure_parent_dirs.simps [simp del]

definition p_enqueue :: "i64 \<Rightarrow> wal_op \<Rightarrow> ('b world, fvfs_error, i64) async" where
  "p_enqueue file_id op = pbind (atomic now_unix) (\<lambda>now. p_db (db_wal_enqueue now file_id op))"

definition p_write ::
    "(bytes \<Rightarrow> string) \<Rightarrow> 'b tier_router \<Rightarrow> fvfs_path \<Rightarrow> bytes \<Rightarrow> ('b world, fvfs_error, unit) async" where
  "p_write sha r path data =
     pbind (p_store Local (be_put (rt_local r) path data)) (\<lambda>_.
     pbind (atomic now_unix) (\<lambda>now.
     pbind (p_db (db_upsert (written_meta sha now path data))) (\<lambda>file_id.
     pbind (p_ensure_parent_dirs path) (\<lambda>_.
     pbind (p_enqueue file_id ReplicateNas) (\<lambda>_.
     pbind (p_enqueue file_id UploadS3) (\<lambda>_.
     p_ok ()))))))"

definition p_mkdir :: "fvfs_path \<Rightarrow> ('b world, fvfs_error, unit) async" where
  "p_mkdir path =
     pbind (atomic now_unix) (\<lambda>now.
     pbind (p_db (db_upsert (new_dir now path))) (\<lambda>_.
     pbind (p_ensure_parent_dirs path) (\<lambda>_.
     p_ok ())))"

definition p_require_metadata :: "fvfs_path \<Rightarrow> ('b world, fvfs_error, file_metadata) async" where
  "p_require_metadata path =
     pbind (p_db (db_get path)) (\<lambda>meta.
     case meta of Some m \<Rightarrow> p_ok m | None \<Rightarrow> p_err (NotFound (as_str path)))"

definition p_get_and_promote :: "'b tier_router \<Rightarrow> tier \<Rightarrow> fvfs_path \<Rightarrow> ('b world, fvfs_error, bytes) async" where
  "p_get_and_promote r t path =
     pbind (p_store t (be_get (backend_of r t) path)) (\<lambda>data.
     pbind (atomic (send_promote (Promote path t))) (\<lambda>_. p_ok data))"

definition p_read_from_nas_or_s3 ::
    "'b tier_router \<Rightarrow> fvfs_path \<Rightarrow> tier_bitmask \<Rightarrow> ('b world, fvfs_error, bytes) async" where
  "p_read_from_nas_or_s3 r path bm =
     (if bm_has bm Nas then p_get_and_promote r Nas path
      else if bm_has bm S3 then p_get_and_promote r S3 path
      else p_err (NotFound (as_str path)))"

definition p_read_tiers ::
    "'b tier_router \<Rightarrow> fvfs_path \<Rightarrow> tier_bitmask \<Rightarrow> ('b world, fvfs_error, bytes) async" where
  "p_read_tiers r path bm =
     (if bm_has bm Local then
        pbind (pattempt (p_store Local (be_get (rt_local r) path))) (\<lambda>got.
        case got of Inr d \<Rightarrow> p_ok d | Inl e \<Rightarrow> p_read_from_nas_or_s3 r path bm)
      else if bm_has bm Nas then p_get_and_promote r Nas path
      else if bm_has bm S3 then p_get_and_promote r S3 path
      else p_err (NotFound (as_str path)))"

definition p_touch :: "i64 \<Rightarrow> ('b world, fvfs_error, unit) async" where
  "p_touch file_id = pbind (atomic now_unix) (\<lambda>now. p_db (db_record_access now file_id))"

text \<open>A read, from the metadata that it has loaded on.\<close>

definition p_read_rest :: "'b tier_router \<Rightarrow> fvfs_path \<Rightarrow> file_metadata \<Rightarrow> ('b world, fvfs_error, bytes) async" where
  "p_read_rest r path meta =
     (if is_dir meta then p_err (IsADirectory (as_str path))
      else
        pbind (p_read_tiers r path (fm_tier_bitmask meta)) (\<lambda>data.
        pbind (pattempt (p_touch (fm_id meta))) (\<lambda>_. p_ok data)))"

definition p_read :: "'b tier_router \<Rightarrow> fvfs_path \<Rightarrow> ('b world, fvfs_error, bytes) async" where
  "p_read r path = pbind (p_require_metadata path) (p_read_rest r path)"

definition p_delete_copy ::
    "'b tier_router \<Rightarrow> fvfs_path \<Rightarrow> tier_bitmask \<Rightarrow> tier \<Rightarrow> ('b world, fvfs_error, unit) async" where
  "p_delete_copy r path bm t =
     (if bm_has bm t
      then pbind (pattempt (p_store t (be_delete (backend_of r t) path))) (\<lambda>_. p_ok ())
      else p_ok ())"

definition p_delete :: "'b tier_router \<Rightarrow> fvfs_path \<Rightarrow> ('b world, fvfs_error, unit) async" where
  "p_delete r path =
     pbind (p_require_metadata path) (\<lambda>meta.
     pbind (p_delete_copy r path (fm_tier_bitmask meta) Local) (\<lambda>_.
     pbind (p_delete_copy r path (fm_tier_bitmask meta) Nas) (\<lambda>_.
     pbind (p_delete_copy r path (fm_tier_bitmask meta) S3) (\<lambda>_.
     p_db (db_delete path)))))"

definition p_evict :: "'b tier_router \<Rightarrow> fvfs_path \<Rightarrow> tier \<Rightarrow> ('b world, fvfs_error, unit) async" where
  "p_evict r path t =
     pbind (p_require_metadata path) (\<lambda>meta.
     if \<not> safe_to_evict_from (fm_tier_bitmask meta) t
     then p_err (Other ''cannot evict: file not present on colder tier'')
     else if t = S3 then p_err (Other ''S3 tier is never evicted'')
     else
       pbind (p_store t (be_delete (backend_of r t) path)) (\<lambda>_.
       p_db (db_set_tier_bitmask (fm_id meta) (bm_clear t (fm_tier_bitmask meta)))))"

section \<open>Background tasks\<close>

definition p_upload :: "'b tier_router \<Rightarrow> file_metadata \<Rightarrow> ('b world, fvfs_error, unit) async" where
  "p_upload r file_meta =
     pbind (p_read r (fm_path file_meta)) (\<lambda>data.
     pbind (p_store S3 (be_put (backend_of r S3) (fm_path file_meta) data)) (\<lambda>_.
     p_db (db_set_tier_bitmask (fm_id file_meta) (bm_set S3 (fm_tier_bitmask file_meta)))))"

definition p_flush_entry :: "'b tier_router \<Rightarrow> wal_entry \<Rightarrow> ('b world, fvfs_error, unit) async" where
  "p_flush_entry r entry =
     pbind (pattempt (p_db (db_get_by_id (we_file_id entry)))) (\<lambda>got.
     case got of
       Inl e \<Rightarrow> p_ok ()
     | Inr None \<Rightarrow> pignore (p_db (db_wal_complete (we_id entry)))
     | Inr (Some file_meta) \<Rightarrow>
         pbind (pattempt (p_upload r file_meta)) (\<lambda>result.
         case result of
           Inr _ \<Rightarrow> pignore (p_db (db_wal_complete (we_id entry)))
         | Inl e \<Rightarrow> pignore (p_db (db_wal_record_failure (we_id entry) (display_error e)))))"

primrec p_for :: "('a \<Rightarrow> ('w, 'e, unit) async) \<Rightarrow> 'a list \<Rightarrow> ('w, 'e, unit) async" where
  "p_for body [] = p_ok ()"
| "p_for body (x # xs) = pbind (body x) (\<lambda>_. p_for body xs)"

definition p_flush :: "'b tier_router \<Rightarrow> ('b world, fvfs_error, unit) async" where
  "p_flush r =
     pbind (pattempt (p_db db_wal_pending)) (\<lambda>got.
     case got of Inl e \<Rightarrow> p_ok () | Inr entries \<Rightarrow> p_for (p_flush_entry r) (filter to_flush entries))"

fun p_evict_files ::
    "'b tier_router \<Rightarrow> tier \<Rightarrow> u64 \<Rightarrow> file_metadata list \<Rightarrow> u64 \<Rightarrow> ('b world, fvfs_error, u64) async" where
  "p_evict_files r t target_free [] freed = p_ok freed"
| "p_evict_files r t target_free (file # fs) freed =
     (if target_free \<le> freed then p_ok freed
      else if \<not> safe_to_evict_from (fm_tier_bitmask file) t
      then p_evict_files r t target_free fs freed
      else
        pbind (pattempt (p_evict r (fm_path file) t)) (\<lambda>result.
        case result of
          Inr _ \<Rightarrow> p_evict_files r t target_free fs (freed + fm_size_bytes file)
        | Inl e \<Rightarrow> p_evict_files r t target_free fs freed))"

definition p_eviction_cycle ::
    "'b tier_router \<Rightarrow> arc_policy \<Rightarrow> tier \<Rightarrow> tier_watermarks \<Rightarrow> ('b world, fvfs_error, unit) async" where
  "p_eviction_cycle r policy t wm =
     pbind (pattempt (p_db (db_bytes_on_tier (bitmask t)))) (\<lambda>got.
     case got of
       Inl e \<Rightarrow> p_ok ()
     | Inr used \<Rightarrow>
         if used \<le> high_bytes wm then p_ok ()
         else
           pbind (pattempt (p_db (db_files_on_tier (bitmask t)))) (\<lambda>got.
           case got of
             Inl e \<Rightarrow> p_ok ()
           | Inr fs \<Rightarrow>
               pbind (atomic now_unix) (\<lambda>now.
               pignore
                 (p_evict_files r t (u64_saturating_sub used (low_bytes wm)) (sort_by (score_greater policy now) fs) 0))))"

definition p_eviction_wakeup ::
    "'b tier_router \<Rightarrow> arc_policy \<Rightarrow> tier_watermarks \<Rightarrow> tier_watermarks \<Rightarrow> ('b world, fvfs_error, unit) async" where
  "p_eviction_wakeup r policy local_wm nas_wm =
     pbind (p_eviction_cycle r policy Local local_wm) (\<lambda>_. p_eviction_cycle r policy Nas nas_wm)"

definition p_mark_found :: "fvfs_error + file_metadata option \<Rightarrow> ('b world, fvfs_error, unit) async" where
  "p_mark_found = (\<lambda>found.
     case found of
       Inl e \<Rightarrow> p_ok ()
     | Inr None \<Rightarrow> p_ok ()
     | Inr (Some meta) \<Rightarrow>
         pignore (p_db (db_set_tier_bitmask (fm_id meta) (bm_set Local (fm_tier_bitmask meta)))))"

definition p_mark_local :: "fvfs_path \<Rightarrow> ('b world, fvfs_error, unit) async" where
  "p_mark_local path = pbind (pattempt (p_db (db_get path))) p_mark_found"

definition p_promote :: "'b tier_router \<Rightarrow> fvfs_path \<Rightarrow> ('b world, fvfs_error, unit) async" where
  "p_promote r path =
     pbind (pattempt (p_read r path)) (\<lambda>got.
     case got of
       Inl e \<Rightarrow> p_ok ()
     | Inr data \<Rightarrow>
         pbind (pattempt (p_store Local (be_put (rt_local r) path data))) (\<lambda>res.
         case res of Inl e \<Rightarrow> p_ok () | Inr _ \<Rightarrow> p_mark_local path))"

text \<open>\<open>promote_rx.recv()\<close>, while a signal is there.\<close>

definition recv_signal :: "('b world, 'e, promote_signal option) op" where
  "recv_signal w =
     (case promote_q w of
        [] \<Rightarrow> (Inr None, w)
      | sig # rest \<Rightarrow> (Inr (Some sig), w\<lparr>promote_q := rest\<rparr>))"

definition p_promote_next :: "'b tier_router \<Rightarrow> ('b world, fvfs_error, unit) async" where
  "p_promote_next r =
     pbind (atomic recv_signal) (\<lambda>sig. case sig of None \<Rightarrow> p_ok () | Some s \<Rightarrow> p_promote r (sig_path s))"

section \<open>Uninterrupted, they are the operations\<close>

lemma if_prun: "prun (if c then p else q) = (if c then prun p else prun q)"
  by simp

lemma case_option_prun: "prun (case x of None \<Rightarrow> p | Some a \<Rightarrow> f a) = (case x of None \<Rightarrow> prun p | Some a \<Rightarrow> prun (f a))"
  by (cases x) simp_all

lemma case_sum_prun: "prun (case x of Inl e \<Rightarrow> f e | Inr a \<Rightarrow> g a) = (case x of Inl e \<Rightarrow> prun (f e) | Inr a \<Rightarrow> prun (g a))"
  by (cases x) simp_all

lemmas prun_cases = if_prun case_option_prun case_sum_prun
lemmas prun_congs = if_cong option.case_cong sum.case_cong

lemma prun_add_parent: "prun (p_add_parent p) = add_parent p"
  by (simp add: p_add_parent_def add_parent_def prun_cases cong: prun_congs)

lemma prun_ensure_parent_dirs: "prun (p_ensure_parent_dirs p) = ensure_parent_dirs p"
proof (induction p rule: p_ensure_parent_dirs.induct)
  case (1 p)
  show ?case
    using 1 by (cases "path_parent p")
      (simp_all add: p_ensure_parent_dirs.simps [of p] ensure_parent_dirs_alt [of p] prun_add_parent)
qed

lemma prun_enqueue: "prun (p_enqueue i op) = enqueue i op"
  by (simp add: p_enqueue_def enqueue_def)

lemma prun_write: "prun (p_write sha r p data) = router_write sha r p data"
  by (simp add: p_write_def router_write_def prun_ensure_parent_dirs prun_enqueue)

lemma prun_mkdir: "prun (p_mkdir p) = router_mkdir p"
  by (simp add: p_mkdir_def router_mkdir_def prun_ensure_parent_dirs)

lemma prun_require_metadata: "prun (p_require_metadata p) = require_metadata p"
  by (simp add: p_require_metadata_def require_metadata_def prun_cases cong: prun_congs)

lemma prun_get_and_promote: "prun (p_get_and_promote r t p) = get_and_promote r t p"
  by (simp add: p_get_and_promote_def get_and_promote_def)

lemma prun_read_from_nas_or_s3: "prun (p_read_from_nas_or_s3 r p bm) = read_from_nas_or_s3 r p bm"
  by (simp add: p_read_from_nas_or_s3_def read_from_nas_or_s3_def prun_get_and_promote)

lemma prun_read_tiers: "prun (p_read_tiers r p bm) = read_tiers r p bm"
  by (simp add: p_read_tiers_def read_tiers_def prun_get_and_promote prun_read_from_nas_or_s3 prun_cases cong: prun_congs)

lemma prun_read: "prun (p_read r p) = router_read r p"
  by (simp add: p_read_def p_read_rest_def router_read_def p_touch_def touch_def prun_require_metadata prun_read_tiers prun_cases cong: prun_congs)

lemma prun_delete: "prun (p_delete r p) = router_delete r p"
  by (simp add: p_delete_def router_delete_def p_delete_copy_def delete_copy_def prun_require_metadata prun_cases cong: prun_congs)

lemma prun_evict: "prun (p_evict r p t) = evict_from_tier r p t"
  by (simp add: p_evict_def evict_from_tier_def prun_require_metadata prun_cases cong: prun_congs)

lemma prun_upload: "prun (p_upload r m) = upload_s3 r m"
  by (simp add: p_upload_def upload_s3_def copy_to_def prun_read)

lemma prun_flush_entry: "prun (p_flush_entry r e) w = (Inr (), flush_entry r e w)"
  by (simp add: p_flush_entry_def flush_entry_def prun_cases prun_upload andThen_def attempt_def okR_def ignoring_def
      split: prod.splits sum.splits option.splits)

lemma prun_for:
  assumes "\<And>x w. prun (body x) w = (Inr (), f x w)"
  shows "prun (p_for body xs) w = (Inr (), fold f xs w)"
  by (induction xs arbitrary: w) (simp_all add: assms andThen_def okR_def)

lemma prun_flush: "prun (p_flush r) w = (Inr (), flush_pending r n w)"
  by (simp add: p_flush_def flush_pending_def prun_cases andThen_def attempt_def okR_def
      prun_for [of "p_flush_entry r", OF prun_flush_entry] split: prod.splits sum.splits)

lemma prun_evict_files: "prun (p_evict_files r t target fs freed) w =
    (Inr (fst (evict_files r t target fs freed w)), snd (evict_files r t target fs freed w))"
  by (induction fs arbitrary: freed w)
    (simp_all add: prun_cases prun_evict andThen_def attempt_def okR_def split: prod.splits sum.splits)

lemma prun_eviction_cycle: "prun (p_eviction_cycle r policy t wm) w = (Inr (), run_eviction_cycle r policy t wm w)"
  by (simp add: p_eviction_cycle_def run_eviction_cycle_def prun_cases prun_evict_files andThen_def attempt_def
      okR_def now_unix_def Let_def split: prod.splits sum.splits)

lemma prun_eviction_wakeup:
  "prun (p_eviction_wakeup r policy lwm nwm) w = (Inr (), run_eviction_wakeup r policy lwm nwm w)"
  by (simp add: p_eviction_wakeup_def run_eviction_wakeup_def prun_eviction_cycle andThen_def)

lemma prun_promote: "prun (p_promote r p) w = (Inr (), promote r p w)"
  by (simp add: p_promote_def promote_def p_mark_local_def p_mark_found_def mark_local_def prun_cases prun_read andThen_def attempt_def okR_def
      ignoring_def split: prod.splits sum.splits option.splits)

lemma prun_promote_next: "prun (p_promote_next r) w = (Inr (), promote_next r w)"
  by (simp add: p_promote_next_def promote_next_def recv_signal_def prun_cases prun_promote andThen_def okR_def
      split: list.splits option.splits)

end
