(* ===== verification/Await_Points.thy ===== *)
theory Await_Points
  imports Await_Programs
begin

text \<open>
  What survives when tasks interleave at their \<open>await\<close>s. The relation \<open>evolves\<close> is the guarantee
  of every task that is not asked to change the file \<open>q\<close>: as long as the row of \<open>q\<close> says that S3 has
  a copy, it goes on saying so, \<open>q\<close> keeps its current version \<open>d\<close>, and no copy of \<open>q\<close> turns into
  other bytes. A task that has looked at the row remembers a bitmask that may be out of date when
  it writes it back; \<open>fits\<close> is what remains true of such a bitmask.
\<close>

section \<open>Guarantee and knowledge\<close>

text \<open>How a copy may change, and what it may be.\<close>

definition fades :: "bytes \<Rightarrow> bytes option \<Rightarrow> bytes option \<Rightarrow> bool" where
  "fades d x y \<longleftrightarrow> y = x \<or> y = Some d \<or> y = None"

definition at_most :: "bytes \<Rightarrow> bytes option \<Rightarrow> bool" where
  "at_most d x \<longleftrightarrow> x = Some d \<or> x = None"

lemma fades_refl [simp]: "fades d x x"
  by (simp add: fades_def)

lemma fades_trans: "\<lbrakk>fades d x y; fades d y z\<rbrakk> \<Longrightarrow> fades d x z"
  by (auto simp: fades_def)

lemma fades_at_most: "\<lbrakk>fades d x y; at_most d x\<rbrakk> \<Longrightarrow> at_most d y"
  by (auto simp: fades_def at_most_def)

definition replicated ::
    "(tier \<Rightarrow> 'b \<Rightarrow> fvfs_path \<Rightarrow> bytes option) \<Rightarrow> (tier \<Rightarrow> 'b \<Rightarrow> bool) \<Rightarrow> (bytes \<Rightarrow> string) \<Rightarrow>
     fvfs_path \<Rightarrow> bytes \<Rightarrow> i64 \<Rightarrow> 'b world \<Rightarrow> bool" where
  "replicated content tinv sha q d i w \<longleftrightarrow>
     world_ok tinv w \<and> holds content sha w q d \<and>
     (\<exists>row. row_of (wdb w) q = Some row \<and> r_id row = i \<and> bm_has (row_bm row) S3)"

definition evolves ::
    "(tier \<Rightarrow> 'b \<Rightarrow> fvfs_path \<Rightarrow> bytes option) \<Rightarrow> (tier \<Rightarrow> 'b \<Rightarrow> bool) \<Rightarrow> (bytes \<Rightarrow> string) \<Rightarrow>
     fvfs_path \<Rightarrow> bytes \<Rightarrow> i64 \<Rightarrow> 'b world \<Rightarrow> 'b world \<Rightarrow> bool" where
  "evolves content tinv sha q d i w w' \<longleftrightarrow>
     replicated content tinv sha q d i w \<and> replicated content tinv sha q d i w' \<and>
     (\<forall>t. fades d (content t (stores w t) q) (content t (stores w' t) q))"

interpretation evolution: environment "evolves content tinv sha q d i"
  by unfold_locales (auto simp: evolves_def intro: fades_trans)

definition fits ::
    "(tier \<Rightarrow> 'b \<Rightarrow> fvfs_path \<Rightarrow> bytes option) \<Rightarrow> fvfs_path \<Rightarrow> bytes \<Rightarrow> 'b world \<Rightarrow> tier_bitmask \<Rightarrow> bool" where
  "fits content q d w bm \<longleftrightarrow>
     bm_has bm S3 \<and> (\<forall>t. bm_has bm t \<longrightarrow> at_most d (content t (stores w t) q))"

text \<open>Metadata of \<open>p\<close> that a task has loaded.\<close>

definition knows ::
    "(tier \<Rightarrow> 'b \<Rightarrow> fvfs_path \<Rightarrow> bytes option) \<Rightarrow> fvfs_path \<Rightarrow> bytes \<Rightarrow> i64 \<Rightarrow> 'b world \<Rightarrow>
     fvfs_path \<Rightarrow> file_metadata \<Rightarrow> bool" where
  "knows content q d i w p m \<longleftrightarrow>
     normal_path p \<and> (fm_id m = i \<longleftrightarrow> p = q) \<and> (p = q \<longrightarrow> fits content q d w (fm_tier_bitmask m))"

abbreviation nothing :: "'a \<Rightarrow> 'w \<Rightarrow> bool" where
  "nothing \<equiv> \<lambda>_ _. True"

lemma fits_env: "\<lbrakk>evolves content tinv sha q d i w w'; fits content q d w bm\<rbrakk> \<Longrightarrow> fits content q d w' bm"
  by (auto simp: evolves_def fits_def intro: fades_at_most)

lemma knows_env:
  "\<lbrakk>evolves content tinv sha q d i w w'; knows content q d i w p m\<rbrakk> \<Longrightarrow> knows content q d i w' p m"
  by (auto simp: knows_def intro: fits_env)

lemma replicated_copies:
  assumes "replicated content tinv sha q d i w"
  shows "content S3 (stores w S3) q = Some d" "at_most d (content Local (stores w Local) q)"
  using assms by (auto simp: replicated_def holds_def copies_ok_def at_most_def)

lemma replicated_row:
  assumes "replicated content tinv sha q d i w" "row_of (wdb w) p = Some row"
  shows "knows content q d i w p (row_to_metadata row)"
proof -
  have ok: "db_wf (wdb w)" using assms(1) by (simp add: replicated_def world_ok_def)
  obtain mine where mine: "row_of (wdb w) q = Some mine" "r_id mine = i" "bm_has (row_bm mine) S3"
    and copies: "copies_ok (\<lambda>t. content t (stores w t) q) (row_bm mine) d"
    using assms(1) by (auto simp: replicated_def holds_def)
  have "fits content q d w (row_bm mine)"
    using copies mine(3) by (auto simp: fits_def copies_ok_def at_most_def)
  with mine assms(2) row_of_id_inj [OF ok assms(2) mine(1)] row_of_normal [OF ok assms(2)]
  show ?thesis by (auto simp: knows_def)
qed

section \<open>Actions\<close>

lemma evolves_db:
  assumes w: "evolves content tinv sha q d i w w" and wf: "db_wf db"
    and row: "rel_option same_file (row_of (wdb w) q) (row_of db q)"
  shows "evolves content tinv sha q d i w (w\<lparr>wdb := db\<rparr>)"
proof -
  obtain x where x: "row_of (wdb w) q = Some x" "r_id x = i" "bm_has (row_bm x) S3"
    using w by (auto simp: evolves_def replicated_def)
  then obtain y where y: "row_of db q = Some y" "same_file x y"
    using row by (auto simp: option_rel_Some1)
  with w x show ?thesis using wf
    by (auto simp: evolves_def replicated_def holds_def world_ok_def same_file_def row_bm_def)
qed

lemma evolves_stores:
  assumes w: "evolves content tinv sha q d i w w" and db: "wdb w' = wdb w" and ok: "world_ok tinv w'"
    and copies: "\<And>t. content t (stores w' t) q = content t (stores w t) q \<or> content t (stores w' t) q = Some d \<or>
      t \<noteq> S3 \<and> content t (stores w' t) q = None"
  shows "evolves content tinv sha q d i w w'"
proof -
  have rep: "replicated content tinv sha q d i w" using w by (simp add: evolves_def)
  then obtain row where row: "row_of (wdb w) q = Some row" "r_is_dir row = 0" "r_sha256 row = sha d"
      "r_size_bytes row = u64_as_i64 (of_nat (length d))" "r_id row = i" "bm_has (row_bm row) S3"
    and old: "copies_ok (\<lambda>t. content t (stores w t) q) (row_bm row) d"
    by (auto simp: replicated_def holds_def)
  have "copies_ok (\<lambda>t. content t (stores w' t) q) (row_bm row) d"
    using old copies row(6) unfolding copies_ok_def by (metis option.distinct(1))
  with rep ok row db have "replicated content tinv sha q d i w'"
    by (auto simp: replicated_def holds_def)
  moreover have "fades d (content t (stores w t) q) (content t (stores w' t) q)" for t
    using copies [of t] by (auto simp: fades_def)
  ultimately show ?thesis using rep by (simp add: evolves_def)
qed

lemma evolves_sel:
  assumes "evolves content tinv sha q d i w w" "wdb w' = wdb w" "stores w' = stores w"
  shows "evolves content tinv sha q d i w w'"
  by (rule evolves_stores [OF assms(1,2)])
    (use assms in \<open>auto simp: evolves_def replicated_def world_ok_def\<close>)

text \<open>A method of the metadata store.\<close>

lemma safe_db:
  assumes "\<And>w1 res db. \<lbrakk>evolves content tinv sha q d i w w1; replicated content tinv sha q d i w1;
      m (wdb w1) = (res, db)\<rbrakk> \<Longrightarrow>
    db_wf db \<and> rel_option same_file (row_of (wdb w1) q) (row_of db q) \<and> (\<forall>a. res = Inr a \<longrightarrow>
      (\<forall>w2. evolves content tinv sha q d i w1 w2 \<longrightarrow> Q a w2))"
  shows "safe (evolves content tinv sha q d i) Q (p_db m) w"
proof (rule evolution.safe_atomic)
  fix w1 res w2
  assume w1: "evolves content tinv sha q d i w w1" "evolves content tinv sha q d i w1 w1"
    and "on_db m w1 = (res, w2)"
  then obtain db where run: "m (wdb w1) = (res, db)" and w2: "w2 = w1\<lparr>wdb := db\<rparr>" by (auto simp: on_db_run)
  have "replicated content tinv sha q d i w1" using w1(2) by (simp add: evolves_def)
  note facts = assms [OF w1(1) this run]
  then have "evolves content tinv sha q d i w1 w2" unfolding w2 by (intro evolves_db [OF w1(2)]) auto
  with facts show "evolves content tinv sha q d i w1 w2 \<and>
      (\<forall>a w3. res = Inr a \<longrightarrow> evolves content tinv sha q d i w2 w3 \<longrightarrow> Q a w3)"
    by (blast intro: evolution.E_trans)
qed

lemma replicated_wf: "replicated content tinv sha q d i w \<Longrightarrow> db_wf (wdb w)"
  by (simp add: replicated_def world_ok_def)

lemma query_frame:
  assumes "replicated content tinv sha q d i w" "same_tables (wdb w) db"
  shows "db_wf db \<and> rel_option same_file (row_of (wdb w) q) (row_of db q)"
  using same_tables_row_of [OF assms(2)] same_tables_wf [OF assms(2)] replicated_wf [OF assms(1)] by simp

lemma safe_query:
  assumes "\<And>db res db'. m db = (res, db') \<Longrightarrow> same_tables db db'"
  shows "safe (evolves content tinv sha q d i) nothing (p_db m) w"
  by (rule safe_db) (use assms query_frame in blast)

lemma safe_update:
  assumes "preserves db_wf m" "\<And>db res db'. m db = (res, db') \<Longrightarrow> rel_option same_file (row_of db q) (row_of db' q)"
  shows "safe (evolves content tinv sha q d i) nothing (p_db m) w"
  by (rule safe_db) (use assms in \<open>auto dest: preservesD replicated_wf\<close>)

lemma same_row_update: "row_of db' q = row_of db q \<Longrightarrow> rel_option same_file (row_of db q) (row_of db' q)"
  by simp

lemma safe_wal_ops:
  "safe (evolves content tinv sha q d i) nothing (p_db (db_wal_enqueue now k op)) w"
  "safe (evolves content tinv sha q d i) nothing (p_db (db_wal_complete k)) w"
  "safe (evolves content tinv sha q d i) nothing (p_db (db_wal_record_failure k e)) w"
  "safe (evolves content tinv sha q d i) nothing (p_db (db_record_access now k)) w"
  by (rule safe_update [OF db_wal_enqueue_wf], simp add: wal_ops_row_of(1))
    (rule safe_update [OF db_wal_complete_wf], simp add: wal_ops_row_of(2),
     rule safe_update [OF db_wal_record_failure_wf], simp add: wal_ops_row_of(3),
     rule safe_update [OF db_record_access_wf], erule db_record_access_row_of)

lemma safe_get:
  "safe (evolves content tinv sha q d i) (\<lambda>m w. case m of None \<Rightarrow> p \<noteq> q | Some x \<Rightarrow> knows content q d i w p x)
     (p_db (db_get p)) w"
proof (rule safe_db)
  fix w1 res db assume rep: "replicated content tinv sha q d i w1" and run: "db_get p (wdb w1) = (res, db)"
  have same: "same_tables (wdb w1) db" using db_get_run(1) [OF run] .
  have main: "case m of None \<Rightarrow> p \<noteq> q | Some x \<Rightarrow> knows content q d i w2 p x"
    if "res = Inr m" "evolves content tinv sha q d i w1 w2" for m w2
    using db_get_run(2) [OF run that(1)] replicated_row [OF rep] knows_env [OF that(2)] rep
    by (cases "row_of (wdb w1) p") (auto simp: replicated_def)
  show "db_wf db \<and> rel_option same_file (row_of (wdb w1) q) (row_of db q) \<and> (\<forall>m. res = Inr m \<longrightarrow>
      (\<forall>w2. evolves content tinv sha q d i w1 w2 \<longrightarrow> (case m of None \<Rightarrow> p \<noteq> q | Some x \<Rightarrow> knows content q d i w2 p x)))"
    using query_frame [OF rep same] main by blast
qed

lemma safe_get_by_id:
  "safe (evolves content tinv sha q d i) (\<lambda>m w. \<forall>x. m = Some x \<longrightarrow> knows content q d i w (fm_path x) x)
     (p_db (db_get_by_id k)) w"
proof (rule safe_db)
  fix w1 res db assume rep: "replicated content tinv sha q d i w1" and run: "db_get_by_id k (wdb w1) = (res, db)"
  have same: "same_tables (wdb w1) db" using db_get_by_id_run(1) [OF run] .
  have main: "knows content q d i w2 (fm_path x) x"
    if found: "res = Inr (Some x)" and env: "evolves content tinv sha q d i w1 w2" for x w2
  proof -
    obtain p row where row: "row_of (wdb w1) p = Some row" "x = row_to_metadata row" "fm_path x = p"
      by (rule db_get_by_id_Some [OF replicated_wf [OF rep] run [unfolded found]])
    from knows_env [OF env replicated_row [OF rep row(1)]] row(2,3) show ?thesis by simp
  qed
  show "db_wf db \<and> rel_option same_file (row_of (wdb w1) q) (row_of db q) \<and> (\<forall>m. res = Inr m \<longrightarrow>
      (\<forall>w2. evolves content tinv sha q d i w1 w2 \<longrightarrow> (\<forall>x. m = Some x \<longrightarrow> knows content q d i w2 (fm_path x) x)))"
    using query_frame [OF rep same] main by blast
qed

text \<open>Writing back a bitmask that was loaded earlier, and changed.\<close>

lemma fits_bm:
  assumes "fits content q d w bm"
  shows "t \<noteq> S3 \<Longrightarrow> fits content q d w (bm_clear t bm)"
    and "at_most d (content t (stores w t) q) \<Longrightarrow> fits content q d w (bm_set t bm)"
  using assms by (auto simp: fits_def bm_has_clear bm_has_set)

lemma safe_set_bitmask:
  assumes "k = i \<Longrightarrow> fits content q d w bm"
  shows "safe (evolves content tinv sha q d i) nothing (p_db (db_set_tier_bitmask k bm)) w"
proof (rule evolution.safe_atomic)
  fix w1 res w2
  assume w1: "evolves content tinv sha q d i w w1" "evolves content tinv sha q d i w1 w1"
    and "on_db (db_set_tier_bitmask k bm) w1 = (res, w2)"
  then obtain db where run: "db_set_tier_bitmask k bm (wdb w1) = (res, db)" and w2: "w2 = w1\<lparr>wdb := db\<rparr>"
    by (auto simp: on_db_run)
  have rep: "replicated content tinv sha q d i w1" using w1(2) by (simp add: evolves_def)
  then obtain row where row: "row_of (wdb w1) q = Some row" "r_id row = i" "bm_has (row_bm row) S3" "r_is_dir row = 0"
      "r_sha256 row = sha d" "r_size_bytes row = u64_as_i64 (of_nat (length d))"
    by (auto simp: replicated_def holds_def)
  have wf: "db_wf db" using preservesD [OF db_set_tier_bitmask_wf replicated_wf [OF rep] run] .
  note upd = update_files_run [OF run [unfolded db_set_tier_bitmask_def]]
  show "evolves content tinv sha q d i w1 w2 \<and>
      (\<forall>a w3. res = Inr a \<longrightarrow> evolves content tinv sha q d i w2 w3 \<longrightarrow> True)"
  proof (cases "res = Inr () \<and> k = i")
    case False
    then have "row_of db q = row_of (wdb w1) q"
      using upd row(1,2) by (cases "res = Inr ()") (auto simp: same_tables_row_of)
    then show ?thesis unfolding w2 using evolves_db [OF w1(2) wf] by simp
  next
    case True
    then have new: "row_of db q = Some (row\<lparr>r_tier_bitmask := u8_as_i64 (as_u8 bm)\<rparr>)"
      using upd row(1,2) by simp
    have fit: "fits content q d w1 bm" using fits_env [OF w1(1)] assms True by blast
    have "copies_ok (\<lambda>t. content t (stores w1 t) q) bm d"
      using fit replicated_copies [OF rep] by (auto simp: copies_ok_def fits_def at_most_def)
    then have "replicated content tinv sha q d i w2"
      using rep row wf new fit by (simp add: w2 replicated_def holds_def world_ok_def fits_def)
    with rep show ?thesis by (simp add: evolves_def w2)
  qed
qed

text \<open>Rows of other paths.\<close>

lemma safe_upsert:
  assumes "normal_path (fm_path m)" "fm_path m \<noteq> q"
  shows "safe (evolves content tinv sha q d i) nothing (p_db (db_upsert m)) w"
proof (rule safe_update [OF db_upsert_wf [OF assms(1)]])
  fix db res db' assume run: "db_upsert m db = (res, db')"
  show "rel_option same_file (row_of db q) (row_of db' q)"
    using run db_upsert_row_of [of m db _ db' q] db_upsert_fail [of m db _ db'] assms(2)
    by (cases res) (auto simp: same_tables_row_of)
qed

lemma safe_delete_row:
  assumes "p \<noteq> q"
  shows "safe (evolves content tinv sha q d i) nothing (p_db (db_delete p)) w"
proof (rule safe_update [OF db_delete_wf])
  fix db res db' assume run: "db_delete p db = (res, db')"
  have "as_str q \<noteq> as_str p" using assms fvfs_path.expand by metis
  then show "rel_option same_file (row_of db q) (row_of db' q)" using db_delete_row_of [OF run, of q] by simp
qed

text \<open>The clock and the promotion queue.\<close>

lemma safe_quiet:
  assumes "\<And>w r w'. m w = (r, w') \<Longrightarrow> wdb w' = wdb w \<and> stores w' = stores w"
  shows "safe (evolves content tinv sha q d i) nothing (atomic m) w"
  by (rule evolution.safe_atomic) (use assms evolves_sel in blast)

lemma safe_quiet_ops:
  "safe (evolves content tinv sha q d i) nothing (atomic now_unix) w"
  "safe (evolves content tinv sha q d i) nothing (atomic (send_promote s)) w"
  "safe (evolves content tinv sha q d i) nothing (atomic recv_signal) w"
  by (rule safe_quiet; auto simp: now_unix_def send_promote_def modifyR_def recv_signal_def split: list.splits)+

context tier_stack
begin

abbreviation E :: "(bytes \<Rightarrow> string) \<Rightarrow> fvfs_path \<Rightarrow> bytes \<Rightarrow> i64 \<Rightarrow> 'b world \<Rightarrow> 'b world \<Rightarrow> bool" where
  "E \<equiv> evolves content tinv"

lemma E_ok: "E sha q d i w w' \<Longrightarrow> ok w'"
  by (simp add: evolves_def replicated_def)

lemma safe_put:
  assumes p: "normal_path p" and same: "p = q \<Longrightarrow> data = d"
  shows "safe (E sha q d i) nothing (p_store t (be_put (backend_of r t) p data)) w"
proof (rule evolution.safe_atomic)
  fix w1 res w2 assume w1: "E sha q d i w w1" "E sha q d i w1 w1"
    and run: "on_store t (be_put (backend_of r t) p data) w1 = (res, w2)"
  note put = put_run [OF run E_ok [OF w1(1)] p]
  have "copy w2 u q = copy w1 u q \<or> copy w2 u q = Some d" for u
    using put(4) [of u q] put(5) same by (cases "u = t \<and> q = p") auto
  then have "E sha q d i w1 w2" by (intro evolves_stores [OF w1(2) put(2,1)]) blast
  then show "E sha q d i w1 w2 \<and> (\<forall>a w3. res = Inr a \<longrightarrow> E sha q d i w2 w3 \<longrightarrow> True)" by blast
qed

lemma safe_remove:
  assumes p: "normal_path p" and cold: "p = q \<Longrightarrow> t \<noteq> S3"
  shows "safe (E sha q d i) nothing (p_store t (be_delete (backend_of r t) p)) w"
proof (rule evolution.safe_atomic)
  fix w1 res w2 assume w1: "E sha q d i w w1" "E sha q d i w1 w1"
    and run: "on_store t (be_delete (backend_of r t) p) w1 = (res, w2)"
  note del = delete_run [OF run E_ok [OF w1(1)] p]
  have "copy w2 u q = copy w1 u q \<or> u \<noteq> S3 \<and> copy w2 u q = None" for u
    using del(4) [of u q] del(5) cold by (cases "u = t \<and> q = p") auto
  then have "E sha q d i w1 w2" by (intro evolves_stores [OF w1(2) del(2,1)]) blast
  then show "E sha q d i w1 w2 \<and> (\<forall>a w3. res = Inr a \<longrightarrow> E sha q d i w2 w3 \<longrightarrow> True)" by blast
qed

lemma safe_fetch:
  assumes p: "normal_path p" and old: "p = q \<Longrightarrow> at_most d (copy w t q)"
  shows "safe (E sha q d i) (\<lambda>x _. p = q \<longrightarrow> x = d) (p_store t (be_get (backend_of r t) p)) w"
proof (rule evolution.safe_atomic)
  fix w1 res w2 assume w1: "E sha q d i w w1" "E sha q d i w1 w1"
    and run: "on_store t (be_get (backend_of r t) p) w1 = (res, w2)"
  note got = get_run [OF run E_ok [OF w1(1)] p]
  have db: "wdb w2 = wdb w1" using run by (auto simp: on_store_run)
  have copies: "copy w2 u = copy w1 u" for u using got(2) by (simp add: same_world_def)
  have "E sha q d i w1 w2" by (rule evolves_stores [OF w1(2) db got(1)]) (simp add: copies)
  moreover have "x = d" if "res = Inr x" "p = q" for x
  proof -
    have "fades d (copy w t q) (copy w1 t q)" using w1(1) by (simp add: evolves_def)
    from fades_at_most [OF this old [OF that(2)]] got(3) [OF that(1)] that(2) show ?thesis
      by (auto simp: at_most_def)
  qed
  ultimately show "E sha q d i w1 w2 \<and>
      (\<forall>a w3. res = Inr a \<longrightarrow> E sha q d i w2 w3 \<longrightarrow> p = q \<longrightarrow> a = d)" by blast
qed

end

section \<open>Programs\<close>

text \<open>The way a program is taken apart: an action with what it tells, or one that tells nothing.\<close>

lemmas E_pbind = evolution.safe_pbind
lemmas E_then = evolution.safe_then
lemmas E_refl = evolution.E_refl

lemma E_rep: "evolves content tinv sha q d i w w' \<Longrightarrow> replicated content tinv sha q d i w'"
  by (simp add: evolves_def)

lemma safe_done [simp]: "safe E nothing (p_ok a) w"
  by simp

context tier_stack
begin

lemma safe_add_parent:
  assumes p: "normal_path p" and w: "E sha q d i w w"
  shows "safe (E sha q d i) nothing (p_add_parent p) w"
  unfolding p_add_parent_def
proof (rule E_pbind [OF safe_get [of content tinv sha q d i p] w])
  fix existing w1 assume w1: "E sha q d i w1 w1"
    and known: "case existing of None \<Rightarrow> p \<noteq> q | Some x \<Rightarrow> knows content q d i w1 p x"
  show "safe (E sha q d i) nothing
      (if existing = None
       then pbind (atomic now_unix) (\<lambda>now. pbind (p_db (db_upsert (new_dir now p))) (\<lambda>_. p_ok ()))
       else p_ok ()) w1"
    using p known by (auto intro!: E_then [OF safe_quiet_ops(1) w1] E_then [OF safe_upsert] simp: new_dir_def)
qed

lemma safe_ensure_parent_dirs:
  "\<lbrakk>normal_path p; E sha q d i w w\<rbrakk> \<Longrightarrow> safe (E sha q d i) nothing (p_ensure_parent_dirs p) w"
proof (induction p arbitrary: w rule: p_ensure_parent_dirs.induct)
  case (1 p)
  show ?case
  proof (cases "path_parent p")
    case None
    then show ?thesis by (simp add: p_ensure_parent_dirs.simps [of p])
  next
    case (Some parent)
    then have normal: "normal_path parent"
      using path_parent_shorter [OF 1(2)] 1(2) by (auto simp: path_parent_refines split: if_splits)
    have "safe (E sha q d i) nothing (pbind (p_add_parent parent) (\<lambda>_. p_ensure_parent_dirs parent)) w"
      by (rule E_then [OF safe_add_parent [OF normal 1(3)] 1(3) 1(1) [OF Some normal]])
    with Some show ?thesis by (simp add: p_ensure_parent_dirs.simps [of p])
  qed
qed

lemma safe_enqueue:
  assumes "E sha q d i w w"
  shows "safe (E sha q d i) nothing (p_enqueue k op) w"
  unfolding p_enqueue_def by (rule E_then [OF safe_quiet_ops(1) assms safe_wal_ops(1)])

lemma safe_write:
  assumes "normal_path p" "p \<noteq> q" "E sha q d i w w"
  shows "safe (E sha q d i) nothing (p_write sha' r p data) w"
  unfolding p_write_def using safe_put [of p q data d _ _ Local] assms
  by (auto intro!: E_then assms(3) safe_quiet_ops safe_upsert safe_ensure_parent_dirs safe_enqueue)

lemma safe_mkdir:
  assumes "normal_path p" "p \<noteq> q" "E sha q d i w w"
  shows "safe (E sha q d i) nothing (p_mkdir p) w"
  unfolding p_mkdir_def using assms
  by (auto intro!: E_then assms(3) safe_quiet_ops safe_upsert safe_ensure_parent_dirs simp: new_dir_def)

lemma safe_require_metadata:
  assumes w: "E sha q d i w w"
  shows "safe (E sha q d i) (\<lambda>m w. knows content q d i w p m) (p_require_metadata p) w"
  unfolding p_require_metadata_def
  by (rule E_pbind [OF safe_get [of content tinv sha q d i p] w])
    (auto intro: knows_env split: option.splits)

lemma safe_get_and_promote:
  assumes "normal_path p" "p = q \<Longrightarrow> at_most d (copy w t q)" "E sha q d i w w"
  shows "safe (E sha q d i) (\<lambda>x _. p = q \<longrightarrow> x = d) (p_get_and_promote r t p) w"
  unfolding p_get_and_promote_def
  by (rule E_pbind [OF safe_fetch [OF assms(1,2)] assms(3)]) (auto intro!: E_then [OF safe_quiet_ops(2)])

lemma safe_read_from_nas_or_s3:
  assumes "normal_path p" "p = q \<Longrightarrow> fits content q d w bm" "E sha q d i w w"
  shows "safe (E sha q d i) (\<lambda>x _. p = q \<longrightarrow> x = d) (p_read_from_nas_or_s3 r p bm) w"
  unfolding p_read_from_nas_or_s3_def using assms
  by (auto intro!: safe_get_and_promote simp: fits_def)

lemma safe_read_tiers:
  assumes p: "normal_path p" and bm: "p = q \<Longrightarrow> fits content q d w bm" and w: "E sha q d i w w"
  shows "safe (E sha q d i) (\<lambda>x _. p = q \<longrightarrow> x = d) (p_read_tiers r p bm) w"
proof (cases "bm_has bm Local")
  case True
  have "safe (E sha q d i) (\<lambda>x _. p = q \<longrightarrow> x = d) (p_store Local (be_get (backend_of r Local) p)) w"
    by (rule safe_fetch [OF p]) (use bm True in \<open>auto simp: fits_def\<close>)
  note local = evolution.safe_pattempt [OF this]
  have "safe (E sha q d i) (\<lambda>x _. p = q \<longrightarrow> x = d)
      (pbind (pattempt (p_store Local (be_get (backend_of r Local) p))) (\<lambda>got.
       case got of Inr d \<Rightarrow> p_ok d | Inl e \<Rightarrow> p_read_from_nas_or_s3 r p bm)) w"
    by (rule E_pbind [OF local w])
      (auto split: sum.splits intro!: safe_read_from_nas_or_s3 [OF p] intro: fits_env bm)
  with True show ?thesis by (simp add: p_read_tiers_def)
next
  case False
  then show ?thesis unfolding p_read_tiers_def
    using bm by (auto intro!: safe_get_and_promote [OF p _ w] simp: fits_def)
qed

lemma safe_touch:
  assumes "E sha q d i w w"
  shows "safe (E sha q d i) nothing (p_touch k) w"
  unfolding p_touch_def by (rule E_then [OF safe_quiet_ops(1) assms safe_wal_ops(4)])

lemma safe_read:
  assumes w: "E sha q d i w w"
  shows "safe (E sha q d i) (\<lambda>x _. normal_path p \<and> (p = q \<longrightarrow> x = d)) (p_read r p) w"
  unfolding p_read_def
proof (rule E_pbind [OF safe_require_metadata [OF w] w])
  fix m w1 assume w1: "E sha q d i w1 w1" and known: "knows content q d i w1 p m"
  have tiers: "safe (E sha q d i) (\<lambda>x _. p = q \<longrightarrow> x = d) (p_read_tiers r p (fm_tier_bitmask m)) w1"
    by (rule safe_read_tiers [OF _ _ w1]) (use known in \<open>auto simp: knows_def\<close>)
  have "safe (E sha q d i) (\<lambda>x _. normal_path p \<and> (p = q \<longrightarrow> x = d))
      (pbind (p_read_tiers r p (fm_tier_bitmask m)) (\<lambda>data. pbind (pattempt (p_touch (fm_id m))) (\<lambda>_. p_ok data))) w1"
    by (rule E_pbind [OF tiers w1], rule E_then [OF evolution.safe_weaken [OF evolution.safe_pattempt [OF safe_touch]]])
      (use known in \<open>auto simp: knows_def\<close>)
  then show "safe (E sha q d i) (\<lambda>x _. normal_path p \<and> (p = q \<longrightarrow> x = d)) (p_read_rest r p m) w1"
    by (simp add: p_read_rest_def)
qed

lemma safe_attempted:
  "safe (E sha q d i) nothing p w \<Longrightarrow> safe (E sha q d i) nothing (pattempt p) w"
  by (rule evolution.safe_weaken [OF evolution.safe_pattempt]) simp_all

lemma safe_delete_copy:
  assumes "normal_path p" "p \<noteq> q" "E sha q d i w w"
  shows "safe (E sha q d i) nothing (p_delete_copy r p bm t) w"
  unfolding p_delete_copy_def using assms
  by (auto intro!: E_then [OF safe_attempted [OF safe_remove]])

lemma safe_delete:
  assumes "p \<noteq> q" "E sha q d i w w"
  shows "safe (E sha q d i) nothing (p_delete r p) w"
  unfolding p_delete_def
  by (rule E_pbind [OF safe_require_metadata [OF assms(2)] assms(2)])
    (use assms(1) in \<open>auto simp: knows_def intro!: E_then [OF safe_delete_copy] safe_delete_row\<close>)

lemma safe_evict:
  assumes w: "E sha q d i w w"
  shows "safe (E sha q d i) nothing (p_evict r p t) w"
  unfolding p_evict_def
proof (rule E_pbind [OF safe_require_metadata [OF w] w])
  fix m w1 assume w1: "E sha q d i w1 w1" and known: "knows content q d i w1 p m"
  have "safe (E sha q d i) nothing
      (pbind (p_store t (be_delete (backend_of r t) p)) (\<lambda>_.
       p_db (db_set_tier_bitmask (fm_id m) (bm_clear t (fm_tier_bitmask m))))) w1" if t: "t \<noteq> S3"
  proof (rule E_pbind [OF safe_remove w1])
    show "normal_path p" "p = q \<Longrightarrow> t \<noteq> S3" using known t by (simp_all add: knows_def)
    fix a w2 assume w2: "E sha q d i w1 w2"
    show "safe (E sha q d i) nothing (p_db (db_set_tier_bitmask (fm_id m) (bm_clear t (fm_tier_bitmask m)))) w2"
      by (rule safe_set_bitmask) (use knows_env [OF w2 known] t in \<open>auto simp: knows_def fits_bm\<close>)
  qed
  then show "safe (E sha q d i) nothing
      (if \<not> safe_to_evict_from (fm_tier_bitmask m) t
       then p_err (Other ''cannot evict: file not present on colder tier'')
       else if t = S3 then p_err (Other ''S3 tier is never evicted'')
       else
         pbind (p_store t (be_delete (backend_of r t) p)) (\<lambda>_.
         p_db (db_set_tier_bitmask (fm_id m) (bm_clear t (fm_tier_bitmask m))))) w1"
    by simp
qed

lemma safe_upload:
  assumes known: "knows content q d i w (fm_path m) m" and w: "E sha q d i w w"
  shows "safe (E sha q d i) nothing (p_upload r m) w"
  unfolding p_upload_def
proof (rule E_pbind [OF safe_read [OF w] w])
  fix data w1 assume w1: "E sha q d i w w1" "E sha q d i w1 w1"
    and data: "normal_path (fm_path m) \<and> (fm_path m = q \<longrightarrow> data = d)"
  show "safe (E sha q d i) nothing
      (pbind (p_store S3 (be_put (backend_of r S3) (fm_path m) data)) (\<lambda>_.
       p_db (db_set_tier_bitmask (fm_id m) (bm_set S3 (fm_tier_bitmask m))))) w1"
  proof (rule E_pbind [OF safe_put w1(2)])
    show "normal_path (fm_path m)" "fm_path m = q \<Longrightarrow> data = d" using data by simp_all
    fix a w2 assume w2: "E sha q d i w1 w2"
    show "safe (E sha q d i) nothing (p_db (db_set_tier_bitmask (fm_id m) (bm_set S3 (fm_tier_bitmask m)))) w2"
    proof (rule safe_set_bitmask)
      assume "fm_id m = i"
      with knows_env [OF evolution.E_trans [OF w1(1) w2] known] replicated_copies(1) [OF E_rep [OF w2]]
      show "fits content q d w2 (bm_set S3 (fm_tier_bitmask m))"
        by (auto simp: knows_def at_most_def intro!: fits_bm(2))
    qed
  qed
qed

lemma safe_closing:
  "safe (E sha q d i) nothing (pignore (p_db (db_wal_complete k))) w"
  "safe (E sha q d i) nothing (pignore (p_db (db_wal_record_failure k e))) w"
  by (rule evolution.safe_pignore, rule safe_wal_ops)+

lemma safe_flush_entry:
  assumes w: "E sha q d i w w"
  shows "safe (E sha q d i) nothing (p_flush_entry r entry) w"
  unfolding p_flush_entry_def
proof (rule E_pbind [OF evolution.safe_pattempt [OF safe_get_by_id [of content tinv sha q d i]] w])
  fix got w1 assume w1: "E sha q d i w1 w1"
    and known: "\<forall>a. got = Inr a \<longrightarrow> (\<forall>x. a = Some x \<longrightarrow> knows content q d i w1 (fm_path x) x)"
  show "safe (E sha q d i) nothing
      (case got of
         Inl e \<Rightarrow> p_ok ()
       | Inr None \<Rightarrow> pignore (p_db (db_wal_complete (we_id entry)))
       | Inr (Some file_meta) \<Rightarrow>
           pbind (pattempt (p_upload r file_meta)) (\<lambda>result.
           case result of
             Inr _ \<Rightarrow> pignore (p_db (db_wal_complete (we_id entry)))
           | Inl e \<Rightarrow> pignore (p_db (db_wal_record_failure (we_id entry) (display_error e))))) w1"
    using known by (auto simp: safe_closing split: sum.splits option.splits
        intro!: E_then [OF safe_attempted [OF safe_upload [OF _ w1]] w1])
qed

lemma safe_for:
  assumes "\<And>x w. E sha q d i w w \<Longrightarrow> safe (E sha q d i) nothing (body x) w"
  shows "E sha q d i w w \<Longrightarrow> safe (E sha q d i) nothing (p_for body xs) w"
  by (induction xs arbitrary: w) (auto intro!: E_then assms)

lemma safe_flush:
  assumes w: "E sha q d i w w"
  shows "safe (E sha q d i) nothing (p_flush r) w"
  unfolding p_flush_def
  by (rule E_then [OF safe_attempted [OF safe_query [OF pending_same]] w])
    (auto split: sum.splits intro!: safe_for safe_flush_entry)

lemma safe_evict_files:
  "E sha q d i w w \<Longrightarrow> safe (E sha q d i) nothing (p_evict_files r t target fs freed) w"
proof (induction fs arbitrary: freed w)
  case (Cons f fs)
  then show ?case
    by (auto intro!: E_then [OF safe_attempted [OF safe_evict [OF Cons(2)]] Cons(2)] split: sum.splits)
qed simp

lemma safe_eviction_cycle:
  assumes w: "E sha q d i w w"
  shows "safe (E sha q d i) nothing (p_eviction_cycle r policy t wm) w"
  unfolding p_eviction_cycle_def
  by (rule E_then [OF safe_attempted [OF safe_query [OF tier_queries_same(1)]] w])
    (auto split: sum.splits intro!: E_then [OF safe_attempted [OF safe_query [OF tier_queries_same(2)]]]
      E_then [OF safe_quiet_ops(1)] evolution.safe_pignore safe_evict_files)

lemma safe_eviction_wakeup:
  assumes w: "E sha q d i w w"
  shows "safe (E sha q d i) nothing (p_eviction_wakeup r policy lwm nwm) w"
  unfolding p_eviction_wakeup_def by (rule E_then [OF safe_eviction_cycle [OF w] w safe_eviction_cycle])

lemma safe_mark_local:
  assumes w: "E sha q d i w w"
  shows "safe (E sha q d i) nothing (p_mark_local p) w"
  unfolding p_mark_local_def
proof (rule E_pbind [OF evolution.safe_pattempt [OF safe_get [of content tinv sha q d i p]] w])
  fix found :: "fvfs_error + file_metadata option" and w1 assume w1: "E sha q d i w1 w1"
    and known: "\<forall>a. found = Inr a \<longrightarrow> (case a of None \<Rightarrow> p \<noteq> q | Some x \<Rightarrow> knows content q d i w1 p x)"
  have "safe (E sha q d i) nothing (p_db (db_set_tier_bitmask (fm_id m) (bm_set Local (fm_tier_bitmask m)))) w1"
    if "knows content q d i w1 p m" for m
    by (rule safe_set_bitmask)
      (use that replicated_copies(2) [OF E_rep [OF w1]] in \<open>auto simp: knows_def intro!: fits_bm(2)\<close>)
  note marked = evolution.safe_pignore [OF this]
  consider e where "found = Inl e" | "found = Inr None" | m where "found = Inr (Some m)"
    by (metis option.exhaust sumE)
  then show "safe (E sha q d i) nothing (p_mark_found found) w1"
    by cases (use known marked in \<open>simp_all add: p_mark_found_def\<close>)
qed

lemma safe_promote:
  assumes w: "E sha q d i w w"
  shows "safe (E sha q d i) nothing (p_promote r p) w"
  unfolding p_promote_def
proof (rule E_pbind [OF evolution.safe_pattempt [OF safe_read [OF w]] w])
  fix got w1 assume w1: "E sha q d i w1 w1"
    and data: "\<forall>x. got = Inr x \<longrightarrow> normal_path p \<and> (p = q \<longrightarrow> x = d)"
  show "safe (E sha q d i) nothing
      (case got of
         Inl e \<Rightarrow> p_ok ()
       | Inr data \<Rightarrow>
           pbind (pattempt (p_store Local (be_put (rt_local r) p data))) (\<lambda>res.
           case res of Inl e \<Rightarrow> p_ok () | Inr _ \<Rightarrow> p_mark_local p)) w1"
    using data safe_put [of p q _ d sha i Local w1]
    by (auto split: sum.splits intro!: E_then [OF safe_attempted w1] safe_mark_local)
qed

lemma safe_promote_next:
  assumes w: "E sha q d i w w"
  shows "safe (E sha q d i) nothing (p_promote_next r) w"
  unfolding p_promote_next_def
  by (rule E_then [OF safe_quiet_ops(3) w]) (auto split: option.splits intro!: safe_promote)

end

end
