(* ===== verification/Task_Pool.thy ===== *)
theory Task_Pool
  imports Await_Points
begin

text \<open>
  The tasks of the daemon side by side, as tokio runs them (\<open>fvfsd/src/main.rs\<close>): requests and turns of
  the background loops are spawned at any time, and at every step one of the tasks does its next
  action. The pool allows more than the daemon does, several turns of one background loop at a time. The
  lemmas say that whatever the interleaving, a file whose row records a copy on S3 keeps its
  current version, and that is what every read of it returns, as long as no task that changes
  the file itself is spawned.
\<close>

section \<open>Tasks\<close>

datatype task =
    TWrite fvfs_path bytes
  | TMkdir fvfs_path
  | TRead fvfs_path
  | TDelete fvfs_path
  | TStat fvfs_path
  | TList fvfs_path
  | TFlush
  | TEvict
  | TPromote

datatype answer =
    Nothing
  | Bytes bytes
  | Meta file_metadata
  | Entries "file_entry list"

definition p_list :: "fvfs_path \<Rightarrow> ('b world, fvfs_error, file_entry list) async" where
  "p_list dir_path = pbind (p_db (db_list_dir dir_path)) (\<lambda>entries. p_ok (map entry_of_metadata entries))"

definition answering :: "('a \<Rightarrow> answer) \<Rightarrow> ('w, 'e, 'a) async \<Rightarrow> ('w, 'e, answer) async" where
  "answering f = map_prog (map_sum id f)"

fun task_prog ::
    "(bytes \<Rightarrow> string) \<Rightarrow> 'b tier_router \<Rightarrow> settings \<Rightarrow> task \<Rightarrow> ('b world, fvfs_error, answer) async" where
  "task_prog sha r cfg (TWrite p data) = answering (\<lambda>_. Nothing) (p_write sha r p data)"
| "task_prog sha r cfg (TMkdir p) = answering (\<lambda>_. Nothing) (p_mkdir p)"
| "task_prog sha r cfg (TRead p) = answering Bytes (p_read r p)"
| "task_prog sha r cfg (TDelete p) = answering (\<lambda>_. Nothing) (p_delete r p)"
| "task_prog sha r cfg (TStat p) = answering Meta (p_require_metadata p)"
| "task_prog sha r cfg (TList p) = answering Entries (p_list p)"
| "task_prog sha r cfg TFlush = answering (\<lambda>_. Nothing) (p_flush r)"
| "task_prog sha r cfg TEvict =
     answering (\<lambda>_. Nothing) (p_eviction_wakeup r (set_policy cfg) (set_local_wm cfg) (set_nas_wm cfg))"
| "task_prog sha r cfg TPromote = answering (\<lambda>_. Nothing) (p_promote_next r)"

fun task_normal :: "task \<Rightarrow> bool" where
  "task_normal (TWrite p data) = normal_path p"
| "task_normal (TMkdir p) = normal_path p"
| "task_normal (TDelete p) = normal_path p"
| "task_normal _ = True"

text \<open>The tasks that are meant to change what is stored at a path.\<close>

fun task_changes :: "fvfs_path \<Rightarrow> task \<Rightarrow> bool" where
  "task_changes q (TWrite p data) = (p = q)"
| "task_changes q (TMkdir p) = (p = q)"
| "task_changes q (TDelete p) = (p = q)"
| "task_changes q _ = False"

section \<open>The pool\<close>

record 'b pool =
  pool_world :: "'b world"
  running :: "(task \<times> ('b world, fvfs_error, answer) async) list"

definition pool_new :: "'b world \<Rightarrow> 'b pool" where
  "pool_new w = \<lparr> pool_world = w, running = [] \<rparr>"

definition spawn :: "(bytes \<Rightarrow> string) \<Rightarrow> 'b tier_router \<Rightarrow> settings \<Rightarrow> task \<Rightarrow> 'b pool \<Rightarrow> 'b pool" where
  "spawn sha r cfg t s = s\<lparr>running := running s @ [(t, task_prog sha r cfg t)]\<rparr>"

text \<open>The next action of the task with number \<open>k\<close>.\<close>

definition advance :: "nat \<Rightarrow> 'b pool \<Rightarrow> 'b pool" where
  "advance k s =
     (if k < length (running s)
      then case running s ! k of
             (t, Ret a) \<Rightarrow> s
           | (t, Act f) \<Rightarrow> (case f (pool_world s) of (p, w) \<Rightarrow> \<lparr> pool_world = w, running = (running s)[k := (t, p)] \<rparr>)
      else s)"

inductive pool_runs ::
    "(bytes \<Rightarrow> string) \<Rightarrow> 'b tier_router \<Rightarrow> settings \<Rightarrow> 'b pool \<Rightarrow> task list \<Rightarrow> 'b pool \<Rightarrow> bool"
  for sha r cfg where
  pool_idle: "pool_runs sha r cfg s [] s"
| pool_spawn: "\<lbrakk>task_normal t; pool_runs sha r cfg (spawn sha r cfg t s) ts s'\<rbrakk> \<Longrightarrow> pool_runs sha r cfg s (t # ts) s'"
| pool_advance: "pool_runs sha r cfg (advance k s) ts s' \<Longrightarrow> pool_runs sha r cfg s ts s'"

inductive_cases pool_runs_ConsE: "pool_runs sha r cfg s (t # ts) s'"

text \<open>A schedule that can be computed: which task moves next.\<close>

lemma pool_schedule: "pool_runs sha r cfg (fold advance ks s) ts s' \<Longrightarrow> pool_runs sha r cfg s ts s'"
  by (induction ks arbitrary: s) (auto intro: pool_advance)

lemma pool_spawn_all:
  "\<lbrakk>\<forall>t\<in>set ts. task_normal t; pool_runs sha r cfg (fold (spawn sha r cfg) ts s) us s'\<rbrakk> \<Longrightarrow>
   pool_runs sha r cfg s (ts @ us) s'"
  by (induction ts arbitrary: s) (auto intro: pool_spawn)

section \<open>Alone, a task is an operation\<close>

definition answered :: "('a \<Rightarrow> answer) \<Rightarrow> (fvfs_error + 'a) \<times> 'w \<Rightarrow> (fvfs_error + answer) \<times> 'w" where
  "answered f rw = (map_sum id f (fst rw), snd rw)"

lemma prun_answering [simp]: "prun (answering f p) w = answered f (prun p w)"
  by (cases "prun p w") (simp add: answering_def answered_def prun_map)

lemma prun_list: "prun (p_list p) = router_list p"
  by (simp add: p_list_def router_list_def)

text \<open>
  In a pool, a task that moves while the others wait does what the operation does, up to its end or up
  to a point inside.
\<close>

definition moves_to :: "'b pool \<Rightarrow> 'b world \<Rightarrow> nat \<Rightarrow> task \<times> ('b world, fvfs_error, answer) async \<Rightarrow> bool" where
  "moves_to s w k tp \<longleftrightarrow> (\<exists>ks. fold advance ks s = \<lparr> pool_world = w, running = (running s)[k := tp] \<rparr>)"

lemma advance_Act:
  assumes "k < length (running s)" "running s ! k = (t, Act f)" "f (pool_world s) = (p, w)"
  shows "advance k s = \<lparr> pool_world = w, running = (running s)[k := (t, p)] \<rparr>"
  using assms by (simp add: advance_def)

lemma moves_to_action:
  assumes "k < length (running s)" "running s ! k = (t, Act f)" "f (pool_world s) = (p, w1)"
    and "moves_to \<lparr> pool_world = w1, running = (running s)[k := (t, p)] \<rparr> w k tp"
  shows "moves_to s w k tp"
proof -
  obtain ks where "fold advance ks \<lparr> pool_world = w1, running = (running s)[k := (t, p)] \<rparr> =
      \<lparr> pool_world = w, running = (running s)[k := tp] \<rparr>" using assms(4) by (auto simp: moves_to_def)
  then have "fold advance (k # ks) s = \<lparr> pool_world = w, running = (running s)[k := tp] \<rparr>"
    using advance_Act [OF assms(1-3)] by simp
  then show ?thesis unfolding moves_to_def by blast
qed

lemma moves_to_here: "\<lbrakk>k < length (running s); running s ! k = tp\<rbrakk> \<Longrightarrow> moves_to s (pool_world s) k tp"
  unfolding moves_to_def by (rule exI [of _ "[]"]) (auto simp: list_update_same_conv)

lemma moves_to_end:
  assumes "k < length (running s)" "running s ! k = (t, p)" "prun p (pool_world s) = (r, w)"
  shows "moves_to s w k (t, Ret r)"
  using assms
proof (induction p arbitrary: s rule: prog_induct)
  case (Ret x)
  then show ?case using moves_to_here by fastforce
next
  case (Act f)
  obtain p w1 where run: "f (pool_world s) = (p, w1)" by fastforce
  show ?case
    by (rule moves_to_action [OF Act(2,3) run], rule Act(1) [OF run]) (use Act(2,4) run in simp_all)
qed

lemma moves_to_inside:
  assumes "k < length (running s)" "running s ! k = (t, pbind p g)" "prun p (pool_world s) = (Inr a, w)"
  shows "moves_to s w k (t, g a)"
  using assms
proof (induction p arbitrary: s rule: prog_induct)
  case (Ret x)
  then show ?case using moves_to_here by fastforce
next
  case (Act f)
  obtain p w1 where run: "f (pool_world s) = (p, w1)" by fastforce
  have at: "running s ! k = (t, Act (\<lambda>w. map_prod (\<lambda>p. pbind p g) id (f w)))" using Act(3) by simp
  have step: "map_prod (\<lambda>p. pbind p g) id (f (pool_world s)) = (pbind p g, w1)" using run by simp
  show ?case
    by (rule moves_to_action [OF Act(2) at step], rule Act(1) [OF run]) (use Act(2,4) run in simp_all)
qed

lemma answering_pbind: "answering f (pbind p g) = pbind p (\<lambda>a. answering f (g a))"
proof (induction p rule: prog_induct)
  case (Ret r)
  then show ?case by (cases r) (simp_all add: answering_def)
next
  case (Act h)
  have "map_prod (answering f) id (map_prod (\<lambda>p. pbind p g) id (h w)) =
      map_prod (\<lambda>p. pbind p (\<lambda>a. answering f (g a))) id (h w)" for w
    using Act by (cases "h w") simp
  then show ?case by (simp add: answering_def map_prog_Act fun_eq_iff)
qed

lemma pool_moves:
  assumes "moves_to s w k tp" "pool_runs sha r cfg \<lparr> pool_world = w, running = (running s)[k := tp] \<rparr> ts s'"
  shows "pool_runs sha r cfg s ts s'"
  using assms pool_schedule unfolding moves_to_def by metis

lemma pool_task_end:
  assumes "prun p w = (x, w')" "k < length ps" "ps ! k = (t, p)"
    and "pool_runs sha r cfg \<lparr> pool_world = w', running = ps[k := (t, Ret x)] \<rparr> ts s'"
  shows "pool_runs sha r cfg \<lparr> pool_world = w, running = ps \<rparr> ts s'"
  using pool_moves [OF moves_to_end] assms by (metis pool.select_convs)

lemma pool_task_inside:
  assumes "prun p w = (Inr a, w')" "k < length ps" "ps ! k = (t, pbind p g)"
    and "pool_runs sha r cfg \<lparr> pool_world = w', running = ps[k := (t, g a)] \<rparr> ts s'"
  shows "pool_runs sha r cfg \<lparr> pool_world = w, running = ps \<rparr> ts s'"
  using pool_moves [OF moves_to_inside] assms by (metis pool.select_convs)

lemma pool_start:
  assumes "\<forall>t\<in>set ts. task_normal t"
    and "pool_runs sha r cfg \<lparr> pool_world = w, running = map (\<lambda>t. (t, task_prog sha r cfg t)) ts \<rparr> [] s'"
  shows "pool_runs sha r cfg (pool_new w) ts s'"
proof -
  have "fold (spawn sha r cfg) ts s = s\<lparr>running := running s @ map (\<lambda>t. (t, task_prog sha r cfg t)) ts\<rparr>" for s
    by (induction ts arbitrary: s) (simp_all add: spawn_def)
  then have "fold (spawn sha r cfg) ts (pool_new w) =
      \<lparr> pool_world = w, running = map (\<lambda>t. (t, task_prog sha r cfg t)) ts \<rparr>" by (simp add: pool_new_def)
  with assms(2) pool_spawn_all [OF assms(1), of sha r cfg "pool_new w" "[]" s'] show ?thesis by simp
qed

section \<open>What a pool keeps\<close>

definition task_post :: "fvfs_path \<Rightarrow> bytes \<Rightarrow> task \<Rightarrow> answer \<Rightarrow> 'w \<Rightarrow> bool" where
  "task_post q d t a w \<longleftrightarrow> (\<forall>x. t = TRead q \<longrightarrow> a = Bytes x \<longrightarrow> x = d)"

definition pool_safe ::
    "(tier \<Rightarrow> 'b \<Rightarrow> fvfs_path \<Rightarrow> bytes option) \<Rightarrow> (tier \<Rightarrow> 'b \<Rightarrow> bool) \<Rightarrow> (bytes \<Rightarrow> string) \<Rightarrow>
     fvfs_path \<Rightarrow> bytes \<Rightarrow> i64 \<Rightarrow> 'b pool \<Rightarrow> bool" where
  "pool_safe content tinv sha q d i s \<longleftrightarrow>
     replicated content tinv sha q d i (pool_world s) \<and>
     (\<forall>(t, p)\<in>set (running s). safe (evolves content tinv sha q d i) (task_post q d t) p (pool_world s))"

lemma evolves_refl: "replicated content tinv sha q d i w \<Longrightarrow> evolves content tinv sha q d i w w"
  by (simp add: evolves_def)

text \<open>One task moves: its step respects the guarantee, which the others rely on.\<close>

lemma advance_safe:
  assumes s: "pool_safe content tinv sha q d i s"
  shows "pool_safe content tinv sha q d i (advance k s)"
proof (cases "k < length (running s) \<and> (\<exists>t f. running s ! k = (t, Act f))")
  case False
  then have "advance k s = s" by (auto simp: advance_def split: prod.splits prog.splits)
  with s show ?thesis by simp
next
  case True
  then obtain t f where k: "k < length (running s)" "running s ! k = (t, Act f)" by blast
  obtain p w where run: "f (pool_world s) = (p, w)" by fastforce
  have refl: "evolves content tinv sha q d i (pool_world s) (pool_world s)"
    using s by (simp add: pool_safe_def evolves_refl)
  have "(t, Act f) \<in> set (running s)" using k by (metis nth_mem)
  then have "safe (evolves content tinv sha q d i) (task_post q d t) (Act f) (pool_world s)"
    using s by (auto simp: pool_safe_def)
  from evolution.safe_step [OF this refl run]
  have step: "evolves content tinv sha q d i (pool_world s) w"
    "safe (evolves content tinv sha q d i) (task_post q d t) p w" by simp_all
  have others: "safe (evolves content tinv sha q d i) (task_post q d u) g w" if "(u, g) \<in> set (running s)" for u g
    using s that evolution.safe_env [OF _ step(1)] unfolding pool_safe_def by blast
  have "set ((running s)[k := (t, p)]) \<subseteq> insert (t, p) (set (running s))" by (rule set_update_subset_insert)
  then have "\<forall>(u, g)\<in>set ((running s)[k := (t, p)]). safe (evolves content tinv sha q d i) (task_post q d u) g w"
    using others step(2) by blast
  then show ?thesis using k run E_rep [OF step(1)] by (simp add: advance_def pool_safe_def)
qed

lemma safe_answering:
  assumes "safe (evolves content tinv sha q d i) Q p w" "\<And>x w'. Q x w' \<Longrightarrow> R (f x) w'"
  shows "safe (evolves content tinv sha q d i) R (answering f p) w"
  unfolding answering_def
  by (rule evolution.safe_map [OF assms(1)]) (use assms(2) in \<open>auto simp: map_sum_def split: sum.splits\<close>)

lemma safe_silent:
  assumes "safe (evolves content tinv sha q d i) nothing p w" "t \<noteq> TRead q"
  shows "safe (evolves content tinv sha q d i) (task_post q d t) (answering f p) w"
  by (rule safe_answering [OF assms(1)]) (simp add: task_post_def assms(2))

context tier_stack
begin

lemma safe_task:
  assumes w: "E sha q d i w w" and t: "task_normal t" "\<not> task_changes q t"
  shows "safe (E sha q d i) (task_post q d t) (task_prog sha' r cfg t) w"
proof -
  have list: "safe (E sha q d i) nothing (p_list p) w" for p
    unfolding p_list_def by (rule E_then [OF safe_query w]) (auto dest: list_dir_same)
  show ?thesis
  proof (cases t)
    case (TRead p)
    show ?thesis unfolding TRead task_prog.simps
      by (rule safe_answering [OF safe_read [OF w]]) (simp add: task_post_def)
  next
    case (TStat p)
    show ?thesis unfolding TStat task_prog.simps
      by (rule safe_answering [OF safe_require_metadata [OF w]]) (simp add: task_post_def)
  qed (use t in \<open>simp_all add: safe_silent safe_write [OF _ _ w] safe_mkdir [OF _ _ w] safe_delete [OF _ w] list
      safe_flush [OF w] safe_eviction_wakeup [OF w] safe_promote_next [OF w]\<close>)
qed

lemma spawn_safe:
  assumes s: "pool_safe content tinv sha q d i s" and t: "task_normal t" "\<not> task_changes q t"
  shows "pool_safe content tinv sha q d i (spawn sha' r cfg t s)"
  using s safe_task [OF evolves_refl t] by (auto simp: pool_safe_def spawn_def)

lemma pool_runs_safe:
  "\<lbrakk>pool_runs sha' r cfg s ts s'; pool_safe content tinv sha q d i s; \<forall>t\<in>set ts. \<not> task_changes q t\<rbrakk> \<Longrightarrow>
   pool_safe content tinv sha q d i s'"
  by (induction rule: pool_runs.induct) (auto intro: spawn_safe advance_safe)

lemma pool_keeps_replicated:
  assumes run: "pool_runs sha' r cfg (pool_new w) ts s" and quiet: "\<forall>t\<in>set ts. \<not> task_changes q t"
    and w: "ok w" "holds content sha w q d" "row_of (wdb w) q = Some row" "bm_has (row_bm row) S3"
  shows "ok (pool_world s)" "holds content sha (pool_world s) q d" "copy (pool_world s) S3 q = Some d"
    and "(TRead q, Ret (Inr (Bytes x))) \<in> set (running s) \<Longrightarrow> x = d"
proof -
  have "pool_safe content tinv sha q d (r_id row) (pool_new w)"
    using w by (simp add: pool_safe_def pool_new_def replicated_def)
  from pool_runs_safe [OF run this quiet]
  have safe: "pool_safe content tinv sha q d (r_id row) s" .
  then have rep: "replicated content tinv sha q d (r_id row) (pool_world s)" by (simp add: pool_safe_def)
  then show "ok (pool_world s)" "holds content sha (pool_world s) q d" by (simp_all add: replicated_def)
  from replicated_copies(1) [OF rep] show "copy (pool_world s) S3 q = Some d" .
  assume "(TRead q, Ret (Inr (Bytes x))) \<in> set (running s)"
  with safe have "safe (evolves content tinv sha q d (r_id row)) (task_post q d (TRead q)) (Ret (Inr (Bytes x))) (pool_world s)"
    by (auto simp: pool_safe_def)
  with evolves_refl [OF rep] show "x = d" by (auto simp: task_post_def)
qed

end

end
