(* ===== verification/Pool_Invariant.thy ===== *)
theory Pool_Invariant
  imports Task_Pool
begin

text \<open>
  What every interleaving keeps, whatever the tasks do: the database stays well-formed and the stores
  keep their invariants. Every program of \<open>Await_Programs\<close> keeps \<open>world_ok\<close> action by action, so the other
  tasks may run between any two of its actions.
\<close>

section \<open>Programs\<close>

lemma recv_signal_keeps [preserves_intros]:
  assumes "\<And>w q. I (w\<lparr>promote_q := q\<rparr>) = I w"
  shows "preserves I recv_signal"
  by (rule preservesI) (auto simp: recv_signal_def assms split: list.splits)

context tier_stack
begin

lemma keeping_quiet [keeping_intros]:
  "keeping ok anything (atomic now_unix)"
  "keeping ok anything (atomic (send_promote s))"
  "keeping ok anything (atomic recv_signal)"
  by (intro keeping_action preserves_intros; simp)+

lemma keeping_db [keeping_intros]: "preserves db_wf m \<Longrightarrow> keeping ok anything (p_db m)"
  by (intro keeping_action preserves_on_db)

lemmas keeping_ok_intros = keeping_intros preserves_intros store_ok world_ok_sel

lemma keeping_get: "keeping ok (\<lambda>m. m \<noteq> None \<longrightarrow> normal_path p) (p_db (db_get p))"
proof (rule keeping_atomic)
  show "preserves ok (on_db (db_get p))" by (intro preserves_intros)
  fix w m w' assume w: "ok w" and "on_db (db_get p) w = (Inr m, w')"
  then obtain d where run: "db_get p (wdb w) = (Inr m, d)" by (auto simp: on_db_run)
  then show "m \<noteq> None \<longrightarrow> normal_path p"
    using db_get_run(2) [OF run refl] w by (auto simp: world_ok_def dest: row_of_normal)
qed

lemma keeping_get_by_id: "keeping ok (\<lambda>m. \<forall>x. m = Some x \<longrightarrow> normal_path (fm_path x)) (p_db (db_get_by_id k))"
proof (rule keeping_atomic)
  show "preserves ok (on_db (db_get_by_id k))" by (intro preserves_intros)
  fix w m w' assume w: "ok w" and "on_db (db_get_by_id k) w = (Inr m, w')"
  then obtain d where run: "db_get_by_id k (wdb w) = (Inr m, d)" by (auto simp: on_db_run)
  have wf: "db_wf (wdb w)" using w by (simp add: world_ok_def)
  show "\<forall>x. m = Some x \<longrightarrow> normal_path (fm_path x)"
    using db_get_by_id_Some [OF wf] run row_of_normal [OF wf] by metis
qed

lemma keeping_add_parent: "normal_path p \<Longrightarrow> keeping ok anything (p_add_parent p)"
  unfolding p_add_parent_def by (intro keeping_ok_intros) (simp add: new_dir_def)

lemma keeping_ensure_parent_dirs: "normal_path p \<Longrightarrow> keeping ok anything (p_ensure_parent_dirs p)"
proof (induction p rule: p_ensure_parent_dirs.induct)
  case (1 p)
  have "normal_path parent" if "path_parent p = Some parent" for parent
    using path_parent_shorter [OF 1(2)] 1(2) that by (auto simp: path_parent_refines split: if_splits)
  then show ?case unfolding p_ensure_parent_dirs.simps [of p]
    by (intro keeping_intros keeping_add_parent 1(1))
qed

lemma keeping_enqueue: "keeping ok anything (p_enqueue k op)"
  unfolding p_enqueue_def by (intro keeping_ok_intros)

lemma keeping_write: "normal_path p \<Longrightarrow> keeping ok anything (p_write sha r p data)"
  unfolding p_write_def using store_ok(1) [of p Local data]
  by (intro keeping_ok_intros keeping_ensure_parent_dirs keeping_enqueue) simp_all

lemma keeping_mkdir: "normal_path p \<Longrightarrow> keeping ok anything (p_mkdir p)"
  unfolding p_mkdir_def by (intro keeping_ok_intros keeping_ensure_parent_dirs) (simp_all add: new_dir_def)

lemma keeping_require_metadata: "keeping ok (\<lambda>_. normal_path p) (p_require_metadata p)"
  unfolding p_require_metadata_def by (rule keeping_pbind [OF keeping_get]) (auto intro!: keeping_intros)

lemma keeping_read_tiers:
  assumes "normal_path p"
  shows "keeping ok anything (p_read_tiers r p bm)"
proof -
  have promote: "keeping ok anything (p_get_and_promote r t p)" for t
    unfolding p_get_and_promote_def by (intro keeping_ok_intros assms)
  have colder: "keeping ok anything (p_read_from_nas_or_s3 r p bm)"
    unfolding p_read_from_nas_or_s3_def by (intro keeping_intros promote)
  show ?thesis unfolding p_read_tiers_def using store_ok(2) [OF assms, of Local]
    by (intro keeping_intros promote colder) simp
qed

lemma keeping_read: "keeping ok (\<lambda>_. normal_path p) (p_read r p)"
  unfolding p_read_def
proof (rule keeping_pbind [OF keeping_require_metadata])
  fix m assume p: "normal_path p"
  have touch: "keeping ok anything (p_touch k)" for k
    unfolding p_touch_def by (intro keeping_ok_intros)
  show "keeping ok (\<lambda>_. normal_path p) (p_read_rest r p m)"
    unfolding p_read_rest_def by (intro keeping_intros keeping_read_tiers touch p)
qed

lemma keeping_delete: "keeping ok anything (p_delete r p)"
  unfolding p_delete_def
proof (rule keeping_pbind [OF keeping_require_metadata])
  fix m assume p: "normal_path p"
  have "keeping ok anything (p_delete_copy r p bm t)" for bm t
    unfolding p_delete_copy_def by (intro keeping_intros store_ok(3) p)
  then show "keeping ok anything (pbind (p_delete_copy r p (fm_tier_bitmask m) Local) (\<lambda>_.
      pbind (p_delete_copy r p (fm_tier_bitmask m) Nas) (\<lambda>_.
      pbind (p_delete_copy r p (fm_tier_bitmask m) S3) (\<lambda>_. p_db (db_delete p)))))"
    by (intro keeping_ok_intros)
qed

lemma keeping_evict: "keeping ok anything (p_evict r p t)"
  unfolding p_evict_def
  by (rule keeping_pbind [OF keeping_require_metadata]) (intro keeping_ok_intros)

lemma keeping_list: "keeping ok anything (p_list p)"
  unfolding p_list_def by (intro keeping_ok_intros)

section \<open>Background tasks\<close>

lemma keeping_upload: "keeping ok anything (p_upload r m)"
  unfolding p_upload_def by (rule keeping_pbind [OF keeping_read]) (intro keeping_ok_intros)

lemma keeping_flush_entry: "keeping ok anything (p_flush_entry r entry)"
  unfolding p_flush_entry_def by (intro keeping_ok_intros keeping_upload)

lemma keeping_flush: "keeping ok anything (p_flush r)"
proof -
  have "keeping ok anything (p_for (p_flush_entry r) entries)" for entries
    by (induction entries) (auto intro!: keeping_intros keeping_flush_entry)
  then show ?thesis unfolding p_flush_def by (intro keeping_ok_intros)
qed

lemma keeping_evict_files: "keeping ok anything (p_evict_files r t target fs freed)"
  by (induction fs arbitrary: freed) (auto intro!: keeping_intros keeping_evict)

lemma keeping_eviction_wakeup: "keeping ok anything (p_eviction_wakeup r policy lwm nwm)"
  unfolding p_eviction_wakeup_def p_eviction_cycle_def by (intro keeping_ok_intros keeping_evict_files)

lemma keeping_promote_next: "keeping ok anything (p_promote_next r)"
proof -
  have mark: "keeping ok anything (p_mark_local p)" for p
    unfolding p_mark_local_def p_mark_found_def by (intro keeping_ok_intros)
  have "keeping ok anything (p_promote r p)" for p
    unfolding p_promote_def
  proof (rule keeping_pbind [OF keeping_pattempt [OF keeping_read]])
    fix got :: "fvfs_error + bytes" assume p: "\<forall>x. got = Inr x \<longrightarrow> normal_path p"
    show "keeping ok anything
        (case got of
           Inl e \<Rightarrow> p_ok ()
         | Inr data \<Rightarrow>
             pbind (pattempt (p_store Local (be_put (rt_local r) p data))) (\<lambda>res.
             case res of Inl e \<Rightarrow> p_ok () | Inr _ \<Rightarrow> p_mark_local p))"
      using p store_ok(1) [of p Local] by (auto intro!: keeping_intros mark)
  qed
  then show ?thesis unfolding p_promote_next_def by (intro keeping_intros)
qed

end

section \<open>The pool\<close>

definition pool_keeping :: "('b world \<Rightarrow> bool) \<Rightarrow> 'b pool \<Rightarrow> bool" where
  "pool_keeping I s \<longleftrightarrow> I (pool_world s) \<and> (\<forall>(t, p)\<in>set (running s). keeping I anything p)"

lemma advance_keeping:
  assumes "pool_keeping I s"
  shows "pool_keeping I (advance k s)"
proof (cases "k < length (running s) \<and> (\<exists>t f. running s ! k = (t, Act f))")
  case False
  then have "advance k s = s" by (auto simp: advance_def split: prod.splits prog.splits)
  with assms show ?thesis by simp
next
  case True
  then obtain t f where k: "k < length (running s)" "running s ! k = (t, Act f)" by blast
  obtain p w where run: "f (pool_world s) = (p, w)" by fastforce
  have "(t, Act f) \<in> set (running s)" using k by (metis nth_mem)
  with assms have "I w" "keeping I anything p"
    using keeping_step [of I anything f "pool_world s" p w, OF _ _ run] by (auto simp: pool_keeping_def)
  moreover have "set ((running s)[k := (t, p)]) \<subseteq> insert (t, p) (set (running s))" by (rule set_update_subset_insert)
  ultimately show ?thesis using assms advance_Act [OF k run] by (auto simp: pool_keeping_def)
qed

lemma keeping_answering: "keeping I anything p \<Longrightarrow> keeping I anything (answering f p)"
  unfolding answering_def by (rule keeping_map) simp_all

context tier_stack
begin

lemma keeping_task: "task_normal t \<Longrightarrow> keeping ok anything (task_prog sha r cfg t)"
  using keeping_read keeping_require_metadata
  by (cases t) (auto intro!: keeping_answering keeping_write keeping_mkdir keeping_delete keeping_list keeping_flush
      keeping_eviction_wakeup keeping_promote_next intro: keeping_weaken)

lemma pool_runs_keeping: "\<lbrakk>pool_runs sha r cfg s ts s'; pool_keeping ok s\<rbrakk> \<Longrightarrow> pool_keeping ok s'"
proof (induction rule: pool_runs.induct)
  case (pool_spawn t s ts s')
  then show ?case using keeping_task [OF pool_spawn(1), of sha cfg] by (auto simp: pool_keeping_def spawn_def)
qed (auto intro: advance_keeping)

lemma pool_keeps_ok: "\<lbrakk>pool_runs sha r cfg (pool_new w) ts s; ok w\<rbrakk> \<Longrightarrow> ok (pool_world s)"
  using pool_runs_keeping by (fastforce simp: pool_keeping_def pool_new_def)

end

end
