(* ===== verification/Spec2Isabelle.thy ===== *)
theory Spec2Isabelle
  imports Daemon_Main Bench_Setup Pool_Invariant
begin

text \<open>
  Verification of fvfs, a file system of three storage tiers: a daemon (\<open>fvfsd\<close>) keeps files on a
  local disk, a NAS and S3 under one name space with an SQLite index, and serves them over HTTP and
  FUSE; a client (\<open>fvfsc\<close>) reaches it over HTTP and can mount it with a local cache. This header
  describes the parts and where they are modelled, what is shown, and what is left out.

  \<^bold>\<open>The program.\<close> A write goes to the local tier, then its row goes into the database and two
  write-ahead-log (WAL) entries ask for a copy on the NAS and on S3. The uploader serves the S3
  entries, a start-up replay serves all of them. The eviction task removes copies of cold files from
  tiers above their high watermark; a read from a colder tier sends a signal to the promotion
  task, which brings the file back to the local tier. The row of a file has a bitmask of the tiers that hold
  it. The HTTP server and the FUSE session are two front ends of the same router.

  \<^bold>\<open>Theories and sources.\<close>
  \<^item> \<open>Prelude\<close>, \<open>Rust_Std\<close>, \<open>Rust_Fmt\<close>, \<open>Float64\<close>, \<open>Fs_Tree\<close>: what the sources use of Rust's
    standard library. Integers at their width, operations as functions from a state to a result and
    a state (\<open>andThen\<close> is \<open>?\<close>), strings as UTF-8 bytes, printing, IEEE binary64, the file system
    calls on a tree with a schedule of failing and torn calls.
  \<^item> \<open>Fvfs_Error\<close>, \<open>Fvfs_Path\<close>, \<open>Tiers\<close>, \<open>Fvfs_Types\<close>: \<open>fvfs-core/src/error.rs\<close> and \<open>types.rs\<close>. Errors
    with their texts, normalised paths, the tier bitmask as a byte, the shared records.
  \<^item> \<open>Metadata_Store\<close>, \<open>Metadata_Laws\<close>, \<open>Directory_Listing\<close>: \<open>fvfs-core/src/metadata.rs\<close>. The tables
    of \<open>SCHEMA_SQL\<close> as lists of rows, every method as the effect of its SQL statement, a schedule of
    failing statements; then what the methods do to the map from paths to rows.
  \<^item> \<open>Storage_Backend\<close>, \<open>Local_Disk\<close>, \<open>S3_Backend\<close>: \<open>fvfs-core/src/backend/\<close>. The trait as a record of
    operations, its contract as locales, and the backends that satisfy it.
  \<^item> \<open>Eviction_Policy\<close>: \<open>fvfs-core/src/eviction.rs\<close>. \<open>Config\<close>: \<open>fvfs-core/src/config.rs\<close>.
  \<^item> \<open>Tier_Router\<close>, \<open>Tier_Coherence\<close>, \<open>Tier_Liveness\<close>: \<open>fvfsd/src/router.rs\<close>. The record \<open>world\<close>
    is the state of the daemon: database, three stores, promotion queue, clock. \<open>holds\<close> is the
    abstract specification, the current version of a path; the locales \<open>tier_stack\<close> (whatever
    fails) and \<open>live_stack\<close> (while nothing fails) are the interface between the router and its backends.
  \<^item> \<open>Wal_Replay\<close>, \<open>S3_Uploader\<close>, \<open>Uploader_Progress\<close>, \<open>Eviction_Task\<close>, \<open>Eviction_Progress\<close>,
    \<open>Promotion\<close>: the background work (\<open>wal_replay.rs\<close>, \<open>s3_uploader.rs\<close>, \<open>eviction_task.rs\<close>, the task
    in \<open>main.rs\<close>), each with what it keeps and, where it has one, the goal it reaches.
  \<^item> \<open>Daemon\<close>, \<open>Daemon_Steps\<close>: the router as \<open>run_serve\<close> wires it, interpretations of the locales on
    it, and the step relation of requests, database queries and background work. \<open>Interleavings\<close>: the
    second halves of an upload, a promotion, an eviction and a write, for writes that come in between.
  \<^item> \<open>Resumption\<close>, \<open>Await_Programs\<close>, \<open>Await_Points\<close>, \<open>Task_Pool\<close>, \<open>Pool_Invariant\<close>: the same requests and background
    work at the grain of their \<open>await\<close>s. A program is a tree of actions; a pool of tasks does one action
    of one task per step. \<open>prun\<close> of a program is the operation of the theories above. What every
    action guarantees to the other tasks is the relation \<open>evolves\<close>, an interpretation of the
    locale \<open>environment\<close>; \<open>safe\<close> says that a program respects it, \<open>keeping\<close> that it keeps an invariant.
  \<^item> \<open>Inode_Table\<close>, \<open>Fuse_Common\<close>, \<open>Daemon_Fuse\<close>: \<open>fvfsd/src/fuse_handler.rs\<close>. \<open>Http_Api\<close>:
    \<open>fvfsd/src/http_api.rs\<close>. \<open>Migrate\<close>: \<open>fvfsd/src/migrate.rs\<close>.
  \<^item> \<open>Daemon_Process\<close>, \<open>Daemon_Main\<close>: \<open>fvfsd/src/main.rs\<close>. Start-up, the process with its server,
    session and loops as a step relation, and the command line.
  \<^item> \<open>Http_Client\<close>, \<open>Local_Cache\<close>, \<open>Client_Fuse\<close>, \<open>Client_Cli\<close>: \<open>fvfsc/src/\<close>, with the locale
    \<open>http_link\<close> for what the client relies on between itself and the daemon. \<open>Mdns\<close>:
    \<open>fvfsd/src/mdns_server.rs\<close> and \<open>fvfsc/src/mdns_client.rs\<close>.
  \<^item> \<open>Bench_Setup\<close>: \<open>fvfs-bench/src/setup.rs\<close>.
  \<^item> This theory: a concrete daemon for the witnesses, and the properties that span components.

  \<^bold>\<open>What is shown.\<close> Safety under failures: across any sequence of steps with any failing statement,
  disk call or request, the current version of a file survives and is what a successful read
  returns, through the router, FUSE, HTTP, the command line and the client's cache; the
  database stays well-formed; a restart with its replay loses nothing. With tasks that interleave at
  every \<open>await\<close>, the database stays well-formed, and the current version survives of every file whose row records a copy on S3
  (\<open>interleaved_tasks_keep_replicated_file\<close>), and not of the others (\<open>unreplicated_file_lost\<close>). Progress without
  failures: reads succeed, eviction reaches its watermark, a new file reaches S3, replay ends, paging
  through a directory ends. Behaviour of each component: paths, bitmasks, scores and ranking, the
  database methods, listings, the byte ranges of FUSE reads and writes, inode numbers, hashing in
  chunks, migration. And exact statements of what the code does where it goes wrong: overwritten
  files are never replicated (\<open>overwrite_not_replicated\<close>), a transient error inside a FUSE write or a
  torn cache file loses data, an upload, a promotion, an eviction or a write that a write overtakes
  loses the write or mixes the two.

  \<^bold>\<open>Hypotheses.\<close> S3 behaves as Amazon documents (\<open>s3_service\<close>; \<open>s3_live_service\<close> and
  \<open>s3_writable_service\<close> while it is up); a failing \<open>write_all\<close> on a tier's disk leaves nothing of the
  new bytes (\<open>reliable_disk\<close>) where a property says so; an HTTP request that is answered was handled
  once (\<open>http_link\<close>). Every locale is interpreted on the model's own definitions, the S3 ones on an
  object store in memory. SHA-256 is an arbitrary function. The schedules of failures and the readings
  of the clock are arbitrary.

  \<^bold>\<open>Bounds.\<close> Replay makes at most ten attempts per entry, by recursion on the attempts left. The
  listing of S3 is a \<open>partial_function\<close>: a service that never stops paging gives \<open>None\<close>. The other loops
  are recursive over their data and total. The turns of the daemon's endless loops are steps.

  \<^bold>\<open>Not modelled.\<close> The libraries: SQL, TOML, HTTP, FUSE, mDNS, the AWS SDK and the argument parser are
  parameters or represented by their documented effect. Logging, socket binding, threads, panics of
  \<open>spawn_blocking\<close> closures and the timing harnesses of the benchmarks are left out. In
  \<open>Daemon_Steps\<close> the operations of the router are steps as wholes. In \<open>Task_Pool\<close> a call of a backend and a
  method of the metadata store, which holds the lock of the connection, are one action each, and the
  deletes of one request on the three tiers have a fixed order. One ranking for eviction reads the clock once.
  Configured directories are resolved without \<open>..\<close>, file names of the host are UTF-8 text, there are
  no links and no other program changes the disks. \<open>create_dir_all\<close> of the directory of the database
  file, whose result the code ignores, is outside the modelled disks. The client's copies of the
  inode table's and the attributes' code are the daemon's, modelled once; the
  debug form of a string leaves non-ASCII characters as they are.
\<close>

section \<open>A concrete daemon\<close>

text \<open>
  The daemon of the witnesses: empty disks, an empty bucket in memory, a database without faults,
  a clock that advances by a second per reading.
\<close>

definition demo_world :: "(disk \<times> mem_objects) world" where
  "demo_world =
     \<lparr> wdb = db_open (\<lambda>_. None), stores = (\<lambda>_. (empty_disk, \<lambda>_ _. None)), promote_q = [],
       clock = (\<lambda>n. 1000 + int n), ticks = 0 \<rparr>"

definition demo_s3 :: "mem_objects s3" where
  "demo_s3 = s3_new mem_client ''bucket'' ''fvfs''"

definition demo_router :: "(disk \<times> mem_objects) tier_router" where
  "demo_router = serve_router [''local''] [''nas''] demo_s3"

definition demo_sha :: "bytes \<Rightarrow> string" where
  "demo_sha d = (if d = [] then ''e3b0'' else if d = [3] then ''084f'' else ''ca97'')"

definition demo_settings :: settings where
  "demo_settings =
     \<lparr> set_policy = arc_default, set_local_wm = \<lparr> high_bytes = 1, low_bytes = 0 \<rparr>,
       set_nas_wm = \<lparr> high_bytes = 1, low_bytes = 0 \<rparr>, set_flush_size = 0 \<rparr>"

abbreviation demo_path :: fvfs_path where
  "demo_path \<equiv> FvfsPath ''/a''"

abbreviation demo_content :: "tier \<Rightarrow> disk \<times> mem_objects \<Rightarrow> fvfs_path \<Rightarrow> bytes option" where
  "demo_content \<equiv> serve_content [''local''] [''nas''] demo_s3 (\<lambda>s. s)"

definition demo_written :: "(disk \<times> mem_objects) world" where
  "demo_written = snd (router_write demo_sha demo_router demo_path [1, 2] demo_world)"

definition demo_flushed :: "(disk \<times> mem_objects) world" where
  "demo_flushed = flush_pending demo_router 0 demo_written"

lemma demo_live: "s3_live_service (s3_client demo_s3) (\<lambda>s. s) (\<lambda>_. True)"
  using mem_live.s3_live_service_axioms by (simp add: demo_s3_def s3_new_def)

lemmas demo_service = s3_live_service.axioms(1) [OF demo_live]

lemma demo_ok: "world_ok serve_inv demo_world"
  by (simp add: world_ok_def demo_world_def serve_inv_def db_wf_open disk_ok_def no_torn_def
      empty_disk_def dir_at_def)

lemma demo_normal: "normal_path demo_path"
  by code_simp

lemma demo_write_run: "router_write demo_sha demo_router demo_path [1, 2] demo_world = (Inr (), demo_written)"
  unfolding demo_written_def by (rule run_result) code_simp

lemma demo_write_step:
  "step demo_sha demo_router demo_settings demo_world (EvWrite demo_path [1, 2] (Inr ())) demo_written"
  using demo_normal demo_write_run by (rule step_write)

lemma demo_runs: "runs demo_sha demo_router demo_settings demo_written [EvFlush] demo_flushed"
  using step_flush [of demo_sha demo_router demo_settings demo_written]
  by (auto intro!: runs.intros simp: demo_settings_def demo_flushed_def)

lemma demo_stack: "tier_stack demo_router demo_content serve_inv"
  unfolding demo_router_def by (rule serve_stack [OF demo_service])

lemma demo_holds: "world_ok serve_inv demo_written" "holds demo_content demo_sha demo_written demo_path [1, 2]"
  using tier_stack.step_ok [OF demo_stack demo_write_step demo_ok]
    tier_stack.write_new_version(1) [OF demo_stack demo_write_run demo_ok demo_normal] .

section \<open>Reads, writes and the background tasks\<close>





text \<open>
  The invariants of the stored state are kept by everything the daemon does, in any order and
  with any failures: rows with unique ids and unique normal paths, valid flags and bitmasks, WAL rows
  that refer to existing files, disks with a root directory.
\<close>

theorem daemon_keeps_invariants:
  assumes "s3_service (s3_client b) objs" "world_ok serve_inv w"
    and "runs sha (serve_router lp np b) cfg w evs w'"
  shows "db_wf (wdb w') \<and> (\<forall>t. serve_inv t (stores w' t))"
  using tier_stack.runs_ok [OF serve_stack [OF assms(1)] assms(3,2)] by (simp add: world_ok_def)

theorem daemon_keeps_invariants_witness: "db_wf (wdb demo_flushed) \<and> (\<forall>t. serve_inv t (stores demo_flushed t))"
  using daemon_keeps_invariants [OF demo_service demo_holds(1)] demo_runs unfolding demo_router_def by blast

text \<open>
  C4: when the database, the disks and S3 are up and every copy a row names is there, a read of a
  file succeeds, whatever tier it is on.
\<close>

theorem read_succeeds_when_up:
  assumes "s3_live_service (s3_client b) objs s3up" "world_ok serve_inv w" "all_up (serve_up s3up) w"
    and "intact (serve_content lp np b objs) w p" "holds (serve_content lp np b objs) sha w p d"
  shows "\<exists>w'. router_read (serve_router lp np b) p w = (Inr d, w')"
  using live_stack.read_live [OF serve_live [OF assms(1)] assms(2-5)] .

lemma demo_up: "all_up (serve_up (\<lambda>_. True)) demo_written"
proof -
  have "sql_fault (wdb demo_written) n = None" for n by code_simp
  moreover have "io_fault (fst (stores demo_written Local)) n k = None"
    "io_fault (fst (stores demo_written Nas)) n k = None" "io_fault (fst (stores demo_written S3)) n k = None" for n k
    by code_simp+
  then have "io_fault (fst (stores demo_written t)) n k = None" for t n k by (cases t) simp_all
  ultimately have "no_sql_fault (wdb demo_written)" "no_io_fault (fst (stores demo_written t))" for t
    by (simp_all add: no_sql_fault_def no_io_fault_def)
  then have "serve_up (\<lambda>_. True) t (stores demo_written t)" for t by (cases t) simp_all
  with \<open>no_sql_fault (wdb demo_written)\<close> show ?thesis by (simp add: all_up_def)
qed

lemma demo_intact: "intact demo_content demo_written demo_path"
proof -
  have "holds demo_content demo_sha demo_written demo_path [1, 2]" by (rule demo_holds)
  moreover have "case row_of (wdb demo_written) demo_path of Some row \<Rightarrow> \<not> bm_has (row_bm row) S3 | None \<Rightarrow> False"
    by code_simp
  ultimately show ?thesis by (fastforce simp: holds_def intact_def copies_ok_def)
qed

lemma demo_rows:
  "map (\<lambda>row. (r_path row, r_size_bytes row, r_is_dir row)) (files (wdb demo_written)) = [(''/a'', 2, 0), (''/'', 0, 1)]"
  by code_simp

lemma demo_intact_all: "intact demo_content demo_written p"
proof (cases "p = demo_path")
  case False
  have "r_is_dir row = 1" if "row_of (wdb demo_written) p = Some row" for row
    using row_of_SomeD [OF that] demo_rows False by (auto simp: map_eq_Cons_conv)
  then show ?thesis by (auto simp: intact_def)
qed (simp add: demo_intact)

theorem read_succeeds_when_up_witness: "\<exists>w'. router_read demo_router demo_path demo_written = (Inr [1, 2], w')"
  using read_succeeds_when_up [OF demo_live demo_holds(1) demo_up demo_intact demo_holds(2)]
  by (simp add: demo_router_def)

text \<open>
  C5: an eviction cycle of a tier reaches its goal: when everything is up, the tier ends at or below
  its low watermark, or it was not above the high one and is left alone, or no file is left on it
  that may be evicted.
\<close>

theorem eviction_reaches_goal:
  assumes "s3_live_service (s3_client b) objs s3up" "world_ok serve_inv w" "all_up (serve_up s3up) w"
    and "sized (wdb w)" "\<And>p. intact (serve_content lp np b objs) w p" "tier_bytes t (wdb w) < 2 ^ 63"
  shows "let w' = run_eviction_cycle (serve_router lp np b) policy t wm w in
    tier_bytes t (wdb w') \<le> int (unat (low_bytes wm)) \<or>
    tier_bytes t (wdb w') = tier_bytes t (wdb w) \<and> tier_bytes t (wdb w) \<le> int (unat (high_bytes wm)) \<or>
    (\<forall>p row. \<not> evictable t w' p row)"
  using live_stack.eviction_cycle_goal [OF serve_live [OF assms(1)] assms(2-6)] .

theorem eviction_reaches_goal_witness:
  "let w' = run_eviction_cycle demo_router arc_default Local \<lparr> high_bytes = 1, low_bytes = 0 \<rparr> demo_written in
    tier_bytes Local (wdb w') \<le> 0 \<or>
    tier_bytes Local (wdb w') = 2 \<and> tier_bytes Local (wdb demo_written) \<le> 1 \<or>
    (\<forall>p row. \<not> evictable Local w' p row)"
proof -
  have "sized (wdb demo_written)" "tier_bytes Local (wdb demo_written) = 2"
    using demo_rows by (auto simp: sized_def map_eq_Cons_conv) code_simp
  then show ?thesis
    using eviction_reaches_goal [OF demo_live demo_holds(1) demo_up, of "[''local'']" "[''nas'']" Local arc_default
        "\<lparr> high_bytes = 1, low_bytes = 0 \<rparr>"] demo_intact_all
    by (simp add: demo_router_def Let_def)
qed

text \<open>
  C16: a write that returns \<open>Ok\<close> has committed: the file is the current version with its size and
  digest in its row, and every ancestor directory exists.
\<close>

theorem write_commits:
  assumes "s3_service (s3_client b) objs" "world_ok serve_inv w" "normal_path p"
    and "router_write sha (serve_router lp np b) p data w = (Inr (), w')"
  shows "holds (serve_content lp np b objs) sha w' p data \<and>
    (\<forall>k < length (segs p). row_of (wdb w') (of_segs (take k (segs p))) \<noteq> None)"
  using tier_stack.write_new_version [OF serve_stack [OF assms(1)] assms(4,2,3)] by simp

theorem write_commits_witness:
  "holds demo_content demo_sha demo_written demo_path [1, 2] \<and> row_of (wdb demo_written) root_path \<noteq> None"
proof -
  have "segs demo_path = [''a'']" by code_simp
  then show ?thesis
    using write_commits [OF demo_service demo_ok demo_normal] demo_write_run
    by (fastforce simp: demo_router_def of_segs_def)
qed

text \<open>
  C17: overwriting a file leaves the new version without a WAL entry, unless its row happens to be the
  row that the connection inserted last: \<open>upsert\<close> returns the connection's last insert row id, which an
  update does not set, and both entries are enqueued for the file with that id. The row of the new
  version names the local tier only, so after the first version was flushed nothing replicates it.
\<close>

theorem overwrite_not_replicated:
  assumes "s3_service (s3_client b) objs" "world_ok serve_inv w" "normal_path p"
    and "row_of (wdb w) p = Some old" "last_insert_rowid (wdb w) \<noteq> r_id old"
    and "router_write sha (serve_router lp np b) p data w = (Inr (), w')"
  shows "\<exists>row e1 e2. row_of (wdb w') p = Some row \<and> r_sha256 row = sha data \<and> row_bm row = bm_set Local bm_NONE \<and>
    wal_table (wdb w') = wal_table (wdb w) @ [e1, e2] \<and> w_file_id e1 \<noteq> r_id row \<and> w_file_id e2 \<noteq> r_id row"
  by (rule tier_stack.overwrite_enqueues [OF serve_stack [OF assms(1)] assms(6,2,3,4)]) (use assms(5) in auto)

text \<open>Here the entries are for the root directory: the write of the new file inserted its row last.\<close>

theorem overwrite_not_replicated_witness:
  "let w = snd (router_write demo_sha demo_router demo_path [3] demo_flushed) in
   fst (router_write demo_sha demo_router demo_path [3] demo_flushed) = Inr () \<and>
   (\<exists>row. row_of (wdb w) demo_path = Some row \<and> (\<forall>e\<in>set (drop 1 (wal_table (wdb w))). w_file_id e \<noteq> r_id row)) \<and>
   map (\<lambda>e. (w_file_id e, w_op e)) (wal_table (wdb w)) =
     [(1, ''replicate_nas''), (2, ''replicate_nas''), (2, ''upload_s3'')] \<and>
   map_option r_path (find (\<lambda>row. r_id row = 2) (files (wdb w))) = Some ''/''"
proof -
  have run: "fst (router_write demo_sha demo_router demo_path [3] demo_flushed) = Inr ()" by code_simp
  have "world_ok serve_inv demo_flushed" using tier_stack.runs_ok [OF demo_stack demo_runs demo_holds(1)] .
  moreover obtain old where "row_of (wdb demo_flushed) demo_path = Some old" "last_insert_rowid (wdb demo_flushed) \<noteq> r_id old"
  proof -
    have "case row_of (wdb demo_flushed) demo_path of None \<Rightarrow> False | Some old \<Rightarrow> last_insert_rowid (wdb demo_flushed) \<noteq> r_id old"
      by code_simp
    with that show thesis by (auto split: option.splits)
  qed
  moreover have "length (wal_table (wdb demo_flushed)) = 1" by code_simp
  moreover have "map (\<lambda>e. (w_file_id e, w_op e)) (wal_table (wdb (snd (router_write demo_sha demo_router demo_path [3] demo_flushed)))) =
     [(1, ''replicate_nas''), (2, ''replicate_nas''), (2, ''upload_s3'')]" by code_simp
  moreover have "map_option r_path (find (\<lambda>row. r_id row = 2)
      (files (wdb (snd (router_write demo_sha demo_router demo_path [3] demo_flushed))))) = Some ''/''" by code_simp
  ultimately show ?thesis
    using overwrite_not_replicated [OF demo_service _ demo_normal _ _ run_result [OF run [unfolded demo_router_def]]] run
    by (fastforce simp: demo_router_def Let_def)
qed

text \<open>
  C6: what a write promises, a flush keeps: when the stores are up, the next flush of the uploader
  brings a newly written file to S3, records S3 in its row and removes its upload from the WAL.
\<close>

theorem new_file_reaches_s3:
  assumes "s3_writable_service (s3_client b) objs s3up" "world_ok serve_inv w" "normal_path p" "row_of (wdb w) p = None"
    and "router_write sha (serve_router lp np b) p data w = (Inr (), w1)"
    and "all_up (serve_up s3up) w1" "\<And>q. intact (serve_content lp np b objs) w1 q"
  shows "let w2 = flush_pending (serve_router lp np b) n w1 in
    serve_content lp np b objs S3 (stores w2 S3) p = Some data \<and> holds (serve_content lp np b objs) sha w2 p data \<and>
    (\<exists>row. row_of (wdb w2) p = Some row \<and> bm_has (row_bm row) S3) \<and>
    (\<exists>x. x \<in> set (wal_table (wdb w1)) \<and> w_op x = ''upload_s3'' \<and> w_id x \<notin> w_id ` set (wal_table (wdb w2)))"
proof -
  note up = serve_upload [OF assms(1), of lp np]
  note stack = live_stack.axioms(1) [OF upload_stack.axioms(1) [OF up]]
  have ok: "world_ok serve_inv w1"
    using preservesD [OF tier_stack.write_preserves_ok [OF stack assms(3)] assms(2,5)] .
  have new: "holds (serve_content lp np b objs) sha w1 p data"
    by (rule tier_stack.write_new_version(1) [OF stack assms(5,2,3)])
  obtain row x where row: "row_of (wdb w1) p = Some row" and
    x: "x \<in> set (wal_table (wdb w1))" "w_file_id x = r_id row" "w_op x = ''upload_s3''" "w_attempts x = 0"
    by (rule tier_stack.write_enqueues [OF stack assms(5,2,3,4)])
  show ?thesis
    using upload_stack.flush_uploads [OF up _ new row x(1-3), of n] ok assms(6,7) x by (auto simp: Let_def)
qed

theorem new_file_reaches_s3_witness:
  "snd (stores (flush_pending demo_router 0 demo_written) S3) ''bucket'' ''fvfs/a'' = Some [1, 2]"
proof -
  have svc: "s3_writable_service (s3_client demo_s3) (\<lambda>s. s) (\<lambda>_. True)"
    using mem_writable.s3_writable_service_axioms by (simp add: demo_s3_def s3_new_def)
  have fresh: "row_of (wdb demo_world) demo_path = None" by code_simp
  have "demo_content S3 (stores (flush_pending demo_router 0 demo_written) S3) demo_path = Some [1, 2]"
    using new_file_reaches_s3 [OF svc demo_ok demo_normal fresh demo_write_run [unfolded demo_router_def] demo_up
        demo_intact_all, of 0] by (simp add: Let_def demo_router_def)
  moreover have "s3_key (s3_prefix demo_s3) demo_path = ''fvfs/a''" "s3_bucket demo_s3 = ''bucket''" by code_simp+
  ultimately show ?thesis by (simp add: s3_content_def split: if_splits)
qed

text \<open>C23: after a successful delete the path is gone: its row is removed and a read answers \<open>NotFound\<close>.\<close>

theorem delete_removes:
  assumes "router_delete r p w = (Inr (), w')"
  shows "row_of (wdb w') p = None \<and>
    (no_sql_fault (wdb w') \<longrightarrow> fst (router_read r p w') = Inl (NotFound (as_str p)))"
  using delete_row_gone [OF assms] by simp

theorem delete_removes_witness:
  "row_of (wdb (snd (router_delete demo_router demo_path demo_written))) demo_path = None"
proof -
  have "fst (router_delete demo_router demo_path demo_written) = Inr ()" by code_simp
  from delete_removes [OF run_result [OF this]] show ?thesis by simp
qed

section \<open>HTTP\<close>



text \<open>
  A GET of a file answers 200 with exactly the bytes the router reads, and an error of the
  router with the status its kind is mapped to: 404 when there is no such file, 400 for a
  directory, 500 for a failure of a store.
\<close>

theorem http_get_answers:
  assumes "normal_path p" "p \<noteq> root_path" "router_read r p (app_world s) = (res, w)"
  shows "build_router sha r body_limit up_secs GET (''/v1/files'' @ as_str p) data s =
    (case res of
       Inr d \<Rightarrow> \<lparr> rs_status = 200, rs_headers = [ContentType ''application/octet-stream'', ContentLength (length d)],
                  rs_body = Octets d \<rparr>
     | Inl e \<Rightarrow> \<lparr> rs_status = (case e of NotFound _ \<Rightarrow> 404 | AlreadyExists _ \<Rightarrow> 409 | IsADirectory _ \<Rightarrow> 400
                                | NotADirectory _ \<Rightarrow> 400 | PermissionDenied _ \<Rightarrow> 403 | _ \<Rightarrow> 500),
                  rs_headers = [], rs_body = Json (JError (snd (api_error e))) \<rparr>,
     s\<lparr>app_world := w\<rparr>)"
proof -
  obtain rest where "parse_path rest = Inr p" "find_route (''/v1/files'' @ as_str p) = Some (FilesRoute rest)"
    using assms(1,2) by (rule find_route_path)
  then show ?thesis
    using assms(3)
    by (auto simp: build_router_def respond_def handle_get_file_def on_world_def error_response_def
        json_response_def op_defs split: sum.splits fvfs_error.splits)
qed

theorem http_get_answers_witness:
  "rs_status (fst (build_router demo_sha demo_router 9 0 GET ''/v1/files/a'' [] (app_state_new demo_world))) = 404"
proof -
  have "fst (router_read demo_router demo_path (app_world (app_state_new demo_world))) = Inl (NotFound ''/a'')"
    by code_simp
  from http_get_answers [OF demo_normal _ run_result [OF this], of demo_sha 9 0 "[]"] show ?thesis by simp
qed



section \<open>FUSE\<close>




text \<open>A mounted daemon that has looked up the file of the example: its inode number is 11.\<close>

definition demo_fuse :: "(disk \<times> mem_objects) vfsd_fuse" where
  "demo_fuse = \<lparr> vf_world = demo_written,
     vf_inodes = snd (get_or_alloc_hint demo_path (Some 11) table_new) \<rparr>"

lemma demo_fuse_sel: "vf_world demo_fuse = demo_written" "table_path (vf_inodes demo_fuse) 11 = Some demo_path"
  by (simp_all add: demo_fuse_def get_or_alloc_hint_def table_new_def table_insert_def table_path_def)

definition demo_spliced :: "(disk \<times> mem_objects) world" where
  "demo_spliced = snd (router_write demo_sha demo_router demo_path [1, 9]
     (snd (router_read demo_router demo_path demo_written)))"

lemma demo_splice: "write_splice 1 [9] [1, 2] = Some [1, 9]"
  by (simp add: write_splice_def Let_def i64_as_u64_def)

lemma demo_fuse_write:
  "fuse_write demo_sha demo_router 11 1 [9] demo_fuse = (ReplyWritten 1, demo_fuse\<lparr>vf_world := demo_spliced\<rparr>)"
proof -
  have read: "fst (router_read demo_router demo_path demo_written) = Inr [1, 2]" by code_simp
  have wr: "fst (router_write demo_sha demo_router demo_path [1, 9] (snd (router_read demo_router demo_path demo_written))) = Inr ()"
    by code_simp
  show ?thesis
    unfolding fuse_write_def demo_fuse_sel option.case
    by (subst run_result [OF read], simp add: unwrap_or_default_def demo_splice,
        subst run_result [OF wr], simp add: demo_spliced_def)
qed


text \<open>
  C11: when the stores are up, an acknowledged FUSE \<open>write\<close> is a POSIX write: the new current version
  is the old one with the addressed bytes replaced and nothing else changed.
\<close>

theorem fuse_write_is_posix:
  assumes "s3_live_service (s3_client b) objs s3up" "world_ok serve_inv (vf_world s)"
    and "all_up (serve_up s3up) (vf_world s)" "intact (serve_content lp np b objs) (vf_world s) p"
    and "holds (serve_content lp np b objs) sha (vf_world s) p d"
    and "table_path (vf_inodes s) ino = Some p" "0 \<le> offset" "offset < 2 ^ 63"
    and "fuse_write sha (serve_router lp np b) ino offset data s = (ReplyWritten n, s')"
  shows "\<exists>buf. holds (serve_content lp np b objs) sha (vf_world s') p buf \<and>
    length buf = max (length d) (nat offset + length data) \<and>
    (\<forall>i. byte_at buf i = (if nat offset \<le> i \<and> i < nat offset + length data
           then data ! (i - nat offset) else byte_at d i))"
proof -
  obtain buf where "write_splice offset data d = Some buf" "holds (serve_content lp np b objs) sha (vf_world s') p buf"
    using live_stack.fuse_write_live [OF serve_live [OF assms(1)] assms(9,6,2,3,4,5)] by blast
  with write_splice_spec [OF assms(7,8)] show ?thesis by blast
qed

theorem fuse_write_is_posix_witness:
  "\<exists>buf. holds demo_content demo_sha demo_spliced demo_path buf \<and> length buf = 2"
  using fuse_write_is_posix [OF demo_live _ _ _ _ demo_fuse_sel(2), of "[''local'']" "[''nas'']" demo_sha "[1, 2]" 1 "[9]"
      1 "demo_fuse\<lparr>vf_world := demo_spliced\<rparr>"]
    demo_holds demo_up demo_intact demo_fuse_write by (auto simp: demo_router_def demo_fuse_sel(1))

definition set_read_fault :: "bool \<Rightarrow> (disk \<times> 's) world \<Rightarrow> (disk \<times> 's) world" where
  "set_read_fault broken w =
     w\<lparr>stores := (stores w)(Local :=
        ((fst (stores w Local))\<lparr>io_fault := (\<lambda>_ k. if broken \<and> k = ReadFile then Some (IoError IoOther ''EIO'') else None)\<rparr>,
         snd (stores w Local)))\<rparr>"


text \<open>After a successful \<open>unlink\<close>, a \<open>lookup\<close> of the same name in the same directory answers \<open>ENOENT\<close>.\<close>

theorem unlink_then_lookup:
  assumes "fuse_unlink r parent name s = (ReplyOk, s')"
  shows "fst (fuse_lookup parent name s') = ReplyError ENOENT"
  by (rule fuse_unlink_gone [OF assms])

theorem unlink_then_lookup_witness:
  "fst (fuse_lookup 1 ''a'' (snd (fuse_unlink demo_router 1 ''a'' demo_fuse))) = ReplyError ENOENT"
proof -
  have del: "fst (router_delete demo_router demo_path demo_written) = Inr ()" by code_simp
  have "path_join root_path ''a'' = Inr demo_path" "to_str ''a'' = Some ''a''" by code_simp+
  moreover have "table_path (vf_inodes demo_fuse) 1 = Some root_path"
    by (simp add: demo_fuse_def get_or_alloc_hint_def table_new_def table_insert_def table_path_def)
  ultimately have "child_path (vf_inodes demo_fuse) 1 ''a'' = Inr demo_path" by (simp add: child_path_def)
  then have "fst (fuse_unlink demo_router 1 ''a'' demo_fuse) = ReplyOk"
    by (subst fuse_unlink_def) (simp add: demo_fuse_sel, subst run_result [OF del], simp)
  from unlink_then_lookup [OF run_result [OF this]] show ?thesis .
qed


definition demo_cfuse :: "(disk \<times> mem_objects) app_state vfsc_fuse" where
  "demo_cfuse = \<lparr> vc_link = app_state_new demo_written, vc_disk = empty_disk, vc_spawned = [],
     vc_inodes = snd (get_or_alloc_hint demo_path (Some 11) table_new) \<rparr>"


section \<open>Writes that overtake a background task\<close>

text \<open>
  C18: the uploader records S3 for bytes it never stored there. When a write of the same path is
  acknowledged between the uploader's read and its \<open>put\<close>, the row ends with the digest of the new
  version, the S3 bit, and the old version on S3: an eviction of the local copy then loses the write.
\<close>

theorem upload_race_loses_write:
  assumes "s3_service (s3_client b) objs" "world_ok serve_inv w" "row_of (wdb w) p = Some row"
    and "router_read (serve_router lp np b) p w = (Inr old, w1)"
    and "router_write sha (serve_router lp np b) p new w1 = (Inr (), w2)"
    and "upload_finish (serve_router lp np b) (row_to_metadata row) old w2 = (Inr (), w3)"
  shows "\<exists>row'. row_of (wdb w3) p = Some row' \<and> r_sha256 row' = sha new \<and> bm_has (row_bm row') S3 \<and>
    serve_content lp np b objs S3 (stores w3 S3) p = Some old"
  using tier_stack.stale_upload [OF serve_stack [OF assms(1)] assms(2,3) refl assms(4-6)] .

definition demo_row :: file_row where
  "demo_row = hd (files (wdb demo_written))"

definition overtaken :: "(disk \<times> mem_objects) world" where
  "overtaken = snd (router_write demo_sha demo_router demo_path [3] (snd (router_read demo_router demo_path demo_written)))"

definition overtaken_uploaded :: "(disk \<times> mem_objects) world" where
  "overtaken_uploaded = snd (upload_finish demo_router (row_to_metadata demo_row) [1, 2] overtaken)"

theorem upload_race_loses_write_witness:
  "(\<exists>row'. row_of (wdb overtaken_uploaded) demo_path = Some row' \<and> bm_has (row_bm row') S3 \<and>
     demo_content S3 (stores overtaken_uploaded S3) demo_path = Some [1, 2]) \<and>
   fst (router_write demo_sha demo_router demo_path [3] (snd (router_read demo_router demo_path demo_written))) = Inr () \<and>
   fst (router_read demo_router demo_path (snd (evict_from_tier demo_router demo_path Local overtaken_uploaded))) = Inr [1, 2]"
proof -
  have row: "row_of (wdb demo_written) demo_path = Some demo_row" by code_simp
  have read: "fst (router_read demo_router demo_path demo_written) = Inr [1, 2]" by code_simp
  have wr: "fst (router_write demo_sha demo_router demo_path [3] (snd (router_read demo_router demo_path demo_written))) = Inr ()"
    by code_simp
  have finish: "fst (upload_finish demo_router (row_to_metadata demo_row) [1, 2] overtaken) = Inr ()" by code_simp
  have lost: "fst (router_read demo_router demo_path (snd (evict_from_tier demo_router demo_path Local overtaken_uploaded))) = Inr [1, 2]"
    by code_simp
  from upload_race_loses_write [OF demo_service demo_holds(1) row run_result [OF read [unfolded demo_router_def]]
      run_result [OF wr [unfolded demo_router_def]]
      run_result [OF finish [unfolded demo_router_def overtaken_def]]]
  show ?thesis using wr lost
    by (auto simp: overtaken_uploaded_def overtaken_def demo_router_def)
qed

text \<open>
  C19: the promotion task overwrites newer bytes. When a write of the same path is acknowledged between
  the task's read and its \<open>put\<close> on the local tier, every later read that succeeds returns the old
  version.
\<close>

theorem promotion_race_loses_write:
  assumes "s3_service (s3_client b) objs" "world_ok serve_inv w" "normal_path p"
    and "router_read (serve_router lp np b) p w = (Inr old, w1)"
    and "router_write sha (serve_router lp np b) p new w1 = (Inr (), w2)"
    and "fst (on_store Local (be_put (rt_local (serve_router lp np b)) p old) w2) = Inr ()"
    and "router_read (serve_router lp np b) p (promote_finish (serve_router lp np b) p old w2) = (Inr x, w3)"
  shows "x = old"
  using tier_stack.stale_promotion [OF serve_stack [OF assms(1)] assms(2-7)] .

text \<open>A file that is on S3 only, so that reading it sends a promotion signal.\<close>

definition demo_cold :: "(disk \<times> mem_objects) world" where
  "demo_cold = snd (evict_from_tier demo_router demo_path Local demo_flushed)"

definition demo_cold_write :: "(disk \<times> mem_objects) world" where
  "demo_cold_write = snd (router_write demo_sha demo_router demo_path [3] (snd (router_read demo_router demo_path demo_cold)))"

lemma demo_cold_ok: "world_ok serve_inv demo_cold"
proof -
  have "world_ok serve_inv demo_flushed"
    using tier_stack.runs_ok [OF demo_stack demo_runs demo_holds(1)] .
  then show ?thesis
    using preservesD [OF tier_stack.evict_preserves_ok [OF demo_stack] _ prod.collapse [symmetric]]
    unfolding demo_cold_def by blast
qed

theorem promotion_race_loses_write_witness:
  "\<exists>x. fst (router_read demo_router demo_path (promote_finish demo_router demo_path [1, 2] demo_cold_write)) = Inr x \<and> x = [1, 2]"
proof -
  have read: "fst (router_read demo_router demo_path demo_cold) = Inr [1, 2]" by code_simp
  have wr: "fst (router_write demo_sha demo_router demo_path [3] (snd (router_read demo_router demo_path demo_cold))) = Inr ()"
    by code_simp
  have put: "fst (on_store Local (be_put (rt_local demo_router) demo_path [1, 2]) demo_cold_write) = Inr ()" by code_simp
  have "case fst (router_read demo_router demo_path (promote_finish demo_router demo_path [1, 2] demo_cold_write)) of
      Inl _ \<Rightarrow> False | Inr _ \<Rightarrow> True" by code_simp
  then obtain x where
    got: "fst (router_read demo_router demo_path (promote_finish demo_router demo_path [1, 2] demo_cold_write)) = Inr x"
    by (auto split: sum.splits)
  have "x = [1, 2]"
    by (rule promotion_race_loses_write [OF demo_service demo_cold_ok demo_normal
          run_result [OF read [unfolded demo_router_def]] run_result [OF wr [unfolded demo_router_def]]
          put [unfolded demo_router_def demo_cold_write_def] run_result [OF got [unfolded demo_router_def demo_cold_write_def]]])
  with got show ?thesis by blast
qed

text \<open>
  C20: an eviction from the local tier loses a write that comes between its look at the row and its
  delete: the delete removes the new bytes, the row with the new digest is marked with the tiers of the
  old version, and every later read that succeeds returns the old version.
\<close>

theorem eviction_race_loses_write:
  assumes "s3_service (s3_client b) objs" "world_ok serve_inv w" "holds (serve_content lp np b objs) sha w p old"
    and "require_metadata p w = (Inr meta, w1)"
    and "router_write sha (serve_router lp np b) p new w1 = (Inr (), w2)"
    and "evict_finish (serve_router lp np b) p Local meta w2 = (Inr (), w3)"
    and "router_read (serve_router lp np b) p w3 = (Inr x, w4)"
  shows "x = old \<and> (\<exists>row. row_of (wdb w3) p = Some row \<and> r_sha256 row = sha new)"
  using tier_stack.stale_eviction(1,2) [OF serve_stack [OF assms(1)] assms(2-7)] by blast

definition demo_meta :: file_metadata where
  "demo_meta = row_to_metadata (hd (files (wdb demo_flushed)))"

definition overtaken_eviction :: "(disk \<times> mem_objects) world" where
  "overtaken_eviction =
     snd (evict_finish demo_router demo_path Local demo_meta
       (snd (router_write demo_sha demo_router demo_path [3] (snd (require_metadata demo_path demo_flushed)))))"

theorem eviction_race_loses_write_witness:
  "\<exists>x. fst (router_read demo_router demo_path overtaken_eviction) = Inr x \<and> x = [1, 2] \<and>
     (\<exists>row. row_of (wdb overtaken_eviction) demo_path = Some row \<and> r_sha256 row = demo_sha [3])"
proof -
  have ok: "world_ok serve_inv demo_flushed" using tier_stack.runs_ok [OF demo_stack demo_runs demo_holds(1)] .
  have held: "holds demo_content demo_sha demo_flushed demo_path [1, 2]"
    using tier_stack.runs_keeps [OF demo_stack demo_runs conjI [OF demo_holds]] by simp
  have look: "fst (require_metadata demo_path demo_flushed) = Inr demo_meta" by code_simp
  have wr: "fst (router_write demo_sha demo_router demo_path [3] (snd (require_metadata demo_path demo_flushed))) = Inr ()"
    by code_simp
  have ev: "fst (evict_finish demo_router demo_path Local demo_meta
      (snd (router_write demo_sha demo_router demo_path [3] (snd (require_metadata demo_path demo_flushed))))) = Inr ()"
    by code_simp
  have "case fst (router_read demo_router demo_path overtaken_eviction) of Inl _ \<Rightarrow> False | Inr _ \<Rightarrow> True" by code_simp
  then obtain x where got: "fst (router_read demo_router demo_path overtaken_eviction) = Inr x" by (auto split: sum.splits)
  from eviction_race_loses_write [OF demo_service ok held run_result [OF look] run_result [OF wr [unfolded demo_router_def]]
      run_result [OF ev [unfolded demo_router_def]] run_result [OF got [unfolded overtaken_eviction_def demo_router_def]]]
  show ?thesis using got by (auto simp: overtaken_eviction_def demo_router_def)
qed

text \<open>
  C21: two writes of one path that run at the same time can both be acknowledged and leave the bytes of
  the one under the digest and the size of the other.
\<close>

theorem write_race_mixes_versions:
  assumes "s3_service (s3_client b) objs" "world_ok serve_inv w" "normal_path p"
    and "on_store Local (be_put (rt_local (serve_router lp np b)) p mine) w = (Inr (), w1)"
    and "router_write sha (serve_router lp np b) p theirs w1 = (Inr (), w2)"
    and "write_finish sha p mine w2 = (Inr (), w3)"
    and "router_read (serve_router lp np b) p w3 = (Inr x, w4)"
  shows "x = theirs \<and> (\<exists>row. row_of (wdb w3) p = Some row \<and> r_sha256 row = sha mine \<and>
    r_size_bytes row = u64_as_i64 (of_nat (length mine)))"
  using tier_stack.mixed_write [OF serve_stack [OF assms(1)] assms(2-6)] assms(7) by blast

definition mixed :: "(disk \<times> mem_objects) world" where
  "mixed =
     snd (write_finish demo_sha demo_path [1, 2]
       (snd (router_write demo_sha demo_router demo_path [3]
         (snd (on_store Local (be_put (rt_local demo_router) demo_path [1, 2]) demo_world)))))"

theorem write_race_mixes_versions_witness:
  "\<exists>x row. fst (router_read demo_router demo_path mixed) = Inr x \<and> x = [3] \<and>
     row_of (wdb mixed) demo_path = Some row \<and> r_sha256 row = demo_sha [1, 2] \<and> demo_sha [1, 2] \<noteq> demo_sha [3]"
proof -
  have put: "fst (on_store Local (be_put (rt_local demo_router) demo_path [1, 2]) demo_world) = Inr ()" by code_simp
  have wr: "fst (router_write demo_sha demo_router demo_path [3]
      (snd (on_store Local (be_put (rt_local demo_router) demo_path [1, 2]) demo_world))) = Inr ()" by code_simp
  have fin: "fst (write_finish demo_sha demo_path [1, 2] (snd (router_write demo_sha demo_router demo_path [3]
      (snd (on_store Local (be_put (rt_local demo_router) demo_path [1, 2]) demo_world))))) = Inr ()" by code_simp
  have "case fst (router_read demo_router demo_path mixed) of Inl _ \<Rightarrow> False | Inr _ \<Rightarrow> True" by code_simp
  then obtain x where got: "fst (router_read demo_router demo_path mixed) = Inr x" by (auto split: sum.splits)
  have ne: "demo_sha [1, 2] \<noteq> demo_sha [3]" by code_simp
  from write_race_mixes_versions [OF demo_service demo_ok demo_normal run_result [OF put [unfolded demo_router_def]]
      run_result [OF wr [unfolded demo_router_def]] run_result [OF fin [unfolded demo_router_def]]
      run_result [OF got [unfolded mixed_def demo_router_def]]]
  show ?thesis using got ne by (auto simp: mixed_def demo_router_def)
qed

section \<open>Tasks that interleave at every await\<close>




text \<open>A wake-up of the eviction task on the demonstration's one file, without the ranking.\<close>

definition queried :: "(disk \<times> mem_objects) world \<Rightarrow> (disk \<times> mem_objects) world" where
  "queried w =
     (let w2 = snd (on_db (db_files_on_tier (bitmask Local)) (snd (on_db (db_bytes_on_tier (bitmask Local)) w)))
      in w2\<lparr>ticks := Suc (ticks w2)\<rparr>)"

definition evicted :: "(disk \<times> mem_objects) world \<Rightarrow> (disk \<times> mem_objects) world" where
  "evicted w =
     snd (on_db (db_bytes_on_tier (bitmask Nas))
       (snd (evict_from_tier demo_router demo_path Local (queried w))))"

lemma wakeup_evicts:
  assumes "fst (on_db (db_bytes_on_tier (bitmask Local)) w) = Inr 2"
    and "fst (on_db (db_files_on_tier (bitmask Local)) (snd (on_db (db_bytes_on_tier (bitmask Local)) w))) = Inr [f]"
    and "fm_path f = demo_path" "safe_to_evict_from (fm_tier_bitmask f) Local"
    and "fst (on_db (db_bytes_on_tier (bitmask Nas))
       (snd (evict_from_tier demo_router demo_path Local (queried w)))) = Inr 0"
  shows "run_eviction_wakeup demo_router (set_policy demo_settings) (set_local_wm demo_settings) (set_nas_wm demo_settings) w =
     evicted w"
proof (rule eviction_wakeup_single [OF run_result [OF assms(1)] _ _ run_result [OF assms(2)] assms(4)])
  show "high_bytes (set_local_wm demo_settings) < 2" "low_bytes (set_local_wm demo_settings) < 2"
    by (simp_all add: demo_settings_def)
  show "on_db (db_bytes_on_tier (bitmask Nas)) (snd (evict_from_tier demo_router (fm_path f) Local
      (snd (on_db (db_files_on_tier (bitmask Local)) (snd (on_db (db_bytes_on_tier (bitmask Local)) w)))
       \<lparr>ticks := Suc (ticks (snd (on_db (db_files_on_tier (bitmask Local)) (snd (on_db (db_bytes_on_tier (bitmask Local)) w)))))\<rparr>))) =
      (Inr 0, evicted w)"
    using run_result [OF assms(5)] unfolding evicted_def assms(3) queried_def Let_def .
qed (rule word_zero_le)

text \<open>A read that has loaded the row is overtaken by an eviction from the local tier, and falls back to S3.\<close>

definition demo_evicted :: "(disk \<times> mem_objects) world" where
  "demo_evicted = evicted (snd (require_metadata demo_path demo_flushed))"

lemma demo_evicted_eq:
  "run_eviction_wakeup demo_router (set_policy demo_settings) (set_local_wm demo_settings) (set_nas_wm demo_settings)
     (snd (require_metadata demo_path demo_flushed)) = demo_evicted"
  unfolding demo_evicted_def by (rule wakeup_evicts [of _ demo_meta]) code_simp+

lemma demo_flushed_replicated:
  "world_ok serve_inv demo_flushed" "holds demo_content demo_sha demo_flushed demo_path [1, 2]"
  "\<exists>row. row_of (wdb demo_flushed) demo_path = Some row \<and> bm_has (row_bm row) S3"
proof -
  show "world_ok serve_inv demo_flushed" using tier_stack.runs_ok [OF demo_stack demo_runs demo_holds(1)] .
  show "holds demo_content demo_sha demo_flushed demo_path [1, 2]"
    using tier_stack.runs_keeps [OF demo_stack demo_runs conjI [OF demo_holds]] by simp
  have "case row_of (wdb demo_flushed) demo_path of None \<Rightarrow> False | Some row \<Rightarrow> bm_has (row_bm row) S3" by code_simp
  then show "\<exists>row. row_of (wdb demo_flushed) demo_path = Some row \<and> bm_has (row_bm row) S3"
    by (auto split: option.splits)
qed


text \<open>
  A signal that outlives the file it was sent for: a read of a file on the NAS asked for its promotion,
  the file was deleted and written again, to the local tier only. The promotion of the signal
  starts, and stops after it has loaded the row; the uploader and the eviction task run.
\<close>

definition stale :: "(disk \<times> mem_objects) world" where
  "stale = demo_written\<lparr>promote_q := [Promote demo_path Nas]\<rparr>"

definition first_read :: "(disk \<times> mem_objects) world" where
  "first_read = snd (router_read demo_router demo_path demo_written)"

definition copied :: "(disk \<times> mem_objects) world" where
  "copied = snd (on_store Local (be_put (rt_local demo_router) demo_path [1, 2]) first_read)"

definition half_promoted :: "(disk \<times> mem_objects) world" where
  "half_promoted = snd (on_db (db_get demo_path) copied)"

definition local_only_meta :: file_metadata where
  "local_only_meta = row_to_metadata (the (row_of (wdb half_promoted) demo_path))"

definition meanwhile :: "(disk \<times> mem_objects) world" where
  "meanwhile = evicted (flush_pending demo_router 0 half_promoted)"

definition lost_update :: "(disk \<times> mem_objects) world" where
  "lost_update = snd (prun (p_mark_found (Inr (Some local_only_meta))) meanwhile)"

lemma stale_holds: "world_ok serve_inv stale" "holds demo_content demo_sha stale demo_path [1, 2]"
  using demo_holds by (simp_all add: stale_def holds_def world_ok_def)

text \<open>The actions of the promotion up to the update of the row.\<close>

lemma promotion_actions:
  "prun (atomic recv_signal) stale = (Inr (Some (Promote demo_path Nas)), demo_written)"
  "prun (pattempt (p_read demo_router demo_path)) demo_written = (Inr (Inr [1, 2]), first_read)"
  "prun (pattempt (p_store Local (be_put (rt_local demo_router) demo_path [1, 2]))) first_read = (Inr (Inr ()), copied)"
  "prun (pattempt (p_db (db_get demo_path))) copied = (Inr (Inr (Some local_only_meta)), half_promoted)"
proof -
  have "promote_q demo_written = []" by code_simp
  then show "prun (atomic recv_signal) stale = (Inr (Some (Promote demo_path Nas)), demo_written)"
    by (simp add: recv_signal_def stale_def)
  have got: "fst (router_read demo_router demo_path demo_written) = Inr [1, 2]" by code_simp
  then show "prun (pattempt (p_read demo_router demo_path)) demo_written = (Inr (Inr [1, 2]), first_read)"
    using attempt_result [of "router_read demo_router demo_path", OF got] by (simp add: prun_read first_read_def)
  have stored: "fst (on_store Local (be_put (rt_local demo_router) demo_path [1, 2]) first_read) = Inr ()" by code_simp
  then show "prun (pattempt (p_store Local (be_put (rt_local demo_router) demo_path [1, 2]))) first_read = (Inr (Inr ()), copied)"
    using attempt_result [of "on_store Local (be_put (rt_local demo_router) demo_path [1, 2])", OF stored]
    by (simp add: copied_def)
  have found: "fst (on_db (db_get demo_path) copied) = Inr (Some local_only_meta)" by code_simp
  then show "prun (pattempt (p_db (db_get demo_path))) copied = (Inr (Inr (Some local_only_meta)), half_promoted)"
    using attempt_result [of "on_db (db_get demo_path)", OF found] by (simp add: half_promoted_def)
qed

text \<open>The uploader and the eviction task run to their ends, then the promotion does.\<close>

lemma closing_actions:
  "prun (task_prog demo_sha demo_router demo_settings TFlush) half_promoted =
     (Inr Nothing, flush_pending demo_router 0 half_promoted)"
  "prun (task_prog demo_sha demo_router demo_settings TEvict) (flush_pending demo_router 0 half_promoted) =
     (Inr Nothing, meanwhile)"
  "prun (answering (\<lambda>_. Nothing) (p_mark_found (Inr (Some local_only_meta)))) meanwhile = (Inr Nothing, lost_update)"
proof -
  show "prun (task_prog demo_sha demo_router demo_settings TFlush) half_promoted =
      (Inr Nothing, flush_pending demo_router 0 half_promoted)"
    by (simp add: prun_flush [of _ _ 0] answered_def)
  let ?w = "flush_pending demo_router 0 half_promoted"
  have "run_eviction_wakeup demo_router (set_policy demo_settings) (set_local_wm demo_settings) (set_nas_wm demo_settings) ?w =
      meanwhile"
    unfolding meanwhile_def by (rule wakeup_evicts [of _ "row_to_metadata (the (row_of (wdb ?w) demo_path))"]) code_simp+
  then show "prun (task_prog demo_sha demo_router demo_settings TEvict) ?w = (Inr Nothing, meanwhile)"
    by (simp add: prun_eviction_wakeup answered_def)
  have "fst (prun (p_mark_found (Inr (Some local_only_meta))) meanwhile) = Inr ()" by (simp add: p_mark_found_def)
  then show "prun (answering (\<lambda>_. Nothing) (p_mark_found (Inr (Some local_only_meta)))) meanwhile = (Inr Nothing, lost_update)"
    by (simp add: answered_def lost_update_def)
qed

lemma lost_update_run:
  "pool_runs demo_sha demo_router demo_settings (pool_new stale) [TPromote, TFlush, TEvict]
     \<lparr> pool_world = lost_update, running = [(TPromote, Ret (Inr Nothing)), (TFlush, Ret (Inr Nothing)), (TEvict, Ret (Inr Nothing))] \<rparr>"
proof -
  note at = promotion_actions closing_actions
  let ?prog = "task_prog demo_sha demo_router demo_settings"
  let ?last = "answering (\<lambda>_. Nothing) (p_mark_found (Inr (Some local_only_meta)))"
  let ?done = "\<lparr> pool_world = lost_update, running = [(TPromote, Ret (Inr Nothing)), (TFlush, Ret (Inr Nothing)), (TEvict, Ret (Inr Nothing))] \<rparr>"
  let ?runs = "\<lambda>w ps. pool_runs demo_sha demo_router demo_settings \<lparr> pool_world = w, running = zip [TPromote, TFlush, TEvict] ps \<rparr> [] ?done"
  have "pool_runs demo_sha demo_router demo_settings ?done [] ?done" by (rule pool_idle)
  then have "?runs meanwhile [?last, Ret (Inr Nothing), Ret (Inr Nothing)]"
    by (intro pool_task_end [OF at(7), of 0]) simp_all
  then have "?runs (flush_pending demo_router 0 half_promoted) [?last, Ret (Inr Nothing), ?prog TEvict]"
    by (intro pool_task_end [OF at(6), of 2]) simp_all
  then have "?runs half_promoted [?last, ?prog TFlush, ?prog TEvict]"
    by (intro pool_task_end [OF at(5), of 1]) simp_all
  then have "?runs copied [answering (\<lambda>_. Nothing) (p_mark_local demo_path), ?prog TFlush, ?prog TEvict]"
    by (intro pool_task_inside [OF at(4), of 0]) (simp_all add: p_mark_local_def answering_pbind)
  then have "?runs first_read [answering (\<lambda>_. Nothing) (pbind (pattempt (p_store Local (be_put (rt_local demo_router) demo_path [1, 2])))
      (\<lambda>res. case res of Inl e \<Rightarrow> p_ok () | Inr _ \<Rightarrow> p_mark_local demo_path)), ?prog TFlush, ?prog TEvict]"
    by (intro pool_task_inside [OF at(3), where k = 0 and g = "\<lambda>res. answering (\<lambda>_. Nothing)
        (case res of Inl e \<Rightarrow> p_ok () | Inr _ \<Rightarrow> p_mark_local demo_path)"]) (simp_all add: answering_pbind)
  then have "?runs demo_written [answering (\<lambda>_. Nothing) (p_promote demo_router demo_path), ?prog TFlush, ?prog TEvict]"
    by (intro pool_task_inside [OF at(2), where k = 0 and g = "\<lambda>got. answering (\<lambda>_. Nothing)
        (case got of Inl e \<Rightarrow> p_ok () | Inr data \<Rightarrow>
          pbind (pattempt (p_store Local (be_put (rt_local demo_router) demo_path data)))
            (\<lambda>res. case res of Inl e \<Rightarrow> p_ok () | Inr _ \<Rightarrow> p_mark_local demo_path))"])
      (simp_all add: p_promote_def answering_pbind)
  then have "?runs stale [?prog TPromote, ?prog TFlush, ?prog TEvict]"
    by (intro pool_task_inside [OF at(1), where k = 0 and g = "\<lambda>sig. answering (\<lambda>_. Nothing)
        (case sig of None \<Rightarrow> p_ok () | Some s \<Rightarrow> p_promote demo_router (sig_path s))"])
      (simp_all add: p_promote_next_def answering_pbind)
  then show ?thesis
    by (intro pool_start) (simp_all del: task_prog.simps)
qed


text \<open>
  C22: without the copy on S3 the interleaving can lose a file that nobody touches. A promotion has
  loaded the row of a file that is on the local tier only; the uploader copies the file to S3 and
  records it, the eviction task removes the local copy; then the promotion writes back the bitmask it
  has loaded. The row now names the local tier only, which is empty, and every read answers
  NotFound, although S3 stores the current version.
\<close>

theorem unreplicated_file_lost:
  "\<exists>w s. world_ok serve_inv w \<and> holds demo_content demo_sha w demo_path [1, 2] \<and>
     pool_runs demo_sha demo_router demo_settings (pool_new w) [TPromote, TFlush, TEvict] s \<and>
     demo_content S3 (stores (pool_world s) S3) demo_path = Some [1, 2] \<and>
     fst (router_read demo_router demo_path (pool_world s)) = Inl (NotFound ''/a'')"
proof -
  have "demo_content S3 (stores lost_update S3) demo_path = Some [1, 2]" by code_simp
  moreover have "fst (router_read demo_router demo_path lost_update) = Inl (NotFound ''/a'')" by code_simp
  ultimately show ?thesis using stale_holds lost_update_run by fastforce
qed

section \<open>The daemon as a process\<close>


definition demo_config :: config where
  "demo_config =
     \<lparr> cf_daemon = daemon_config_default,
       cf_tiers =
         \<lparr> tc_local = \<lparr> tc_path = ''/local'', tc_high_watermark_gb = 2, tc_low_watermark_gb = 1 \<rparr>,
           tc_nas = \<lparr> tc_path = ''/nas'', tc_high_watermark_gb = 2, tc_low_watermark_gb = 1 \<rparr>,
           tc_s3 = \<lparr> sc_bucket = ''bucket'', sc_region = ''us-east-1'', sc_prefix = ''fvfs'' \<rparr> \<rparr>,
       cf_upload = upload_config_default,
       cf_eviction = \<lparr> ec_interval_secs = 600, ec_recency_weight = Finite 1, ec_frequency_weight = Finite 1 \<rparr>,
       cf_client = client_config_default \<rparr>"


section \<open>The command line\<close>



end
